(* ===== verification/Prelude.thy ===== *)
theory Prelude
  imports Main "HOL-Library.Word"
begin

text \<open>
  Shared vocabulary of the development: the machine integer types of the Go code, Go
  errors and panics as values, the decimal and hexadecimal formatting of Go's
  \<open>strconv\<close> and \<open>fmt\<close> packages, big-endian byte strings, and a few generic lemmas.
  The collections declared here are filled by the component theories:
  \<open>emit_simps\<close> unfolds the code generators of \<open>transpiler/transpiler.go\<close>,
  \<open>decode_simps\<close> evaluates the assembler syntax, \<open>mach_simps\<close> runs machine
  instructions and \<open>pool_simps\<close> holds the facts about the data section.
\<close>

named_theorems emit_simps "code generators of the transpiler, unfolded"
named_theorems decode_simps "assembler syntax, evaluated"
named_theorems mach_simps "execution of single machine instructions"
named_theorems pool_simps "labels and values of the data section"

section \<open>Machine integers, errors and panics\<close>

lemma unat_word_of_nat: "n < 2 ^ LENGTH('a::len) \<Longrightarrow> unat (word_of_nat n :: 'a word) = n"
  by (simp add: unat_of_nat)


text \<open>Widening keeps the value.\<close>

lemma unat_ucast_up: "LENGTH('a::len) \<le> LENGTH('b::len) \<Longrightarrow> unat (ucast (w :: 'a word) :: 'b word) = unat w"
  by (simp add: unsigned_ucast_eq take_bit_nat_eq_self less_le_trans[OF unsigned_less])


type_synonym u8 = "8 word"
type_synonym u32 = "32 word"
type_synonym u64 = "64 word"
type_synonym u256 = "256 word"
type_synonym bytes = "u8 list"

lemma unat_u32_less: "unat (w :: u32) < 2 ^ 32"
  using unsigned_less[of w] by simp

text \<open>
  A Go function that returns \<open>(T, error)\<close> gives \<open>Inr\<close> or \<open>Inl (Err msg)\<close>; a run-time
  panic (index out of range, nil dereference, slice bounds) is \<open>Inl (Panic msg)\<close>.
\<close>

datatype fail = Err string | Panic string

type_synonym 'a result = "fail + 'a"

definition bindR :: "'a result \<Rightarrow> ('a \<Rightarrow> 'b result) \<Rightarrow> 'b result" where
  "bindR r f = (case r of Inl e \<Rightarrow> Inl e | Inr x \<Rightarrow> f x)"

lemma bindR_simps [simp]:
  "bindR (Inl e) f = Inl e"
  "bindR (Inr x) f = f x"
  by (simp_all add: bindR_def)

lemma bindR_eq_Inr [simp]:
  "bindR r f = Inr y \<longleftrightarrow> (\<exists>x. r = Inr x \<and> f x = Inr y)"
  by (cases r) simp_all

lemma bindR_eq_Inl:
  "bindR r f = Inl e \<longleftrightarrow> r = Inl e \<or> (\<exists>x. r = Inr x \<and> f x = Inl e)"
  by (cases r) auto

lemma bindR_assoc: "bindR (bindR r f) g = bindR r (\<lambda>x. bindR (f x) g)"
  by (cases r) simp_all

text \<open>Go pointers that may be nil are options; dereferencing nil panics.\<close>

definition deref :: "'a option \<Rightarrow> 'a result" where
  "deref p = (case p of None \<Rightarrow> Inl (Panic ''nil pointer dereference'') | Some x \<Rightarrow> Inr x)"

lemma deref_simps [simp]:
  "deref (Some x) = Inr x"
  "deref None = Inl (Panic ''nil pointer dereference'')"
  by (simp_all add: deref_def)

lemma deref_eq_Inr [simp]: "deref p = Inr x \<longleftrightarrow> p = Some x"
  by (cases p) simp_all

text \<open>Go's \<open>xs[i]\<close> on a slice.\<close>

definition go_index :: "'a list \<Rightarrow> nat \<Rightarrow> 'a result" where
  "go_index xs i = (if i < length xs then Inr (xs ! i) else Inl (Panic ''index out of range''))"

lemma go_index_eq_Inr: "go_index xs i = Inr x \<longleftrightarrow> i < length xs \<and> x = xs ! i"
  by (auto simp: go_index_def)

text \<open>Go's \<open>copy(dst, src)\<close>, and slicing \<open>xs[lo:hi]\<close> with \<open>hi\<close> within the length.\<close>

definition go_copy :: "'a list \<Rightarrow> 'a list \<Rightarrow> 'a list" where
  "go_copy dst src = take (length dst) src @ drop (length src) dst"

definition go_slice :: "'a list \<Rightarrow> nat \<Rightarrow> nat \<Rightarrow> 'a list result" where
  "go_slice xs lo hi = (if lo \<le> hi \<and> hi \<le> length xs then Inr (take (hi - lo) (drop lo xs))
     else Inl (Panic ''slice bounds out of range''))"

lemma length_go_copy [simp]: "length (go_copy dst src) = length dst"
  by (simp add: go_copy_def)

text \<open>An existential over the positions of a list with one more element.\<close>

lemma ex_less_snoc:
  "(\<exists>i<length (xs @ [x]). P i ((xs @ [x]) ! i)) \<longleftrightarrow>
   (\<exists>i<length xs. P i (xs ! i)) \<or> P (length xs) x"
proof -
  have split: "(\<exists>i<Suc n. Q i) \<longleftrightarrow> (\<exists>i<n. Q i) \<or> Q n" for Q and n :: nat
    by (metis less_Suc_eq)
  show ?thesis
    by (simp add: split nth_append cong: conj_cong)
qed

section \<open>Decimal and hexadecimal formatting\<close>

definition digit :: "nat \<Rightarrow> char" where
  "digit n = ''0123456789abcdef'' ! n"

fun show_nat :: "nat \<Rightarrow> string" where
  "show_nat n = (if n < 10 then [digit n] else show_nat (n div 10) @ [digit (n mod 10)])"

declare show_nat.simps [simp del]

text \<open>\<open>strconv.FormatInt(v, 10)\<close> and \<open>\<percent>d\<close> of a signed value.\<close>

definition show_int :: "int \<Rightarrow> string" where
  "show_int i = (if i < 0 then CHR ''-'' # show_nat (nat (- i)) else show_nat (nat i))"

text \<open>\<open>\<percent>0kx\<close>: the \<open>k\<close> low hexadecimal digits, most significant first.\<close>

fun hex_pad :: "nat \<Rightarrow> nat \<Rightarrow> string" where
  "hex_pad 0 n = []"
| "hex_pad (Suc k) n = hex_pad k (n div 16) @ [digit (n mod 16)]"

definition digit_val :: "char \<Rightarrow> nat option" where
  "digit_val c = (let k = of_char c in
     if 48 \<le> k \<and> k \<le> 57 then Some (k - 48)
     else if 97 \<le> k \<and> k \<le> 102 then Some (k - 87) else None)"

text \<open>Reading a numeral in a base, digit by digit; \<open>None\<close> on a foreign character.\<close>

fun read_base :: "nat \<Rightarrow> nat \<Rightarrow> string \<Rightarrow> nat option" where
  "read_base b acc [] = Some acc"
| "read_base b acc (c # cs) =
     (case digit_val c of None \<Rightarrow> None
      | Some d \<Rightarrow> if d < b then read_base b (acc * b + d) cs else None)"

definition read_nat :: "string \<Rightarrow> nat option" where
  "read_nat s = (if s = [] then None else read_base 10 0 s)"

definition read_int :: "string \<Rightarrow> int option" where
  "read_int s = (case s of
      [] \<Rightarrow> None
    | c # cs \<Rightarrow> if c = CHR ''-'' then map_option (\<lambda>n. - int n) (read_nat cs)
               else map_option int (read_nat s))"

lemma less_16_cases:
  "(n::nat) < 16 \<Longrightarrow> n \<in> {0,1,2,3,4,5,6,7,8,9,10,11,12,13,14,15}"
  by (simp only: insert_iff empty_iff) arith

lemma ten_less_16: "(10::nat) < 16"
  by simp

lemma digit_val_digit [simp]: "n < 16 \<Longrightarrow> digit_val (digit n) = Some n"
  by (drule less_16_cases) (auto simp: digit_def digit_val_def)

lemma digit_not_minus: "n < 16 \<Longrightarrow> digit n \<noteq> CHR ''-''"
  by (drule less_16_cases) (auto simp: digit_def)

lemma digit_not_paren: "n < 16 \<Longrightarrow> digit n \<noteq> CHR ''(''"
  by (drule less_16_cases) (auto simp: digit_def)

lemma digit_not_newline: "n < 16 \<Longrightarrow> digit n \<noteq> CHR 0x0A"
  by (drule less_16_cases) (auto simp: digit_def)

lemma read_base_append:
  "read_base b acc (xs @ ys) =
     (case read_base b acc xs of None \<Rightarrow> None | Some a \<Rightarrow> read_base b a ys)"
  by (induction xs arbitrary: acc) (auto split: option.splits)

lemma show_nat_nonempty [simp]: "show_nat n \<noteq> []"
  by (subst show_nat.simps) simp

lemma set_show_nat: "c \<in> set (show_nat n) \<Longrightarrow> \<exists>d<10. c = digit d"
proof (induction n rule: show_nat.induct)
  case (1 n)
  show ?case
  proof (cases "n < 10")
    case True
    with "1.prems" show ?thesis by (subst (asm) show_nat.simps) auto
  next
    case False
    with "1.prems" have "c \<in> set (show_nat (n div 10)) \<or> c = digit (n mod 10)"
      by (subst (asm) show_nat.simps) auto
    then show ?thesis
    proof
      assume "c \<in> set (show_nat (n div 10))"
      then show ?thesis by (rule "1.IH"[OF False])
    next
      assume "c = digit (n mod 10)"
      then show ?thesis by (intro exI[of _ "n mod 10"]) simp
    qed
  qed
qed

lemma show_nat_no_paren: "CHR ''('' \<notin> set (show_nat n)"
  using set_show_nat[of _ n] digit_not_paren by (metis (no_types) less_trans ten_less_16)

lemma show_nat_no_minus: "CHR ''-'' \<notin> set (show_nat n)"
  using set_show_nat[of _ n] digit_not_minus by (metis (no_types) less_trans ten_less_16)

lemma read_base_show_nat: "read_base 10 0 (show_nat n) = Some n"
proof (induction n rule: show_nat.induct)
  case (1 n)
  show ?case
  proof (cases "n < 10")
    case True
    then show ?thesis by (subst show_nat.simps) simp
  next
    case False
    with 1 show ?thesis
      by (subst show_nat.simps) (simp add: read_base_append)
  qed
qed

lemma read_nat_show_nat [simp]: "read_nat (show_nat n) = Some n"
  by (simp add: read_nat_def read_base_show_nat)

lemma show_nat_inj: "show_nat m = show_nat n \<longleftrightarrow> m = n"
  using read_nat_show_nat by (metis option.inject)

lemma show_nat_Cons_minus: "show_nat n \<noteq> CHR ''-'' # cs"
  using show_nat_no_minus[of n] by auto

lemma read_int_show_int [simp]: "read_int (show_int i) = Some i"
proof (cases "i < 0")
  case True
  then show ?thesis by (simp add: show_int_def read_int_def)
next
  case False
  obtain c cs where s: "show_nat (nat i) = c # cs"
    by (cases "show_nat (nat i)") simp_all
  with show_nat_Cons_minus have "c \<noteq> CHR ''-''" by metis
  moreover have "read_nat (c # cs) = Some (nat i)"
    using s read_nat_show_nat by metis
  ultimately show ?thesis using False s
    by (simp add: show_int_def read_int_def)
qed

lemma length_hex_pad [simp]: "length (hex_pad k n) = k"
  by (induction k arbitrary: n) simp_all

lemma read_base_hex_pad: "read_base 16 0 (hex_pad k n) = Some (n mod 16 ^ k)"
proof (induction k arbitrary: n)
  case 0
  then show ?case by simp
next
  case (Suc k)
  have "n div 16 mod 16 ^ k * 16 + n mod 16 = n mod 16 ^ Suc k"
    by (simp add: mod_mult2_eq)
  with Suc show ?case by (simp add: read_base_append)
qed

section \<open>Big-endian byte strings\<close>

fun be_nat :: "bytes \<Rightarrow> nat" where
  "be_nat [] = 0"
| "be_nat (b # bs) = unat b * 256 ^ length bs + be_nat bs"

fun be_bytes :: "nat \<Rightarrow> nat \<Rightarrow> bytes" where
  "be_bytes 0 n = []"
| "be_bytes (Suc k) n = be_bytes k (n div 256) @ [word_of_nat (n mod 256)]"

lemma be_nat_append: "be_nat (xs @ ys) = be_nat xs * 256 ^ length ys + be_nat ys"
  by (induction xs) (simp_all add: algebra_simps power_add)

lemma length_be_bytes [simp]: "length (be_bytes k n) = k"
  by (induction k arbitrary: n) simp_all

lemma nth_be_bytes:
  "j < k \<Longrightarrow> be_bytes k n ! j = word_of_nat (n div 256 ^ (k - 1 - j))"
proof (induction k arbitrary: n j)
  case 0
  then show ?case by simp
next
  case (Suc k)
  show ?case
  proof (cases "j < k")
    case True
    then have "k - j = Suc (k - 1 - j)" by simp
    then have "n div 256 ^ (k - j) = n div 256 div 256 ^ (k - 1 - j)"
      by (simp add: div_mult2_eq)
    with Suc True show ?thesis by (simp add: nth_append)
  next
    case False
    with Suc.prems have "j = k" by simp
    moreover have "(word_of_nat (n mod 256) :: u8) = word_of_nat n"
      by (simp add: word_unat_eq_iff unat_of_nat)
    ultimately show ?thesis by (simp add: nth_append)
  qed
qed

lemma unat_byte_mod [simp]: "unat (word_of_nat (n mod 256) :: u8) = n mod 256"
  by (simp add: unat_of_nat)

lemma be_nat_be_bytes: "be_nat (be_bytes k n) = n mod 256 ^ k"
proof (induction k arbitrary: n)
  case 0
  then show ?case by simp
next
  case (Suc k)
  have "n div 256 mod 256 ^ k * 256 + n mod 256 = n mod 256 ^ Suc k"
    by (simp add: mod_mult2_eq)
  with Suc show ?case by (simp add: be_nat_append)
qed

lemma be_nat_bound: "be_nat bs < 256 ^ length bs"
proof (induction bs)
  case Nil
  then show ?case by simp
next
  case (Cons b bs)
  have "unat b < 2 ^ LENGTH(8)"
    by (rule unsigned_less)
  then have "unat b * 256 ^ length bs \<le> 255 * 256 ^ length bs"
    by (intro mult_right_mono) simp_all
  then have "unat b * 256 ^ length bs + be_nat bs < 255 * 256 ^ length bs + 256 ^ length bs"
    using Cons.IH by (rule add_le_less_mono)
  then show ?case by simp
qed

lemma be_bytes_zero: "be_bytes k 0 = replicate k 0"
  by (induction k) (simp_all add: replicate_append_same)

end
