(* ===== verification/External.thy ===== *)
theory External
  imports Prelude
begin

text \<open>
  What the program uses of code that is not in the repository. EVM opcodes are Erigon's
  \<open>vm.OpCode\<close>, a byte; the constants below are the ones the transpiler's switch mentions,
  each with the byte that \<open>docs/transpiler_status.md\<close> lists for it (of the numbered families
  \<open>PUSH\<close>, \<open>DUP\<close> and \<open>SWAP\<close> only the ends are named, the others are the bytes between).
  The functions of \<open>holiman/uint256\<close> and of Erigon's \<open>vm\<close> package are the fields of
  \<open>third_party\<close>, an argument of every definition that calls them; what the code relies on
  is stated by the predicates at the end, and \<open>sample_lib\<close> is an instance that satisfies
  all of them.
\<close>

type_synonym opcode = u8

abbreviation vm_STOP :: opcode where "vm_STOP \<equiv> 0x00"
abbreviation vm_ADD :: opcode where "vm_ADD \<equiv> 0x01"
abbreviation vm_MUL :: opcode where "vm_MUL \<equiv> 0x02"
abbreviation vm_SUB :: opcode where "vm_SUB \<equiv> 0x03"
abbreviation vm_DIV :: opcode where "vm_DIV \<equiv> 0x04"
abbreviation vm_SDIV :: opcode where "vm_SDIV \<equiv> 0x05"
abbreviation vm_MOD :: opcode where "vm_MOD \<equiv> 0x06"
abbreviation vm_SMOD :: opcode where "vm_SMOD \<equiv> 0x07"
abbreviation vm_ADDMOD :: opcode where "vm_ADDMOD \<equiv> 0x08"
abbreviation vm_MULMOD :: opcode where "vm_MULMOD \<equiv> 0x09"
abbreviation vm_EXP :: opcode where "vm_EXP \<equiv> 0x0a"
abbreviation vm_SIGNEXTEND :: opcode where "vm_SIGNEXTEND \<equiv> 0x0b"
abbreviation vm_LT :: opcode where "vm_LT \<equiv> 0x10"
abbreviation vm_GT :: opcode where "vm_GT \<equiv> 0x11"
abbreviation vm_SLT :: opcode where "vm_SLT \<equiv> 0x12"
abbreviation vm_SGT :: opcode where "vm_SGT \<equiv> 0x13"
abbreviation vm_EQ :: opcode where "vm_EQ \<equiv> 0x14"
abbreviation vm_ISZERO :: opcode where "vm_ISZERO \<equiv> 0x15"
abbreviation vm_AND :: opcode where "vm_AND \<equiv> 0x16"
abbreviation vm_OR :: opcode where "vm_OR \<equiv> 0x17"
abbreviation vm_XOR :: opcode where "vm_XOR \<equiv> 0x18"
abbreviation vm_NOT :: opcode where "vm_NOT \<equiv> 0x19"
abbreviation vm_BYTE :: opcode where "vm_BYTE \<equiv> 0x1a"
abbreviation vm_SHL :: opcode where "vm_SHL \<equiv> 0x1b"
abbreviation vm_SHR :: opcode where "vm_SHR \<equiv> 0x1c"
abbreviation vm_SAR :: opcode where "vm_SAR \<equiv> 0x1d"
abbreviation vm_KECCAK256 :: opcode where "vm_KECCAK256 \<equiv> 0x20"
abbreviation vm_ADDRESS :: opcode where "vm_ADDRESS \<equiv> 0x30"
abbreviation vm_BALANCE :: opcode where "vm_BALANCE \<equiv> 0x31"
abbreviation vm_ORIGIN :: opcode where "vm_ORIGIN \<equiv> 0x32"
abbreviation vm_CALLER :: opcode where "vm_CALLER \<equiv> 0x33"
abbreviation vm_CALLVALUE :: opcode where "vm_CALLVALUE \<equiv> 0x34"
abbreviation vm_CALLDATALOAD :: opcode where "vm_CALLDATALOAD \<equiv> 0x35"
abbreviation vm_CALLDATASIZE :: opcode where "vm_CALLDATASIZE \<equiv> 0x36"
abbreviation vm_CALLDATACOPY :: opcode where "vm_CALLDATACOPY \<equiv> 0x37"
abbreviation vm_CODESIZE :: opcode where "vm_CODESIZE \<equiv> 0x38"
abbreviation vm_CODECOPY :: opcode where "vm_CODECOPY \<equiv> 0x39"
abbreviation vm_GASPRICE :: opcode where "vm_GASPRICE \<equiv> 0x3a"
abbreviation vm_EXTCODESIZE :: opcode where "vm_EXTCODESIZE \<equiv> 0x3b"
abbreviation vm_EXTCODECOPY :: opcode where "vm_EXTCODECOPY \<equiv> 0x3c"
abbreviation vm_RETURNDATASIZE :: opcode where "vm_RETURNDATASIZE \<equiv> 0x3d"
abbreviation vm_RETURNDATACOPY :: opcode where "vm_RETURNDATACOPY \<equiv> 0x3e"
abbreviation vm_EXTCODEHASH :: opcode where "vm_EXTCODEHASH \<equiv> 0x3f"
abbreviation vm_BLOCKHASH :: opcode where "vm_BLOCKHASH \<equiv> 0x40"
abbreviation vm_COINBASE :: opcode where "vm_COINBASE \<equiv> 0x41"
abbreviation vm_TIMESTAMP :: opcode where "vm_TIMESTAMP \<equiv> 0x42"
abbreviation vm_NUMBER :: opcode where "vm_NUMBER \<equiv> 0x43"
abbreviation vm_DIFFICULTY :: opcode where "vm_DIFFICULTY \<equiv> 0x44"
abbreviation vm_GASLIMIT :: opcode where "vm_GASLIMIT \<equiv> 0x45"
abbreviation vm_CHAINID :: opcode where "vm_CHAINID \<equiv> 0x46"
abbreviation vm_SELFBALANCE :: opcode where "vm_SELFBALANCE \<equiv> 0x47"
abbreviation vm_BASEFEE :: opcode where "vm_BASEFEE \<equiv> 0x48"
abbreviation vm_BLOBHASH :: opcode where "vm_BLOBHASH \<equiv> 0x49"
abbreviation vm_BLOBBASEFEE :: opcode where "vm_BLOBBASEFEE \<equiv> 0x4a"
abbreviation vm_POP :: opcode where "vm_POP \<equiv> 0x50"
abbreviation vm_MLOAD :: opcode where "vm_MLOAD \<equiv> 0x51"
abbreviation vm_MSTORE :: opcode where "vm_MSTORE \<equiv> 0x52"
abbreviation vm_MSTORE8 :: opcode where "vm_MSTORE8 \<equiv> 0x53"
abbreviation vm_SLOAD :: opcode where "vm_SLOAD \<equiv> 0x54"
abbreviation vm_SSTORE :: opcode where "vm_SSTORE \<equiv> 0x55"
abbreviation vm_JUMP :: opcode where "vm_JUMP \<equiv> 0x56"
abbreviation vm_JUMPI :: opcode where "vm_JUMPI \<equiv> 0x57"
abbreviation vm_PC :: opcode where "vm_PC \<equiv> 0x58"
abbreviation vm_MSIZE :: opcode where "vm_MSIZE \<equiv> 0x59"
abbreviation vm_GAS :: opcode where "vm_GAS \<equiv> 0x5a"
abbreviation vm_JUMPDEST :: opcode where "vm_JUMPDEST \<equiv> 0x5b"
abbreviation vm_TLOAD :: opcode where "vm_TLOAD \<equiv> 0x5c"
abbreviation vm_TSTORE :: opcode where "vm_TSTORE \<equiv> 0x5d"
abbreviation vm_MCOPY :: opcode where "vm_MCOPY \<equiv> 0x5e"
abbreviation vm_PUSH0 :: opcode where "vm_PUSH0 \<equiv> 0x5f"
abbreviation vm_PUSH1 :: opcode where "vm_PUSH1 \<equiv> 0x60"
abbreviation vm_PUSH2 :: opcode where "vm_PUSH2 \<equiv> 0x61"
abbreviation vm_PUSH3 :: opcode where "vm_PUSH3 \<equiv> 0x62"
abbreviation vm_PUSH4 :: opcode where "vm_PUSH4 \<equiv> 0x63"
abbreviation vm_PUSH5 :: opcode where "vm_PUSH5 \<equiv> 0x64"
abbreviation vm_PUSH32 :: opcode where "vm_PUSH32 \<equiv> 0x7f"
abbreviation vm_DUP1 :: opcode where "vm_DUP1 \<equiv> 0x80"
abbreviation vm_DUP16 :: opcode where "vm_DUP16 \<equiv> 0x8f"
abbreviation vm_SWAP1 :: opcode where "vm_SWAP1 \<equiv> 0x90"
abbreviation vm_SWAP16 :: opcode where "vm_SWAP16 \<equiv> 0x9f"
abbreviation vm_LOG0 :: opcode where "vm_LOG0 \<equiv> 0xa0"
abbreviation vm_LOG1 :: opcode where "vm_LOG1 \<equiv> 0xa1"
abbreviation vm_LOG2 :: opcode where "vm_LOG2 \<equiv> 0xa2"
abbreviation vm_LOG3 :: opcode where "vm_LOG3 \<equiv> 0xa3"
abbreviation vm_LOG4 :: opcode where "vm_LOG4 \<equiv> 0xa4"
abbreviation vm_CREATE :: opcode where "vm_CREATE \<equiv> 0xf0"
abbreviation vm_CALL :: opcode where "vm_CALL \<equiv> 0xf1"
abbreviation vm_CALLCODE :: opcode where "vm_CALLCODE \<equiv> 0xf2"
abbreviation vm_RETURN :: opcode where "vm_RETURN \<equiv> 0xf3"
abbreviation vm_DELEGATECALL :: opcode where "vm_DELEGATECALL \<equiv> 0xf4"
abbreviation vm_CREATE2 :: opcode where "vm_CREATE2 \<equiv> 0xf5"
abbreviation vm_STATICCALL :: opcode where "vm_STATICCALL \<equiv> 0xfa"
abbreviation vm_REVERT :: opcode where "vm_REVERT \<equiv> 0xfd"
abbreviation vm_INVALID :: opcode where "vm_INVALID \<equiv> 0xfe"
abbreviation vm_SELFDESTRUCT :: opcode where "vm_SELFDESTRUCT \<equiv> 0xff"

text \<open>\<open>libcommon.Address\<close> is a 20-byte array.\<close>

type_synonym address = bytes

record third_party =
  Hex :: "u256 \<Rightarrow> string"
  SetBytes :: "bytes \<Rightarrow> u256"
  Bytes32 :: "u256 \<Rightarrow> bytes"
  SetFromBig :: "int \<Rightarrow> u256"
  OpString :: "opcode \<Rightarrow> string"
  IsPushWithImmediateArgs :: "opcode \<Rightarrow> bool"

text \<open>
  Documented behaviour the code relies on: different values print differently, byte strings
  are read and written big-endian, and the immediate-push test selects \<open>PUSH1..PUSH32\<close>.
\<close>

definition hex_injective :: "third_party \<Rightarrow> bool" where
  "hex_injective L \<longleftrightarrow> inj (Hex L)"

definition bytes_big_endian :: "third_party \<Rightarrow> bool" where
  "bytes_big_endian L \<longleftrightarrow>
     (\<forall>v. Bytes32 L v = be_bytes 32 (unat v)) \<and>
     (\<forall>bs. length bs \<le> 32 \<longrightarrow> SetBytes L bs = word_of_nat (be_nat bs))"

definition push_test_documented :: "third_party \<Rightarrow> bool" where
  "push_test_documented L \<longleftrightarrow>
     (\<forall>c. IsPushWithImmediateArgs L c \<longleftrightarrow> vm_PUSH1 \<le> c \<and> c \<le> vm_PUSH32)"

definition sample_lib :: third_party where
  "sample_lib =
     \<lparr> Hex = (\<lambda>v. ''0x'' @ hex_pad 64 (unat v)),
       SetBytes = (\<lambda>bs. word_of_nat (be_nat bs)),
       Bytes32 = (\<lambda>v. be_bytes 32 (unat v)),
       SetFromBig = word_of_int,
       OpString = (\<lambda>c. ''opcode 0x'' @ hex_pad 2 (unat c)),
       IsPushWithImmediateArgs = (\<lambda>c. vm_PUSH1 \<le> c \<and> c \<le> vm_PUSH32) \<rparr>"

lemma hex_pad_64_inj: "hex_pad 64 (unat (v :: u256)) = hex_pad 64 (unat w) \<Longrightarrow> v = w"
proof -
  assume "hex_pad 64 (unat v) = hex_pad 64 (unat w)"
  then have "unat v mod 16 ^ 64 = unat w mod 16 ^ 64"
    using read_base_hex_pad[of 64 "unat v"] read_base_hex_pad[of 64 "unat w"] by simp
  moreover have "unat x < 16 ^ 64" for x :: u256
    using unsigned_less[of x] by simp
  ultimately show "v = w"
    by (simp add: word_unat_eq_iff)
qed

lemma sample_lib_hex [simp]: "hex_injective sample_lib"
  by (auto simp: hex_injective_def sample_lib_def inj_def dest: hex_pad_64_inj)

lemma sample_lib_bytes [simp]: "bytes_big_endian sample_lib"
  by (simp add: bytes_big_endian_def sample_lib_def)

lemma sample_lib_push [simp]: "push_test_documented sample_lib"
  by (simp add: push_test_documented_def sample_lib_def)

lemma hex_eq: "hex_injective L \<Longrightarrow> Hex L v = Hex L w \<longleftrightarrow> v = w"
  by (auto simp: hex_injective_def inj_eq)

end
