(* ===== verification/DataSection.thy ===== *)
theory DataSection
  imports External
begin

text \<open>
  The data section and the storage section of \<open>transpiler/transpiler.go\<close> (lines 1252-1325):
  a growing list of 256-bit values with a map from a value's hexadecimal form to its label
  \<open>data_var_i\<close>, and a map from storage keys to labels. The locale \<open>label_pool\<close> is the
  contract the code generator relies on (adding a value gives a label that denotes it, labels
  keep their meaning); the interpretation \<open>pool\<close> discharges it for \<open>Add\<close>.
\<close>

section \<open>Data section\<close>

record data_section =
  ds_values :: "u256 list"
  valueToVar :: "string \<rightharpoonup> string"

record storage_section =
  keyToVar :: "string \<rightharpoonup> string"

definition NewDataSection :: data_section where
  "NewDataSection = \<lparr>ds_values = [], valueToVar = Map.empty\<rparr>"

definition NewStorageSection :: storage_section where
  "NewStorageSection = \<lparr>keyToVar = Map.empty\<rparr>"

text \<open>\<open>fmt.Sprintf("data_var_%d", i)\<close>\<close>

definition data_var :: "nat \<Rightarrow> string" where
  "data_var i = ''data_var_'' @ show_nat i"

definition Add :: "third_party \<Rightarrow> u256 \<Rightarrow> data_section \<Rightarrow> string \<times> data_section" where
  "Add L value ds =
     (let valueHex = Hex L value in
      case valueToVar ds valueHex of
        Some varName \<Rightarrow> (varName, ds)
      | None \<Rightarrow>
          (let values' = ds_values ds @ [value];
               varName = data_var (length values' - 1)
           in (varName, \<lparr>ds_values = values', valueToVar = (valueToVar ds)(valueHex \<mapsto> varName)\<rparr>)))"

definition Iter :: "data_section \<Rightarrow> (string \<times> u256) list" where
  "Iter ds = map (\<lambda>i. (data_var i, ds_values ds ! i)) [0..<length (ds_values ds)]"

definition Store :: "third_party \<Rightarrow> storage_section \<Rightarrow> data_section \<Rightarrow> string \<Rightarrow> u256
    \<Rightarrow> string \<times> storage_section \<times> data_section" where
  "Store L ss ds key value =
     (case keyToVar ss key of
        Some varName \<Rightarrow> (varName, ss, ds)
      | None \<Rightarrow>
          (let (varName, ds') = Add L value ds
           in (varName, ss\<lparr>keyToVar := (keyToVar ss)(key \<mapsto> varName)\<rparr>, ds')))"

definition Load :: "third_party \<Rightarrow> storage_section \<Rightarrow> data_section \<Rightarrow> string
    \<Rightarrow> string \<times> storage_section \<times> data_section" where
  "Load L ss ds key =
     (case keyToVar ss key of
        Some varName \<Rightarrow> (varName, ss, ds)
      | None \<Rightarrow>
          (let (varName, ds') = Add L 0 ds
           in (varName, ss\<lparr>keyToVar := (keyToVar ss)(key \<mapsto> varName)\<rparr>, ds')))"

section \<open>What a label denotes\<close>

text \<open>The value the assembled data section holds at a label.\<close>

definition resolve :: "data_section \<Rightarrow> string \<Rightarrow> u256 option" where
  "resolve ds n = map_of (Iter ds) n"

lemma data_var_inj [simp]: "data_var i = data_var j \<longleftrightarrow> i = j"
  by (simp add: data_var_def show_nat_inj)

lemma set_Iter: "(n, v) \<in> set (Iter ds) \<longleftrightarrow> (\<exists>i<length (ds_values ds). n = data_var i \<and> v = ds_values ds ! i)"
  by (auto simp: Iter_def)

lemma map_fst_Iter: "map fst (Iter ds) = map data_var [0..<length (ds_values ds)]"
  by (simp add: Iter_def comp_def)

lemma map_snd_Iter: "map snd (Iter ds) = ds_values ds"
  by (simp add: Iter_def comp_def map_nth)

lemma distinct_Iter: "distinct (map fst (Iter ds))"
  by (simp add: map_fst_Iter distinct_map inj_on_def)

lemma resolve_iff:
  "resolve ds n = Some v \<longleftrightarrow> (\<exists>i<length (ds_values ds). n = data_var i \<and> v = ds_values ds ! i)"
  using distinct_Iter[of ds] by (simp add: resolve_def map_of_eq_Some_iff set_Iter)

lemma resolve_data_var: "i < length (ds_values ds) \<Longrightarrow> resolve ds (data_var i) = Some (ds_values ds ! i)"
  by (auto simp: resolve_iff)

text \<open>
  The representation invariant: the map holds exactly the hexadecimal forms of the values,
  each with the label of its position, and no two values print alike.
\<close>

definition ds_inv :: "third_party \<Rightarrow> data_section \<Rightarrow> bool" where
  "ds_inv L ds \<longleftrightarrow>
     distinct (map (Hex L) (ds_values ds)) \<and>
     (\<forall>k n. valueToVar ds k = Some n \<longleftrightarrow>
        (\<exists>i<length (ds_values ds). k = Hex L (ds_values ds ! i) \<and> n = data_var i))"

lemma ds_invD:
  assumes "ds_inv L ds"
  shows "valueToVar ds k = Some n \<longleftrightarrow>
     (\<exists>i<length (ds_values ds). k = Hex L (ds_values ds ! i) \<and> n = data_var i)"
  using assms by (simp add: ds_inv_def)

lemma ds_inv_new: "ds_inv L NewDataSection"
  by (simp add: ds_inv_def NewDataSection_def)

lemma ds_inv_None:
  assumes "ds_inv L ds" and "valueToVar ds k = None"
  shows "k \<notin> Hex L ` set (ds_values ds)"
proof
  assume "k \<in> Hex L ` set (ds_values ds)"
  then obtain i where "i < length (ds_values ds)" "k = Hex L (ds_values ds ! i)"
    by (auto simp: in_set_conv_nth)
  then have "valueToVar ds k = Some (data_var i)"
    by (auto simp: ds_invD[OF assms(1)])
  with assms(2) show False by simp
qed

lemma Add_known: "valueToVar ds (Hex L v) = Some n \<Longrightarrow> Add L v ds = (n, ds)"
  by (simp add: Add_def)

lemma Add_new:
  "valueToVar ds (Hex L v) = None \<Longrightarrow>
   Add L v ds = (data_var (length (ds_values ds)),
     \<lparr>ds_values = ds_values ds @ [v],
      valueToVar = (valueToVar ds)(Hex L v \<mapsto> data_var (length (ds_values ds)))\<rparr>)"
  by (simp add: Add_def Let_def)

lemma values_Add: "\<exists>ws. ds_values (snd (Add L v ds)) = ds_values ds @ ws"
  by (cases "valueToVar ds (Hex L v)") (simp_all add: Add_known Add_new)

lemma ds_inv_Add:
  assumes inv: "ds_inv L ds"
  shows "ds_inv L (snd (Add L v ds))"
proof (cases "valueToVar ds (Hex L v)")
  case (Some n)
  with inv show ?thesis by (simp add: Add_known)
next
  case None
  let ?ds = "snd (Add L v ds)"
  have new: "Hex L v \<notin> Hex L ` set (ds_values ds)"
    using ds_inv_None[OF inv None] .
  have "valueToVar ?ds k = Some n \<longleftrightarrow>
      (\<exists>i<length (ds_values ds @ [v]). k = Hex L ((ds_values ds @ [v]) ! i) \<and> n = data_var i)" for k n
  proof (cases "k = Hex L v")
    case True
    with new have "\<not> (\<exists>i<length (ds_values ds). k = Hex L (ds_values ds ! i) \<and> n = data_var i)"
      by (metis image_eqI nth_mem)
    with True show ?thesis
      unfolding ex_less_snoc[where P = "\<lambda>i w. k = Hex L w \<and> n = data_var i"]
      by (auto simp: Add_new[OF None])
  next
    case False
    then show ?thesis
      unfolding ex_less_snoc[where P = "\<lambda>i w. k = Hex L w \<and> n = data_var i"]
      using ds_invD[OF inv, of k n] by (simp add: Add_new[OF None])
  qed
  then have "valueToVar ?ds k = Some n \<longleftrightarrow>
      (\<exists>i<length (ds_values ?ds). k = Hex L (ds_values ?ds ! i) \<and> n = data_var i)" for k n
    by (simp add: Add_new[OF None])
  moreover have "distinct (map (Hex L) (ds_values ?ds))"
    using inv new by (simp add: ds_inv_def Add_new[OF None])
  ultimately show ?thesis by (simp add: ds_inv_def)
qed

lemma resolve_mono:
  assumes "ds_values ds' = ds_values ds @ ws" and "resolve ds n = Some v"
  shows "resolve ds' n = Some v"
  using assms by (fastforce simp: resolve_iff nth_append)

lemma resolve_Add:
  assumes "hex_injective L" and inv: "ds_inv L ds"
  shows "resolve (snd (Add L v ds)) (fst (Add L v ds)) = Some v"
proof (cases "valueToVar ds (Hex L v)")
  case None
  then show ?thesis by (simp add: Add_new resolve_iff)
next
  case (Some n)
  then obtain i where "i < length (ds_values ds)" "Hex L v = Hex L (ds_values ds ! i)" "n = data_var i"
    using ds_invD[OF inv] by blast
  with assms(1) Some show ?thesis
    by (auto simp: Add_known hex_eq resolve_iff)
qed

lemma Add_idem:
  assumes "hex_injective L" and inv: "ds_inv L ds" and "resolve ds n = Some v"
  shows "Add L v ds = (n, ds)"
proof -
  have "valueToVar ds (Hex L v) = Some n"
    using assms by (auto simp: ds_invD[OF inv] resolve_iff)
  then show ?thesis by (rule Add_known)
qed

section \<open>The interface the code generator uses\<close>

locale label_pool =
  fixes add :: "'v \<Rightarrow> 'd \<Rightarrow> 'l \<times> 'd"
    and denote :: "'d \<Rightarrow> 'l \<Rightarrow> 'v option"
    and ok :: "'d \<Rightarrow> bool"
  assumes ok_add: "ok d \<Longrightarrow> ok (snd (add v d))"
    and denote_add: "ok d \<Longrightarrow> denote (snd (add v d)) (fst (add v d)) = Some v"
    and denote_keep: "ok d \<Longrightarrow> denote d l = Some w \<Longrightarrow> denote (snd (add v d)) l = Some w"
    and add_known: "ok d \<Longrightarrow> denote d l = Some v \<Longrightarrow> add v d = (l, d)"
begin

text \<open>Adding a whole list of values, and the labels handed out on the way.\<close>

fun adds :: "'v list \<Rightarrow> 'd \<Rightarrow> 'l list \<times> 'd" where
  "adds [] d = ([], d)"
| "adds (v # vs) d = (let (l, d1) = add v d; (ls, d2) = adds vs d1 in (l # ls, d2))"

lemma adds_Cons:
  "adds (v # vs) d = (fst (add v d) # fst (adds vs (snd (add v d))), snd (adds vs (snd (add v d))))"
  by (simp add: split_beta)

lemma ok_adds: "ok d \<Longrightarrow> ok (snd (adds vs d))"
  by (induction vs arbitrary: d) (simp_all add: ok_add split_beta)

lemma adds_keep: "ok d \<Longrightarrow> denote d l = Some w \<Longrightarrow> denote (snd (adds vs d)) l = Some w"
  by (induction vs arbitrary: d) (simp_all add: ok_add denote_keep split_beta)

lemma adds_denote:
  "ok d \<Longrightarrow> map (denote (snd (adds vs d))) (fst (adds vs d)) = map Some vs"
proof (induction vs arbitrary: d)
  case Nil
  show ?case by simp
next
  case (Cons v vs)
  have "ok (snd (add v d))" by (rule ok_add[OF Cons.prems])
  with Cons.IH[OF this] show ?case
    by (simp add: adds_Cons adds_keep denote_add[OF Cons.prems] del: adds.simps)
qed

lemma label_agrees:
  assumes "ok d" and "denote d l = Some v"
  shows "fst (add v d) = l \<and> snd (add v d) = d"
  using add_known[OF assms] by simp

lemma add_twice: "ok d \<Longrightarrow> add v (snd (add v d)) = add v d"
  using add_known[OF ok_add denote_add] by (metis prod.collapse)

end

definition pool_ok :: "third_party \<Rightarrow> data_section \<Rightarrow> bool" where
  "pool_ok L ds \<longleftrightarrow> hex_injective L \<and> ds_inv L ds"

interpretation pool: label_pool "Add L" resolve "pool_ok L" for L
proof
  show "pool_ok L d \<Longrightarrow> pool_ok L (snd (Add L v d))" for d v
    by (simp add: pool_ok_def ds_inv_Add)
  show "pool_ok L d \<Longrightarrow> resolve (snd (Add L v d)) (fst (Add L v d)) = Some v" for d v
    by (simp add: pool_ok_def resolve_Add)
  show "pool_ok L d \<Longrightarrow> resolve d l = Some w \<Longrightarrow> resolve (snd (Add L v d)) l = Some w" for d l w v
    using values_Add[of L v d] resolve_mono by blast
  show "pool_ok L d \<Longrightarrow> resolve d l = Some v \<Longrightarrow> Add L v d = (l, d)" for d l v
    by (simp add: pool_ok_def Add_idem)
qed

lemmas pool_facts [pool_simps] =
  pool.ok_add pool.denote_add pool.denote_keep ds_inv_Add

end
