(* ===== verification/Tracer.thy ===== *)
theory Tracer
  imports External
begin

text \<open>
  The state tracer of \<open>tracer/tracer.go\<close>: the records it fills (lines 23-43), the tracer's
  state (lines 83-92) and its hooks (lines 107-177). Erigon calls the hooks in the order of
  execution; a run of the tracer is the fold of \<open>hook_step\<close> over that sequence of calls. Go
  pointers to 256-bit integers are options. The jump table, an Erigon object the tracer
  stores and never reads, is a flag that says whether it was set.
\<close>

section \<open>Recorded data\<close>

record evm_execution_state =
  CallValue :: "u256 option"
  CallData :: bytes
  CodeData :: bytes
  Gas :: "u256 option"
  Address :: address
  Caller :: address
  Origin :: address
  Timestamp :: "u256 option"
  ChainId :: "u256 option"
  Coinbase :: address
  BlockNumber :: "u256 option"

record evm_instruction_metadata =
  Opcode :: opcode
  Arguments :: bytes
  StackSnapshot :: "u256 list"
  Result :: "u256 option"
  IsStackRestore :: bool

section \<open>The tracer\<close>

record state_tracer =
  jumpTable :: bool
  evmInstructions :: "evm_instruction_metadata list"
  executionState :: "evm_execution_state option"
  blockTime :: u64
  chainId :: "u256 option"
  coinbase :: address
  origin :: address
  blockNumber :: "u256 option"

text \<open>What the hooks read of Erigon's \<open>tracing.VMContext\<close> and \<open>tracing.OpContext\<close>.\<close>

record vm_context =
  ctxTime :: u64
  ctxChainID :: int
  ctxCoinbase :: address
  ctxBlockNumber :: u64

record op_context =
  scopeStackData :: "u256 list"
  scopeCode :: bytes
  scopeCallValue :: "u256 option"
  scopeCallInput :: bytes
  scopeAddress :: address
  scopeCaller :: address

definition zero_address :: address where
  "zero_address = replicate 20 0"

definition NewStateTracer :: state_tracer where
  "NewStateTracer =
     \<lparr> jumpTable = False, evmInstructions = [], executionState = None, blockTime = 0,
       chainId = None, coinbase = zero_address, origin = zero_address, blockNumber = None \<rparr>"

definition setJumpTable :: "state_tracer \<Rightarrow> state_tracer" where
  "setJumpTable t = t\<lparr>jumpTable := True\<rparr>"

text \<open>\<open>uint256.NewInt\<close> of a 64-bit value.\<close>

definition NewInt :: "u64 \<Rightarrow> u256" where
  "NewInt n = ucast n"

definition CaptureTxStart :: "third_party \<Rightarrow> vm_context \<Rightarrow> address \<Rightarrow> state_tracer \<Rightarrow> state_tracer" where
  "CaptureTxStart L ctx from_addr t =
     t\<lparr> blockTime := ctxTime ctx,
        chainId := Some (SetFromBig L (ctxChainID ctx)),
        coinbase := ctxCoinbase ctx,
        origin := from_addr,
        blockNumber := Some (NewInt (ctxBlockNumber ctx)) \<rparr>"

definition CaptureExit :: "nat \<Rightarrow> string option \<Rightarrow> bool \<Rightarrow> state_tracer \<Rightarrow> state_tracer" where
  "CaptureExit depth err reverted t =
     (if depth > 0 then
        let result = (if err = None \<and> \<not> reverted then NewInt 1 else NewInt 0) in
        t\<lparr> evmInstructions := evmInstructions t @
             [\<lparr> Opcode = vm_STOP, Arguments = [], StackSnapshot = [],
                Result = Some result, IsStackRestore = True \<rparr>] \<rparr>
      else t)"

text \<open>
  The immediate bytes of a push: \<open>size\<close> bytes from the code after the program counter, zero
  beyond its end. All index arithmetic is on 64-bit words, as in the code.
\<close>

definition push_arguments :: "third_party \<Rightarrow> u64 \<Rightarrow> u8 \<Rightarrow> bytes \<Rightarrow> bytes" where
  "push_arguments L pc op code =
     (if IsPushWithImmediateArgs L op then
        let size = unat (ucast op - ucast (vm_PUSH1 - 1) :: u64) in
        map (\<lambda>i. let j = pc + 1 + word_of_nat i in
               if unat j < length code then code ! unat j else 0) [0..<size]
      else [])"

definition CaptureState :: "third_party \<Rightarrow> u64 \<Rightarrow> u8 \<Rightarrow> u64 \<Rightarrow> op_context \<Rightarrow> state_tracer \<Rightarrow> state_tracer" where
  "CaptureState L pc op gas scope t =
     t\<lparr> executionState := Some
          \<lparr> CallValue = scopeCallValue scope, CallData = scopeCallInput scope,
            CodeData = scopeCode scope, Gas = Some (NewInt gas),
            Address = scopeAddress scope, Caller = scopeCaller scope, Origin = origin t,
            Timestamp = Some (NewInt (blockTime t)), ChainId = chainId t,
            Coinbase = coinbase t, BlockNumber = blockNumber t \<rparr>,
        evmInstructions := evmInstructions t @
          [\<lparr> Opcode = op, Arguments = push_arguments L pc op (scopeCode scope),
             StackSnapshot = scopeStackData scope, Result = None, IsStackRestore = False \<rparr>] \<rparr>"

section \<open>Hooks\<close>

text \<open>One call of a hook registered by \<open>Hooks()\<close>; three of the six do nothing.\<close>

datatype hook_call =
    OnTxStart vm_context address
  | OnTxEnd
  | OnEnter nat
  | OnExit nat "string option" bool
  | OnOpcode u64 u8 u64 op_context
  | OnFault u64 u8

fun hook_step :: "third_party \<Rightarrow> state_tracer \<Rightarrow> hook_call \<Rightarrow> state_tracer" where
  "hook_step L t (OnTxStart ctx from_addr) = CaptureTxStart L ctx from_addr t"
| "hook_step L t OnTxEnd = t"
| "hook_step L t (OnEnter depth) = t"
| "hook_step L t (OnExit depth err reverted) = CaptureExit depth err reverted t"
| "hook_step L t (OnOpcode pc op gas scope) = CaptureState L pc op gas scope t"
| "hook_step L t (OnFault pc op) = t"

definition trace_run :: "third_party \<Rightarrow> state_tracer \<Rightarrow> hook_call list \<Rightarrow> state_tracer" where
  "trace_run L = foldl (hook_step L)"

lemma trace_run_simps [simp]:
  "trace_run L t [] = t"
  "trace_run L t (e # es) = trace_run L (hook_step L t e) es"
  "trace_run L t (es @ es') = trace_run L (trace_run L t es) es'"
  by (simp_all add: trace_run_def)

lemmas capture_defs = CaptureTxStart_def CaptureExit_def CaptureState_def Let_def

text \<open>The instruction list is append-only; what a hook appends does not depend on it.\<close>

fun recorded :: "third_party \<Rightarrow> hook_call \<Rightarrow> evm_instruction_metadata list" where
  "recorded L (OnExit depth err reverted) =
     (if depth > 0
      then [\<lparr> Opcode = vm_STOP, Arguments = [], StackSnapshot = [],
              Result = Some (if err = None \<and> \<not> reverted then 1 else 0), IsStackRestore = True \<rparr>]
      else [])"
| "recorded L (OnOpcode pc op gas scope) =
     [\<lparr> Opcode = op, Arguments = push_arguments L pc op (scopeCode scope),
        StackSnapshot = scopeStackData scope, Result = None, IsStackRestore = False \<rparr>]"
| "recorded L _ = []"

lemma hook_step_recorded: "evmInstructions (hook_step L t e) = evmInstructions t @ recorded L e"
  by (cases e) (simp_all add: capture_defs NewInt_def)

lemma trace_records:
  "evmInstructions (trace_run L t es) = evmInstructions t @ concat (map (recorded L) es)"
  by (induction es arbitrary: t) (simp_all add: hook_step_recorded)

text \<open>
  A traced transaction records one entry per executed opcode and one per return from a
  nested frame, in the order of the calls, whatever the tracer held before.
\<close>

theorem trace_run_records:
  "evmInstructions (trace_run L t es) = evmInstructions t @ concat (map (recorded L) es)"
  by (rule trace_records)

section \<open>Which frame the execution state describes\<close>

fun sets_state :: "hook_call \<Rightarrow> bool" where
  "sets_state (OnOpcode pc op gas scope) = True"
| "sets_state _ = False"

lemma executionState_other: "\<not> sets_state e \<Longrightarrow> executionState (hook_step L t e) = executionState t"
  by (cases e) (simp_all add: capture_defs)

lemma executionState_tail:
  "list_all (\<lambda>e. \<not> sets_state e) es \<Longrightarrow>
   executionState (trace_run L t es) = executionState t"
  by (induction es arbitrary: t) (simp_all add: executionState_other)

lemma executionState_opcode:
  "executionState (hook_step L t (OnOpcode pc op gas scope)) = Some s \<Longrightarrow>
   Gas s = Some (NewInt gas) \<and> CallData s = scopeCallInput scope \<and>
   Address s = scopeAddress scope \<and> Caller s = scopeCaller scope \<and>
   CallValue s = scopeCallValue scope \<and> CodeData s = scopeCode scope"
  by (auto simp: CaptureState_def)

lemma push_arguments_length:
  assumes "push_test_documented L"
  shows "length (push_arguments L pc op code) =
     (if vm_PUSH1 \<le> op \<and> op \<le> vm_PUSH32 then unat op - 0x5f else 0)"
proof (cases "vm_PUSH1 \<le> op \<and> op \<le> vm_PUSH32")
  case True
  then have "(ucast (0x5f :: u8) :: u64) \<le> ucast op"
    by (simp add: word_le_nat_alt unat_ucast_up)
  then have "unat (ucast op - ucast (0x5f :: u8) :: u64) = unat op - 0x5f"
    by (simp add: unat_sub unat_ucast_up)
  with True assms show ?thesis
    by (simp add: push_arguments_def push_test_documented_def Let_def)
next
  case False
  with assms show ?thesis
    by (auto simp: push_arguments_def push_test_documented_def)
qed

end
