(* ===== verification/Codegen.thy ===== *)
theory Codegen
  imports External
begin

text \<open>
  The code generators of \<open>transpiler/transpiler.go\<close> that depend on no state (lines 742-945 and
  1041-1107): each gives the list of assembler instructions, mnemonic and operands as strings,
  that the Go method returns. \<open>prover.Instruction\<close> is the record \<open>instruction\<close>.
\<close>

record instruction =
  Name :: string
  Operands :: "string list"

abbreviation instr :: "string \<Rightarrow> string list \<Rightarrow> instruction" where
  "instr n ops \<equiv> \<lparr>Name = n, Operands = ops\<rparr>"

definition EBREAK_instr :: instruction where
  "EBREAK_instr = instr ''EBREAK'' []"

text \<open>\<open>prover.DataVariable\<close> and \<open>prover.AssemblyFile\<close> (prover/compiler.go, lines 24-32).\<close>

record data_variable =
  VarName :: string
  VarValue :: u256

record assembly_file =
  Instructions :: "instruction list"
  DataSec :: "data_variable list"

text \<open>\<open>fmt.Sprintf("%d(r)", k)\<close>\<close>

definition at_offset :: "u64 \<Rightarrow> string \<Rightarrow> string" where
  "at_offset k r = show_nat (unat k) @ ''('' @ r @ '')''"

section \<open>Stack operations\<close>

definition pushOpcode :: "32 word \<Rightarrow> instruction list" where
  "pushOpcode value =
     [instr ''addi'' [''sp'', ''sp'', ''-32''],
      instr ''li'' [''t0'', show_int (sint value)],
      instr ''sw'' [''t0'', ''0(sp)'']]"

definition DupOpcode :: "u64 \<Rightarrow> instruction list" where
  "DupOpcode index =
     (let spIndex = 32 * (index - 1) in
      [instr ''lw'' [''t0'', at_offset spIndex ''sp''],
       instr ''addi'' [''sp'', ''sp'', ''-32''],
       instr ''sw'' [''t0'', ''0(sp)'']])"

definition SwapOpcode :: "u64 \<Rightarrow> instruction list" where
  "SwapOpcode index =
     (let spIndex = 32 * index in
      [instr ''lw'' [''t0'', ''0(sp)''],
       instr ''lw'' [''t1'', at_offset spIndex ''sp''],
       instr ''sw'' [''t1'', ''0(sp)''],
       instr ''sw'' [''t0'', at_offset spIndex ''sp'']])"

definition popStack :: "instruction list" where
  "popStack = [instr ''addi'' [''sp'', ''sp'', ''32'']]"

section \<open>Calls into the arithmetic library\<close>

definition add256Call :: "instruction list" where
  "add256Call =
     [instr ''addi'' [''a0'', ''sp'', ''0''], instr ''addi'' [''a1'', ''sp'', ''32''],
      instr ''call'' [''add256_stack_scratch'']]"

definition mul256Call :: "instruction list" where
  "mul256Call =
     [instr ''addi'' [''a0'', ''sp'', ''0''], instr ''addi'' [''a1'', ''sp'', ''32''],
      instr ''call'' [''mul256_stack_scratch'']]"

definition sub256Call :: "instruction list" where
  "sub256Call =
     [instr ''addi'' [''a0'', ''sp'', ''0''], instr ''addi'' [''a1'', ''sp'', ''32''],
      instr ''call'' [''sub256_stack_scratch'']]"

definition div256Call :: "instruction list" where
  "div256Call =
     [instr ''addi'' [''a0'', ''sp'', ''0''], instr ''addi'' [''a1'', ''sp'', ''32''],
      instr ''call'' [''div256_stack_scratch'']]"

definition and256Call :: "instruction list" where
  "and256Call =
     [instr ''addi'' [''a0'', ''sp'', ''0''], instr ''addi'' [''a1'', ''sp'', ''32''],
      instr ''call'' [''and256_stack_scratch'']]"

definition or256Call :: "instruction list" where
  "or256Call =
     [instr ''addi'' [''a0'', ''sp'', ''0''], instr ''addi'' [''a1'', ''sp'', ''32''],
      instr ''call'' [''or256_stack_scratch'']]"

definition xor256Call :: "instruction list" where
  "xor256Call =
     [instr ''addi'' [''a0'', ''sp'', ''0''], instr ''addi'' [''a1'', ''sp'', ''32''],
      instr ''call'' [''xor256_stack_scratch'']]"

definition not256Call :: "instruction list" where
  "not256Call =
     [instr ''addi'' [''a0'', ''sp'', ''0''], instr ''call'' [''not256_stack_scratch'']]"

definition shr256Call :: "instruction list" where
  "shr256Call =
     [instr ''addi'' [''a0'', ''sp'', ''32''], instr ''addi'' [''a1'', ''sp'', ''0''],
      instr ''call'' [''shr256_stack_scratch'']]"

definition shl256Call :: "instruction list" where
  "shl256Call =
     [instr ''addi'' [''a0'', ''sp'', ''32''], instr ''addi'' [''a1'', ''sp'', ''0''],
      instr ''call'' [''shl256_stack_scratch'']]"

definition slt256Call :: "instruction list" where
  "slt256Call =
     [instr ''addi'' [''a0'', ''sp'', ''0''], instr ''addi'' [''a1'', ''sp'', ''32''],
      instr ''call'' [''slt256_stack_scratch'']]"

definition eq256Call :: "instruction list" where
  "eq256Call =
     [instr ''addi'' [''a0'', ''sp'', ''0''], instr ''addi'' [''a1'', ''sp'', ''32''],
      instr ''call'' [''eq256_stack_scratch'']]"

definition gt256Call :: "instruction list" where
  "gt256Call =
     [instr ''addi'' [''a0'', ''sp'', ''0''], instr ''addi'' [''a1'', ''sp'', ''32''],
      instr ''call'' [''gt256_stack_scratch'']]"

definition lt256Call :: "instruction list" where
  "lt256Call =
     [instr ''addi'' [''a0'', ''sp'', ''0''], instr ''addi'' [''a1'', ''sp'', ''32''],
      instr ''call'' [''lt256_stack_scratch'']]"

definition mstore256Call :: "instruction list" where
  "mstore256Call =
     [instr ''addi'' [''a0'', ''sp'', ''0''], instr ''addi'' [''a1'', ''sp'', ''32''],
      instr ''call'' [''mstore256_stack_scratch'']]"

definition mload256Call :: "instruction list" where
  "mload256Call =
     [instr ''addi'' [''a0'', ''sp'', ''0''], instr ''call'' [''mload256_stack_scratch'']]"

section \<open>Memory copy, call frames, data section loads\<close>

definition mcopyCall :: "u64 \<Rightarrow> u64 \<Rightarrow> u64 \<Rightarrow> instruction list" where
  "mcopyCall destOffset srcOffset length_arg =
     (if length_arg = 0 then []
      else concat (map (\<lambda>i.
        [instr ''li'' [''t0'', show_nat (unat (srcOffset + word_of_nat i))],
         instr ''lb'' [''t1'', ''0(t0)''],
         instr ''li'' [''t2'', show_nat (unat (destOffset + word_of_nat i))],
         instr ''sb'' [''t1'', ''0(t2)'']]) [0..<unat length_arg]))"

definition saveStackContext :: "instruction list" where
  "saveStackContext =
     [instr ''addi'' [''s1'', ''s1'', ''-4''], instr ''sw'' [''sp'', ''0(s1)''],
      instr ''addi'' [''s1'', ''s1'', ''-4''], instr ''sw'' [''s3'', ''0(s1)'']]"

definition createNewStackFrame :: "instruction list" where
  "createNewStackFrame =
     [instr ''addi'' [''sp'', ''sp'', ''-1024''], instr ''addi'' [''s3'', ''sp'', ''0'']]"

definition restoreStackContext :: "instruction list" where
  "restoreStackContext =
     [instr ''lw'' [''s3'', ''0(s1)''], instr ''addi'' [''s1'', ''s1'', ''4''],
      instr ''lw'' [''sp'', ''0(s1)''], instr ''addi'' [''s1'', ''s1'', ''4'']]"

definition loadFromDataSection :: "string \<Rightarrow> instruction list" where
  "loadFromDataSection varName =
     [instr ''addi'' [''sp'', ''sp'', ''-32''], instr ''la'' [''t0'', varName]] @
     concat (map (\<lambda>i.
       [instr ''lw'' [''t1'', at_offset (word_of_nat (i * 4)) ''t0''],
        instr ''sw'' [''t1'', at_offset (word_of_nat (i * 4)) ''sp'']]) [0..<8])"

lemmas call_defs [emit_simps] =
  add256Call_def mul256Call_def sub256Call_def div256Call_def and256Call_def or256Call_def
  xor256Call_def not256Call_def shr256Call_def shl256Call_def slt256Call_def eq256Call_def
  gt256Call_def lt256Call_def mstore256Call_def mload256Call_def

lemmas gen_defs [emit_simps] =
  pushOpcode_def DupOpcode_def SwapOpcode_def popStack_def saveStackContext_def
  createNewStackFrame_def restoreStackContext_def loadFromDataSection_def EBREAK_instr_def

end
