(* ===== verification/Transpiler.thy ===== *)
theory Transpiler
  imports DataSection Tracer Codegen
begin

text \<open>
  The transpiler of \<open>transpiler/transpiler.go\<close>: its configuration and state (lines 17-83), the
  translation of one traced EVM instruction (\<open>AddInstructionWithResult\<close>, lines 116-725) and of
  a whole trace (\<open>ProcessExecution\<close>, lines 85-110), transaction boundaries and the assembled
  result (lines 1109-1250). The switch over the opcode is split into the functions
  \<open>*_cases\<close>, one per run of consecutive cases of the source and in its order; each gives
  \<open>None\<close> for an opcode that is not among its cases. The errors the Go code returns arise
  before it has changed the state, so an \<open>Inl\<close> result carries none.
\<close>

unbundle bit_operations_syntax

section \<open>Configuration and state\<close>

record transpiler_config =
  DisableCallContextSeparation :: bool
  DisableHostOptimizedOpcodes :: bool
  DisableMCopyOperations :: bool
  DisableDebugMappings :: bool

record evm_to_riscv_mapping =
  EvmOpcode :: string
  RiscVInstructions :: "instruction list"
  DataVariables :: "data_variable list"
  CallDepth :: int

text \<open>\<open>outputWriter\<close> is stored by the streaming constructor and never called: a flag.\<close>

record transpiler =
  instructions :: "instruction list"
  dataSection :: data_section
  storageSection :: storage_section
  enableSnapshots :: bool
  debugMappings :: "evm_to_riscv_mapping list"
  currentDepth :: int
  config :: transpiler_config
  outputWriter :: bool

definition NewTranspilerWithConfig :: "transpiler_config \<Rightarrow> transpiler" where
  "NewTranspilerWithConfig cfg =
     \<lparr> instructions = [], dataSection = NewDataSection, storageSection = NewStorageSection,
       enableSnapshots = False, debugMappings = [], currentDepth = 0, config = cfg,
       outputWriter = False \<rparr>"

definition NewStreamingTranspilerWithConfig :: "transpiler_config \<Rightarrow> transpiler" where
  "NewStreamingTranspilerWithConfig cfg =
     \<lparr> instructions = [], dataSection = NewDataSection, storageSection = NewStorageSection,
       enableSnapshots = False, debugMappings = [], currentDepth = 0, config = cfg,
       outputWriter = True \<rparr>"

definition NewTestTranspiler :: transpiler where
  "NewTestTranspiler = NewTranspilerWithConfig
     \<lparr> DisableCallContextSeparation = False, DisableHostOptimizedOpcodes = False,
       DisableMCopyOperations = False, DisableDebugMappings = False \<rparr>"

definition NewTranspiler :: transpiler where
  "NewTranspiler = NewTranspilerWithConfig
     \<lparr> DisableCallContextSeparation = True, DisableHostOptimizedOpcodes = True,
       DisableMCopyOperations = True, DisableDebugMappings = False \<rparr>"

definition EnableSnapshots :: "transpiler \<Rightarrow> transpiler" where
  "EnableSnapshots tr = tr\<lparr>enableSnapshots := True\<rparr>"

section \<open>Emitting code\<close>

text \<open>\<open>tr.instructions = append(tr.instructions, ...)\<close>\<close>

definition emit :: "instruction list \<Rightarrow> transpiler \<Rightarrow> transpiler" where
  "emit is tr = tr\<lparr>instructions := instructions tr @ is\<rparr>"

text \<open>\<open>n\<close> consecutive appends of \<open>popStack()\<close>\<close>

definition pops :: "nat \<Rightarrow> instruction list" where
  "pops n = concat (replicate n popStack)"

text \<open>\<open>varName := tr.dataSection.Add(v)\<close> followed by the append of \<open>loadFromDataSection(varName)\<close>\<close>

definition load_value :: "third_party \<Rightarrow> u256 \<Rightarrow> transpiler \<Rightarrow> transpiler" where
  "load_value L v tr =
     (let (varName, ds) = Add L v (dataSection tr)
      in emit (loadFromDataSection varName) (tr\<lparr>dataSection := ds\<rparr>))"

definition getDataSectionSnapshot :: "transpiler \<Rightarrow> data_variable list" where
  "getDataSectionSnapshot tr = map (\<lambda>(n, v). \<lparr>VarName = n, VarValue = v\<rparr>) (Iter (dataSection tr))"

definition storeDebugInfo :: "third_party \<Rightarrow> nat \<Rightarrow> opcode \<Rightarrow> transpiler \<Rightarrow> transpiler" where
  "storeDebugInfo L startInstructionCount op tr =
     (if \<not> DisableDebugMappings (config tr) then
        tr\<lparr>debugMappings := debugMappings tr @
             [\<lparr> EvmOpcode = OpString L op,
                RiscVInstructions = drop startInstructionCount (instructions tr),
                DataVariables = getDataSectionSnapshot tr,
                CallDepth = currentDepth tr \<rparr>]\<rparr>
      else tr)"

definition hostOptimizedOpcode :: "transpiler \<Rightarrow> instruction list \<Rightarrow> nat \<Rightarrow> instruction list" where
  "hostOptimizedOpcode tr original numStackArgs =
     (if DisableHostOptimizedOpcodes (config tr)
      then pops numStackArgs @ pushOpcode 0
      else original)"

definition resultFromTraceCall :: "third_party \<Rightarrow> u256 list option \<Rightarrow> nat \<Rightarrow> string \<Rightarrow> transpiler
    \<Rightarrow> (instruction list \<times> transpiler) result" where
  "resultFromTraceCall L resultStack numArgs opName tr =
     (case resultStack of
        None \<Rightarrow> Inl (Err (opName @ '' requires result stack but none provided''))
      | Some a \<Rightarrow>
          if length a = 0 then Inl (Err (opName @ '' requires result stack but it's empty''))
          else
            (let result = a ! (length a - 1);
                 (varName, ds) = Add L result (dataSection tr)
             in Inr (pops numArgs @ loadFromDataSection varName, tr\<lparr>dataSection := ds\<rparr>)))"

text \<open>The body shared by the cases that replay a result of the trace.\<close>

definition traced :: "third_party \<Rightarrow> u256 list option \<Rightarrow> nat \<Rightarrow> string \<Rightarrow> transpiler
    \<Rightarrow> transpiler result" where
  "traced L resultStack numArgs opName tr =
     bindR (resultFromTraceCall L resultStack numArgs opName tr) (\<lambda>(is, tr'). Inr (emit is tr'))"

definition host :: "transpiler \<Rightarrow> instruction list \<Rightarrow> nat \<Rightarrow> transpiler result" where
  "host tr original numStackArgs = Inr (emit (hostOptimizedOpcode tr original numStackArgs) tr)"

section \<open>The cases of the switch\<close>

text \<open>Lines 153-240: arithmetic, comparison and bit operations.\<close>

definition arith_cases :: "third_party \<Rightarrow> opcode \<Rightarrow> u256 list option \<Rightarrow> transpiler
    \<Rightarrow> transpiler result option" where
  "arith_cases L op rs tr =
    (if op = vm_ADD then Some (host tr add256Call 2)
     else if op = vm_MUL then Some (host tr mul256Call 2)
     else if op = vm_SUB then Some (host tr sub256Call 2)
     else if op = vm_DIV then Some (host tr div256Call 2)
     else if op = vm_SDIV then Some (traced L rs 2 ''SDIV'' tr)
     else if op = vm_MOD then Some (traced L rs 2 ''MOD'' tr)
     else if op = vm_SMOD then Some (traced L rs 2 ''SMOD'' tr)
     else if op = vm_ADDMOD then Some (traced L rs 3 ''ADDMOD'' tr)
     else if op = vm_MULMOD then Some (traced L rs 3 ''MULMOD'' tr)
     else if op = vm_EXP then Some (traced L rs 2 ''EXP'' tr)
     else if op = vm_SIGNEXTEND then Some (traced L rs 2 ''SIGNEXTEND'' tr)
     else if op = vm_AND then Some (host tr and256Call 2)
     else if op = vm_OR then Some (host tr or256Call 2)
     else if op = vm_XOR then Some (host tr xor256Call 2)
     else if op = vm_EQ then Some (host tr eq256Call 2)
     else if op = vm_SLT then Some (host tr slt256Call 2)
     else if op = vm_SHR then Some (host tr shr256Call 2)
     else if op = vm_SHL then Some (host tr shl256Call 2)
     else if op = vm_GT then Some (host tr gt256Call 2)
     else if op = vm_SGT then Some (traced L rs 2 ''SGT'' tr)
     else if op = vm_LT then Some (host tr lt256Call 2)
     else if op = vm_NOT then Some (host tr not256Call 1)
     else if op = vm_BYTE then Some (traced L rs 2 ''BYTE'' tr)
     else if op = vm_SAR then Some (traced L rs 2 ''SAR'' tr)
     else None)"

text \<open>
  Lines 241-270: pushes. One to four immediate bytes become a 32-bit literal (\<open>int32(value)\<close>
  keeps the low 32 bits), five and more a value of the data section. Reading past the end of
  the arguments panics.
\<close>

definition PUSH1_value :: "bytes \<Rightarrow> u32 result" where
  "PUSH1_value args = bindR (go_index args 0) (\<lambda>b. Inr (ucast b))"

definition PUSH2_value :: "bytes \<Rightarrow> u32 result" where
  "PUSH2_value args =
     bindR (go_index args 1) (\<lambda>b1. bindR (go_index args 0) (\<lambda>b0.
       Inr (push_bit 8 (ucast b0) OR ucast b1)))"

definition PUSH3_value :: "bytes \<Rightarrow> u32 result" where
  "PUSH3_value args =
     bindR (go_index args 0) (\<lambda>b0. bindR (go_index args 1) (\<lambda>b1. bindR (go_index args 2) (\<lambda>b2.
       Inr (ucast (push_bit 16 (ucast b0) OR push_bit 8 (ucast b1) OR ucast b2 :: u64)))))"

definition PUSH4_value :: "bytes \<Rightarrow> u32 result" where
  "PUSH4_value args =
     bindR (go_index args 3) (\<lambda>b3. bindR (go_index args 0) (\<lambda>b0.
     bindR (go_index args 1) (\<lambda>b1. bindR (go_index args 2) (\<lambda>b2.
       Inr (push_bit 24 (ucast b0) OR push_bit 16 (ucast b1) OR push_bit 8 (ucast b2) OR ucast b3)))))"

definition push_literal :: "u32 result \<Rightarrow> transpiler \<Rightarrow> transpiler result" where
  "push_literal v tr = bindR v (\<lambda>x. Inr (emit (pushOpcode x) tr))"

definition push_cases :: "third_party \<Rightarrow> opcode \<Rightarrow> bytes \<Rightarrow> transpiler
    \<Rightarrow> transpiler result option" where
  "push_cases L op args tr =
    (if op = vm_PUSH0 then Some (Inr (emit (pushOpcode 0) tr))
     else if op = vm_PUSH1 then Some (push_literal (PUSH1_value args) tr)
     else if op = vm_PUSH2 then Some (push_literal (PUSH2_value args) tr)
     else if op = vm_PUSH3 then Some (push_literal (PUSH3_value args) tr)
     else if op = vm_PUSH4 then Some (push_literal (PUSH4_value args) tr)
     else if vm_PUSH5 \<le> op \<and> op \<le> vm_PUSH32 then Some (Inr (load_value L (SetBytes L args) tr))
     else None)"

text \<open>Lines 271-345: jumps, \<open>DUP1..DUP16\<close>, \<open>SWAP1..SWAP16\<close>, pop and memory store.\<close>

definition stack_cases :: "opcode \<Rightarrow> transpiler \<Rightarrow> transpiler option" where
  "stack_cases op tr =
    (if op = vm_JUMP then Some (emit (pops 1) tr)
     else if op = vm_JUMPI then Some (emit (pops 2) tr)
     else if vm_DUP1 \<le> op \<and> op \<le> vm_DUP16 then
       Some (emit (DupOpcode (word_of_nat (unat op - 0x7f))) tr)
     else if vm_SWAP1 \<le> op \<and> op \<le> vm_SWAP16 then
       Some (emit (SwapOpcode (word_of_nat (unat op - 0x8f))) tr)
     else if op = vm_POP then Some (emit (pops 1) tr)
     else if op = vm_MSTORE then Some (emit (pops 2) tr)
     else None)"

text \<open>
  Lines 346-443: values of the environment, taken from the execution state or replayed from the
  trace. \<open>state\<close> is a pointer, and so are its 256-bit fields.
\<close>

definition load_pointer :: "third_party \<Rightarrow> evm_execution_state option
    \<Rightarrow> (evm_execution_state \<Rightarrow> u256 option) \<Rightarrow> transpiler \<Rightarrow> transpiler result" where
  "load_pointer L st field tr =
     bindR (deref st) (\<lambda>s. bindR (deref (field s)) (\<lambda>v. Inr (load_value L v tr)))"

definition load_address :: "third_party \<Rightarrow> evm_execution_state option
    \<Rightarrow> (evm_execution_state \<Rightarrow> address) \<Rightarrow> transpiler \<Rightarrow> transpiler result" where
  "load_address L st field tr = bindR (deref st) (\<lambda>s. Inr (load_value L (SetBytes L (field s)) tr))"

definition load_size :: "third_party \<Rightarrow> evm_execution_state option
    \<Rightarrow> (evm_execution_state \<Rightarrow> bytes) \<Rightarrow> transpiler \<Rightarrow> transpiler result" where
  "load_size L st field tr =
     bindR (deref st) (\<lambda>s. Inr (load_value L (NewInt (word_of_nat (length (field s)))) tr))"

definition env_cases :: "third_party \<Rightarrow> opcode \<Rightarrow> evm_execution_state option \<Rightarrow> u256 list option
    \<Rightarrow> transpiler \<Rightarrow> transpiler result option" where
  "env_cases L op st rs tr =
    (if op = vm_MLOAD then Some (traced L rs 1 ''MLOAD'' tr)
     else if op = vm_JUMPDEST then Some (Inr (emit [instr ''NOP'' []] tr))
     else if op = vm_ISZERO then
       Some (let tr' = emit (pushOpcode 0) tr in host tr' eq256Call 2)
     else if op = vm_CALLVALUE then Some (load_pointer L st CallValue tr)
     else if op = vm_GAS then Some (load_pointer L st Gas tr)
     else if op = vm_ADDRESS then Some (load_address L st Address tr)
     else if op = vm_BALANCE then Some (traced L rs 1 ''BALANCE'' tr)
     else if op = vm_ORIGIN then Some (load_address L st Origin tr)
     else if op = vm_TIMESTAMP then Some (load_pointer L st Timestamp tr)
     else if op = vm_CHAINID then Some (load_pointer L st ChainId tr)
     else if op = vm_COINBASE then Some (load_address L st Coinbase tr)
     else if op = vm_BLOCKHASH then Some (traced L rs 1 ''BLOCKHASH'' tr)
     else if op = vm_NUMBER then Some (load_pointer L st BlockNumber tr)
     else if op = vm_DIFFICULTY then Some (traced L rs 1 ''DIFFICULTY'' tr)
     else if op = vm_GASLIMIT then Some (traced L rs 1 ''GASLIMIT'' tr)
     else if op = vm_SELFBALANCE then Some (traced L rs 0 ''SELFBALANCE'' tr)
     else if op = vm_BASEFEE then Some (traced L rs 1 ''BASEFEE'' tr)
     else if op = vm_BLOBHASH then Some (traced L rs 1 ''BLOBHASH'' tr)
     else if op = vm_BLOBBASEFEE then Some (traced L rs 0 ''BLOBBASEFEE'' tr)
     else if op = vm_GASPRICE then Some (traced L rs 0 ''GASPRICE'' tr)
     else None)"

text \<open>Lines 444-527: code and account queries, contract creation, logs.\<close>

definition code_cases :: "third_party \<Rightarrow> opcode \<Rightarrow> evm_execution_state option \<Rightarrow> u256 list option
    \<Rightarrow> transpiler \<Rightarrow> transpiler result option" where
  "code_cases L op st rs tr =
    (if op = vm_CODESIZE then Some (load_size L st CodeData tr)
     else if op = vm_PC then Some (traced L rs 0 ''PC'' tr)
     else if op = vm_MSIZE then Some (traced L rs 0 ''MSIZE'' tr)
     else if op = vm_MSTORE8 then Some (Inr (emit (pops 2) tr))
     else if op = vm_EXTCODECOPY then Some (Inr (emit (pops 4) tr))
     else if op = vm_EXTCODEHASH then Some (traced L rs 1 ''EXTCODEHASH'' tr)
     else if op = vm_CREATE then Some (traced L rs 3 ''CREATE'' tr)
     else if op = vm_CREATE2 then Some (traced L rs 4 ''CREATE2'' tr)
     else if op = vm_SELFDESTRUCT then Some (Inr (emit (pops 1) tr))
     else if op = vm_EXTCODESIZE then Some (traced L rs 1 ''EXTCODESIZE'' tr)
     else if op = vm_LOG0 then Some (Inr (emit (pops 2) tr))
     else if op = vm_LOG1 then Some (Inr (emit (pops 3) tr))
     else if op = vm_LOG2 then Some (Inr (emit (pops 4) tr))
     else if op = vm_LOG3 then Some (Inr (emit (pops 5) tr))
     else if op = vm_LOG4 then Some (Inr (emit (pops 6) tr))
     else None)"

text \<open>
  Lines 528-578: call data and storage. The stack snapshot is indexed from its bottom, and an
  index past its end panics.
\<close>

definition calldataloadCall :: "third_party \<Rightarrow> u64 \<Rightarrow> bytes \<Rightarrow> transpiler
    \<Rightarrow> (instruction list \<times> transpiler) result" where
  "calldataloadCall L offset callData tr =
     (let data = replicate 32 0;
          n = (word_of_nat (length callData) :: u64)
      in bindR (if offset < n then
                  (let end0 = offset + 32;
                       end1 = (if end0 > n then n else end0)
                   in bindR (go_slice callData (unat offset) (unat end1)) (\<lambda>src. Inr (go_copy data src)))
                else Inr data)
           (\<lambda>data'. let (varName, ds) = Add L (SetBytes L data') (dataSection tr)
                     in Inr (loadFromDataSection varName, tr\<lparr>dataSection := ds\<rparr>)))"

definition CALLDATALOAD_case :: "third_party \<Rightarrow> u256 list \<Rightarrow> evm_execution_state option
    \<Rightarrow> transpiler \<Rightarrow> transpiler result" where
  "CALLDATALOAD_case L snapshot st tr =
     (let tr1 = emit (pops 1) tr in
      bindR (go_index snapshot 0) (\<lambda>v. bindR (deref st) (\<lambda>s.
      bindR (calldataloadCall L (ucast v) (CallData s) tr1) (\<lambda>(is, tr2). Inr (emit is tr2)))))"

definition getStorageKey :: "third_party \<Rightarrow> u256 \<Rightarrow> string" where
  "getStorageKey L arguments = Hex L arguments"

definition getStorageValue :: "u256 \<Rightarrow> u256" where
  "getStorageValue arguments = arguments"

text \<open>\<open>SSTORE\<close> and \<open>TSTORE\<close> (equal bodies), then \<open>SLOAD\<close> and \<open>TLOAD\<close>.\<close>

definition store_case :: "third_party \<Rightarrow> u256 list \<Rightarrow> transpiler \<Rightarrow> transpiler result" where
  "store_case L snapshot tr =
     (let tr1 = emit (pops 2) tr in
      bindR (go_index snapshot 1) (\<lambda>k. bindR (go_index snapshot 0) (\<lambda>v.
        let (varName, ss, ds) =
              Store L (storageSection tr1) (dataSection tr1) (getStorageKey L k) (getStorageValue v)
        in Inr (tr1\<lparr>storageSection := ss, dataSection := ds\<rparr>))))"

definition load_case :: "third_party \<Rightarrow> u256 list \<Rightarrow> transpiler \<Rightarrow> transpiler result" where
  "load_case L snapshot tr =
     bindR (go_index snapshot 0) (\<lambda>k.
       let tr1 = emit (pops 1) tr;
           (varName, ss, ds) =
             Load L (storageSection tr1) (dataSection tr1) (getStorageKey L k)
       in Inr (emit (loadFromDataSection varName)
            (tr1\<lparr>storageSection := ss, dataSection := ds\<rparr>)))"

definition data_cases :: "third_party \<Rightarrow> opcode \<Rightarrow> u256 list \<Rightarrow> evm_execution_state option
    \<Rightarrow> u256 list option \<Rightarrow> transpiler \<Rightarrow> transpiler result option" where
  "data_cases L op snapshot st rs tr =
    (if op = vm_CALLDATASIZE then Some (load_size L st CallData tr)
     else if op = vm_RETURNDATASIZE then Some (traced L rs 0 ''RETURNDATASIZE'' tr)
     else if op = vm_CALLDATALOAD then Some (CALLDATALOAD_case L snapshot st tr)
     else if op = vm_CALLDATACOPY then Some (Inr (emit (pops 3) tr))
     else if op = vm_CODECOPY then Some (Inr (emit (pops 3) tr))
     else if op = vm_RETURNDATACOPY then Some (Inr (emit (pops 3) tr))
     else if op = vm_SSTORE then Some (store_case L snapshot tr)
     else if op = vm_TSTORE then Some (store_case L snapshot tr)
     else if op = vm_SLOAD then Some (load_case L snapshot tr)
     else if op = vm_TLOAD then Some (load_case L snapshot tr)
     else None)"

text \<open>
  Lines 579-634: the cases that return from the method themselves. \<open>STOP\<close> emits nothing and
  records nothing; the others emit \<open>EBREAK\<close> only inside a nested call.
\<close>

definition halt_tail :: "transpiler \<Rightarrow> transpiler" where
  "halt_tail tr =
     (let tr1 = (if \<not> DisableCallContextSeparation (config tr)
                 then emit [instr ''addi'' [''sp'', ''s3'', ''0'']] tr else tr)
      in if currentDepth tr1 > 0 then emit [EBREAK_instr] tr1 else tr1)"

definition halt_cases :: "third_party \<Rightarrow> opcode \<Rightarrow> transpiler \<Rightarrow> transpiler option" where
  "halt_cases L op tr =
    (let startInstructionCount = length (instructions tr) in
     if op = vm_STOP then Some tr
     else if op = vm_RETURN then
       Some (storeDebugInfo L startInstructionCount op (halt_tail (emit (pops 2) tr)))
     else if op = vm_REVERT then
       Some (storeDebugInfo L startInstructionCount op (halt_tail (emit (pops 2) tr)))
     else if op = vm_INVALID then
       Some (storeDebugInfo L startInstructionCount op (halt_tail tr))
     else None)"

text \<open>Lines 635-712: caller, hash, memory copy and the four message calls.\<close>

definition MCOPY_case :: "u256 list \<Rightarrow> transpiler \<Rightarrow> transpiler result" where
  "MCOPY_case snapshot tr =
     (let tr1 = emit (pops 3) tr in
      if \<not> DisableMCopyOperations (config tr1) then
        bindR (go_index snapshot 2) (\<lambda>d. bindR (go_index snapshot 1) (\<lambda>s.
        bindR (go_index snapshot 0) (\<lambda>l.
          Inr (emit (mcopyCall (ucast d) (ucast s) (ucast l)) tr1))))
      else Inr tr1)"

definition enter_call :: "nat \<Rightarrow> transpiler \<Rightarrow> transpiler" where
  "enter_call numArgs tr =
     (let tr1 = emit (pops numArgs) tr;
          tr2 = (if \<not> DisableCallContextSeparation (config tr1)
                 then emit createNewStackFrame (emit saveStackContext tr1) else tr1)
      in tr2\<lparr>currentDepth := currentDepth tr2 + 1\<rparr>)"

definition call_cases :: "third_party \<Rightarrow> opcode \<Rightarrow> u256 list \<Rightarrow> evm_execution_state option
    \<Rightarrow> u256 list option \<Rightarrow> transpiler \<Rightarrow> transpiler result option" where
  "call_cases L op snapshot st rs tr =
    (if op = vm_CALLER then Some (load_address L st Caller tr)
     else if op = vm_KECCAK256 then Some (traced L rs 2 ''KECCAK256'' tr)
     else if op = vm_MCOPY then Some (MCOPY_case snapshot tr)
     else if op = vm_CALL then Some (Inr (enter_call 7 tr))
     else if op = vm_DELEGATECALL then Some (Inr (enter_call 6 tr))
     else if op = vm_STATICCALL then Some (Inr (enter_call 6 tr))
     else if op = vm_CALLCODE then Some (Inr (enter_call 7 tr))
     else None)"

section \<open>One traced instruction\<close>

text \<open>The first case that applies; the default case is the unimplemented opcode.\<close>

definition switch_opcode :: "third_party \<Rightarrow> evm_instruction_metadata \<Rightarrow> evm_execution_state option
    \<Rightarrow> u256 list option \<Rightarrow> transpiler \<Rightarrow> transpiler result" where
  "switch_opcode L op st rs tr =
     (case arith_cases L (Opcode op) rs tr of Some r \<Rightarrow> r | None \<Rightarrow>
     (case push_cases L (Opcode op) (Arguments op) tr of Some r \<Rightarrow> r | None \<Rightarrow>
     (case stack_cases (Opcode op) tr of Some r \<Rightarrow> Inr r | None \<Rightarrow>
     (case env_cases L (Opcode op) st rs tr of Some r \<Rightarrow> r | None \<Rightarrow>
     (case code_cases L (Opcode op) st rs tr of Some r \<Rightarrow> r | None \<Rightarrow>
     (case data_cases L (Opcode op) (StackSnapshot op) st rs tr of Some r \<Rightarrow> r | None \<Rightarrow>
     (case call_cases L (Opcode op) (StackSnapshot op) st rs tr of Some r \<Rightarrow> r | None \<Rightarrow>
        Inl (Err (''unimplemented opcode: 0x'' @ hex_pad 2 (unat (Opcode op)))))))))))"

text \<open>Lines 116-149: the return from a nested call.\<close>

definition stack_restore :: "evm_instruction_metadata \<Rightarrow> transpiler \<Rightarrow> transpiler" where
  "stack_restore op tr =
     (let startInstructionCount = length (instructions tr);
          tr1 = (if currentDepth tr > 0 then tr\<lparr>currentDepth := currentDepth tr - 1\<rparr> else tr);
          tr2 = (if \<not> DisableCallContextSeparation (config tr1)
                 then emit restoreStackContext tr1 else tr1);
          tr3 = (case Result op of
                   Some v \<Rightarrow> emit (pushOpcode (ucast (ucast v :: u64))) tr2
                 | None \<Rightarrow> tr2);
          tr4 = emit [EBREAK_instr] tr3
      in if \<not> DisableDebugMappings (config tr4) then
           tr4\<lparr>debugMappings := debugMappings tr4 @
             [\<lparr> EvmOpcode = ''STACK_RESTORE'',
                RiscVInstructions = drop startInstructionCount (instructions tr4),
                DataVariables = getDataSectionSnapshot tr4,
                CallDepth = currentDepth tr4 \<rparr>]\<rparr>
         else tr4)"

definition AddInstructionWithResult :: "third_party \<Rightarrow> evm_instruction_metadata
    \<Rightarrow> evm_execution_state option \<Rightarrow> u256 list option \<Rightarrow> transpiler \<Rightarrow> transpiler result" where
  "AddInstructionWithResult L op st rs tr =
     (if IsStackRestore op then Inr (stack_restore op tr)
      else case halt_cases L (Opcode op) tr of Some tr' \<Rightarrow> Inr tr' | None \<Rightarrow>
        bindR (switch_opcode L op st rs tr) (\<lambda>tr'.
          Inr (storeDebugInfo L (length (instructions tr)) (Opcode op) (emit [EBREAK_instr] tr'))))"

definition AddInstruction :: "third_party \<Rightarrow> evm_instruction_metadata
    \<Rightarrow> evm_execution_state option \<Rightarrow> transpiler \<Rightarrow> transpiler result" where
  "AddInstruction L op st tr = AddInstructionWithResult L op st None tr"

section \<open>A whole trace\<close>

text \<open>
  The stack a replayed result is read from: the snapshot of the next entry, of the one after
  it for contract creation (whose index is not checked), nothing for the last entry.
\<close>

definition result_stack :: "evm_instruction_metadata list \<Rightarrow> nat \<Rightarrow> u256 list option result" where
  "result_stack ins i =
     (if i + 1 < length ins then
        (if Opcode (ins ! i) = vm_CREATE2 \<or> Opcode (ins ! i) = vm_CREATE
         then bindR (go_index ins (i + 2)) (\<lambda>m. Inr (Some (StackSnapshot m)))
         else bindR (go_index ins (i + 1)) (\<lambda>m. Inr (Some (StackSnapshot m))))
      else Inr None)"

fun process_steps :: "third_party \<Rightarrow> evm_instruction_metadata list \<Rightarrow> evm_execution_state option
    \<Rightarrow> nat list \<Rightarrow> transpiler \<times> u256 list list \<Rightarrow> (transpiler \<times> u256 list list) result" where
  "process_steps L ins st [] acc = Inr acc"
| "process_steps L ins st (i # is) (tr, snapshots) =
     bindR (result_stack ins i) (\<lambda>rs.
     bindR (go_index ins i) (\<lambda>op.
     bindR (AddInstructionWithResult L op st rs tr) (\<lambda>tr'.
       process_steps L ins st is
         (tr', if i > 0 \<and> enableSnapshots tr' then snapshots @ [StackSnapshot op] else snapshots))))"

definition ProcessExecution :: "third_party \<Rightarrow> evm_instruction_metadata list
    \<Rightarrow> evm_execution_state option \<Rightarrow> transpiler \<Rightarrow> (transpiler \<times> u256 list list) result" where
  "ProcessExecution L ins st tr = process_steps L ins st [0..<length ins] (tr, [])"

section \<open>Boundaries and results\<close>

definition resetStateForNextTransaction :: "transpiler \<Rightarrow> transpiler" where
  "resetStateForNextTransaction tr =
     tr\<lparr>currentDepth := 0, storageSection := NewStorageSection, debugMappings := []\<rparr>"

definition AddTransactionBoundary :: "transpiler \<Rightarrow> transpiler" where
  "AddTransactionBoundary tr =
     resetStateForNextTransaction
       (emit [EBREAK_instr] (emit [instr ''mv'' [''s3'', ''s2'']] (emit [instr ''mv'' [''sp'', ''s2'']] tr)))"

definition ClearInstructionsAndDebugMappings :: "transpiler \<Rightarrow> transpiler" where
  "ClearInstructionsAndDebugMappings tr = tr\<lparr>instructions := [], debugMappings := []\<rparr>"

definition ToAssembly :: "transpiler \<Rightarrow> assembly_file" where
  "ToAssembly tr =
     \<lparr> Instructions = instructions tr,
       DataSec = map (\<lambda>(n, v). \<lparr>VarName = n, VarValue = v\<rparr>) (Iter (dataSection tr)) \<rparr>"

definition GetDebugMappings :: "transpiler \<Rightarrow> evm_to_riscv_mapping list" where
  "GetDebugMappings tr = debugMappings tr"

end
