(* ===== verification/RiscV.thy ===== *)
theory RiscV
  imports Codegen
begin

text \<open>
  The target language: RV32IM assembly as \<open>prover/compiler.go\<close> assembles it
  (\<open>-march=rv32im -mabi=ilp32\<close>). \<open>decode\<close> reads the mnemonic and operand strings the
  transpiler emits, rejecting what the assembler rejects (unknown mnemonics or registers,
  immediates out of range); \<open>exec1\<close> is the effect of one straight-line instruction on
  registers and byte-addressed little-endian memory. \<open>EBREAK\<close> and \<open>NOP\<close> change nothing.
  Labels of the data section and the effect of a call are parameters (\<open>asm_env\<close>).
  Misaligned accesses are not trapped; the emitted code makes none when \<open>sp\<close> is aligned.
\<close>

unbundle bit_operations_syntax

section \<open>Instructions\<close>

datatype reg = ZERO | RA | SP | T0 | T1 | T2 | T3 | T4 | T5 | T6 | A0 | A1 | A2 | A3 | S1 | S2 | S3

datatype rv =
    I_addi reg reg int
  | I_li reg int
  | I_la reg string
  | I_lw reg int reg
  | I_sw reg int reg
  | I_lb reg int reg
  | I_sb reg int reg
  | I_mv reg reg
  | I_call string
  | I_ebreak
  | I_nop

definition reg_names :: "(string \<times> reg) list" where
  "reg_names =
     [(''sp'', SP), (''t0'', T0), (''t1'', T1), (''t2'', T2), (''a0'', A0), (''a1'', A1),
      (''s1'', S1), (''s2'', S2), (''s3'', S3), (''ra'', RA), (''zero'', ZERO),
      (''t3'', T3), (''t4'', T4), (''t5'', T5), (''t6'', T6), (''a2'', A2), (''a3'', A3)]"

definition read_reg :: "string \<Rightarrow> reg option" where
  "read_reg s = map_of reg_names s"

text \<open>Immediates: 12 bits signed for \<open>addi\<close>, loads and stores; 32 bits for \<open>li\<close>.\<close>

definition read_imm12 :: "string \<Rightarrow> int option" where
  "read_imm12 s = (case read_int s of
      Some i \<Rightarrow> if - 2048 \<le> i \<and> i \<le> 2047 then Some i else None | None \<Rightarrow> None)"

definition read_imm32 :: "string \<Rightarrow> int option" where
  "read_imm32 s = (case read_int s of
      Some i \<Rightarrow> if - (2 ^ 31) \<le> i \<and> i < 2 ^ 32 then Some i else None | None \<Rightarrow> None)"

text \<open>A memory operand \<open>k(r)\<close>.\<close>

definition read_addr :: "string \<Rightarrow> (int \<times> reg) option" where
  "read_addr s =
     (case dropWhile (\<lambda>c. c \<noteq> CHR ''('') s of
        [] \<Rightarrow> None
      | _ # r \<Rightarrow>
          (if r \<noteq> [] \<and> last r = CHR '')'' then
             (case (read_imm12 (takeWhile (\<lambda>c. c \<noteq> CHR ''('') s), read_reg (butlast r)) of
                (Some k, Some x) \<Rightarrow> Some (k, x) | _ \<Rightarrow> None)
           else None))"

definition decode_mem :: "(reg \<Rightarrow> int \<Rightarrow> reg \<Rightarrow> rv) \<Rightarrow> string list \<Rightarrow> rv option" where
  "decode_mem mk ops = (case ops of
      [a, b] \<Rightarrow> (case (read_reg a, read_addr b) of
          (Some r, Some (k, x)) \<Rightarrow> Some (mk r k x) | _ \<Rightarrow> None)
    | _ \<Rightarrow> None)"

definition decode_addi :: "string list \<Rightarrow> rv option" where
  "decode_addi ops = (case ops of
      [a, b, c] \<Rightarrow> (case (read_reg a, read_reg b, read_imm12 c) of
          (Some r, Some x, Some k) \<Rightarrow> Some (I_addi r x k) | _ \<Rightarrow> None)
    | _ \<Rightarrow> None)"

definition decode_li :: "string list \<Rightarrow> rv option" where
  "decode_li ops = (case ops of
      [a, b] \<Rightarrow> (case (read_reg a, read_imm32 b) of
          (Some r, Some k) \<Rightarrow> Some (I_li r k) | _ \<Rightarrow> None)
    | _ \<Rightarrow> None)"

definition decode_la :: "string list \<Rightarrow> rv option" where
  "decode_la ops = (case ops of
      [a, l] \<Rightarrow> map_option (\<lambda>r. I_la r l) (read_reg a) | _ \<Rightarrow> None)"

definition decode_mv :: "string list \<Rightarrow> rv option" where
  "decode_mv ops = (case ops of
      [a, b] \<Rightarrow> (case (read_reg a, read_reg b) of
          (Some r, Some x) \<Rightarrow> Some (I_mv r x) | _ \<Rightarrow> None)
    | _ \<Rightarrow> None)"

definition decode_call :: "string list \<Rightarrow> rv option" where
  "decode_call ops = (case ops of [f] \<Rightarrow> Some (I_call f) | _ \<Rightarrow> None)"

definition decode :: "instruction \<Rightarrow> rv option" where
  "decode i =
     (if Name i = ''addi'' then decode_addi (Operands i)
      else if Name i = ''li'' then decode_li (Operands i)
      else if Name i = ''la'' then decode_la (Operands i)
      else if Name i = ''lw'' then decode_mem I_lw (Operands i)
      else if Name i = ''sw'' then decode_mem I_sw (Operands i)
      else if Name i = ''lb'' then decode_mem I_lb (Operands i)
      else if Name i = ''sb'' then decode_mem I_sb (Operands i)
      else if Name i = ''mv'' then decode_mv (Operands i)
      else if Name i = ''call'' then decode_call (Operands i)
      else if Name i = ''EBREAK'' then (if Operands i = [] then Some I_ebreak else None)
      else if Name i = ''NOP'' then (if Operands i = [] then Some I_nop else None)
      else None)"

lemmas decode_defs =
  decode_def decode_addi_def decode_li_def decode_la_def decode_mem_def decode_mv_def decode_call_def

lemma read_reg_simps [simp]:
  "read_reg ''sp'' = Some SP" "read_reg ''t0'' = Some T0" "read_reg ''t1'' = Some T1"
  "read_reg ''t2'' = Some T2" "read_reg ''a0'' = Some A0" "read_reg ''a1'' = Some A1"
  "read_reg ''s1'' = Some S1" "read_reg ''s2'' = Some S2" "read_reg ''s3'' = Some S3"
  by (simp_all add: read_reg_def reg_names_def)

lemma read_digits:
  "digit_val CHR ''0'' = Some 0" "digit_val CHR ''1'' = Some 1" "digit_val CHR ''2'' = Some 2"
  "digit_val CHR ''3'' = Some 3" "digit_val CHR ''4'' = Some 4"
  by (simp_all add: digit_val_def)

lemma read_imm12_simps [simp]:
  "read_imm12 ''0'' = Some 0" "read_imm12 ''32'' = Some 32" "read_imm12 ''-32'' = Some (-32)"
  "read_imm12 ''4'' = Some 4" "read_imm12 ''-4'' = Some (-4)" "read_imm12 ''-1024'' = Some (-1024)"
  by (simp_all add: read_imm12_def read_int_def read_nat_def read_digits)

lemma read_imm12_show_nat:
  assumes "n \<le> 2047" shows "read_imm12 (show_nat n) = Some (int n)"
proof -
  have "read_int (show_nat n) = Some (int n)"
    using read_int_show_int[of "int n"] by (simp add: show_int_def)
  with assms show ?thesis by (simp add: read_imm12_def)
qed

lemma read_imm32_sint [simp]: "read_imm32 (show_int (sint (v :: u32))) = Some (sint v)"
proof -
  have "- (2 ^ 31) \<le> sint v \<and> sint v < 2 ^ 31"
    using sint_greater_eq[of v] sint_less[of v] by simp
  then show ?thesis by (simp add: read_imm32_def)
qed

lemma read_imm32_show_nat: "n < 2 ^ 32 \<Longrightarrow> read_imm32 (show_nat n) = Some (int n)"
  using read_int_show_int[of "int n"] by (simp add: read_imm32_def show_int_def)

lemma dropWhile_no_paren:
  "CHR ''('' \<notin> set s \<Longrightarrow> dropWhile (\<lambda>c. c \<noteq> CHR ''('') (s @ CHR ''('' # r) = CHR ''('' # r"
  "CHR ''('' \<notin> set s \<Longrightarrow> takeWhile (\<lambda>c. c \<noteq> CHR ''('') (s @ CHR ''('' # r) = s"
  by (induction s) auto

lemma read_addr_at_offset:
  assumes "unat k \<le> 2047" and "read_reg r = Some x"
  shows "read_addr (at_offset k r) = Some (int (unat k), x)"
  using assms dropWhile_no_paren[OF show_nat_no_paren[of "unat k"], of "r @ '')''"]
  by (simp add: read_addr_def at_offset_def read_imm12_show_nat)

lemma read_addr_simps [simp]:
  "read_addr ''0(sp)'' = Some (0, SP)" "read_addr ''0(s1)'' = Some (0, S1)"
  "read_addr ''0(t0)'' = Some (0, T0)" "read_addr ''0(t2)'' = Some (0, T2)"
  by (simp_all add: read_addr_def)

lemma decode_shapes [decode_simps]:
  "decode (instr ''addi'' ops) = decode_addi ops"
  "decode (instr ''li'' ops) = decode_li ops"
  "decode (instr ''la'' ops) = decode_la ops"
  "decode (instr ''lw'' ops) = decode_mem I_lw ops"
  "decode (instr ''sw'' ops) = decode_mem I_sw ops"
  "decode (instr ''lb'' ops) = decode_mem I_lb ops"
  "decode (instr ''sb'' ops) = decode_mem I_sb ops"
  "decode (instr ''mv'' ops) = decode_mv ops"
  "decode (instr ''call'' ops) = decode_call ops"
  "decode (instr ''EBREAK'' []) = Some I_ebreak"
  "decode (instr ''NOP'' []) = Some I_nop"
  by (simp_all add: decode_def)

lemmas operand_shapes [decode_simps] =
  decode_addi_def decode_li_def decode_la_def decode_mem_def decode_mv_def decode_call_def

section \<open>Decoding whole listings\<close>

fun decode_all :: "instruction list \<Rightarrow> rv list option" where
  "decode_all [] = Some []"
| "decode_all (i # is) =
     (case (decode i, decode_all is) of (Some c, Some cs) \<Rightarrow> Some (c # cs) | _ \<Rightarrow> None)"

lemma decode_all_append:
  "decode_all (xs @ ys) =
     (case (decode_all xs, decode_all ys) of (Some cs, Some ds) \<Rightarrow> Some (cs @ ds) | _ \<Rightarrow> None)"
  by (induction xs) (auto split: option.splits)

lemma decode_pop [decode_simps]: "decode_all popStack = Some [I_addi SP SP 32]"
  by (simp add: popStack_def decode_simps)

lemma decode_pops: "decode_all (concat (replicate n popStack)) = Some (replicate n (I_addi SP SP 32))"
  by (induction n) (simp_all add: decode_all_append decode_pop)

lemma decode_push [decode_simps]:
  "decode_all (pushOpcode v) = Some [I_addi SP SP (-32), I_li T0 (sint v), I_sw T0 0 SP]"
  by (simp add: pushOpcode_def decode_simps)

lemma decode_load [decode_simps]:
  "decode_all (loadFromDataSection n) = Some
     ([I_addi SP SP (-32), I_la T0 n] @
      concat (map (\<lambda>i. [I_lw T1 (int (i * 4)) T0, I_sw T1 (int (i * 4)) SP]) [0..<8]))"
  by (simp add: loadFromDataSection_def decode_simps read_addr_at_offset upt_rec)

lemma decode_dup:
  assumes "1 \<le> k" "k \<le> 16"
  shows "decode_all (DupOpcode (word_of_nat k)) =
     Some [I_lw T0 (32 * (int k - 1)) SP, I_addi SP SP (-32), I_sw T0 0 SP]"
proof -
  have "32 * (word_of_nat k - 1) = (word_of_nat (32 * (k - 1)) :: u64)"
    using assms by (simp add: of_nat_diff)
  moreover have "unat (word_of_nat (32 * (k - 1)) :: u64) = 32 * (k - 1)"
    using assms by (intro unat_word_of_nat) simp
  ultimately show ?thesis
    using assms by (simp add: DupOpcode_def Let_def decode_simps read_addr_at_offset of_nat_diff)
qed

lemma decode_swap:
  assumes "k \<le> 16"
  shows "decode_all (SwapOpcode (word_of_nat k)) =
     Some [I_lw T0 0 SP, I_lw T1 (32 * int k) SP, I_sw T1 0 SP, I_sw T0 (32 * int k) SP]"
proof -
  have "32 * word_of_nat k = (word_of_nat (32 * k) :: u64)"
    by simp
  moreover have "unat (word_of_nat (32 * k) :: u64) = 32 * k"
    using assms by (intro unat_word_of_nat) simp
  ultimately show ?thesis
    using assms by (simp add: SwapOpcode_def Let_def decode_simps read_addr_at_offset)
qed

lemma decode_frames [decode_simps]:
  "decode_all saveStackContext = Some [I_addi S1 S1 (-4), I_sw SP 0 S1, I_addi S1 S1 (-4), I_sw S3 0 S1]"
  "decode_all createNewStackFrame = Some [I_addi SP SP (-1024), I_addi S3 SP 0]"
  "decode_all restoreStackContext = Some [I_lw S3 0 S1, I_addi S1 S1 4, I_lw SP 0 S1, I_addi S1 S1 4]"
  by (simp_all add: saveStackContext_def createNewStackFrame_def restoreStackContext_def decode_simps)

lemma decode_calls [decode_simps]:
  "decode_all add256Call = Some [I_addi A0 SP 0, I_addi A1 SP 32, I_call ''add256_stack_scratch'']"
  "decode_all mul256Call = Some [I_addi A0 SP 0, I_addi A1 SP 32, I_call ''mul256_stack_scratch'']"
  "decode_all sub256Call = Some [I_addi A0 SP 0, I_addi A1 SP 32, I_call ''sub256_stack_scratch'']"
  "decode_all div256Call = Some [I_addi A0 SP 0, I_addi A1 SP 32, I_call ''div256_stack_scratch'']"
  "decode_all and256Call = Some [I_addi A0 SP 0, I_addi A1 SP 32, I_call ''and256_stack_scratch'']"
  "decode_all or256Call = Some [I_addi A0 SP 0, I_addi A1 SP 32, I_call ''or256_stack_scratch'']"
  "decode_all xor256Call = Some [I_addi A0 SP 0, I_addi A1 SP 32, I_call ''xor256_stack_scratch'']"
  "decode_all not256Call = Some [I_addi A0 SP 0, I_call ''not256_stack_scratch'']"
  "decode_all shr256Call = Some [I_addi A0 SP 32, I_addi A1 SP 0, I_call ''shr256_stack_scratch'']"
  "decode_all shl256Call = Some [I_addi A0 SP 32, I_addi A1 SP 0, I_call ''shl256_stack_scratch'']"
  "decode_all slt256Call = Some [I_addi A0 SP 0, I_addi A1 SP 32, I_call ''slt256_stack_scratch'']"
  "decode_all eq256Call = Some [I_addi A0 SP 0, I_addi A1 SP 32, I_call ''eq256_stack_scratch'']"
  "decode_all gt256Call = Some [I_addi A0 SP 0, I_addi A1 SP 32, I_call ''gt256_stack_scratch'']"
  "decode_all lt256Call = Some [I_addi A0 SP 0, I_addi A1 SP 32, I_call ''lt256_stack_scratch'']"
  by (simp_all add: call_defs decode_simps)

end
