(* ===== verification/Machine.thy ===== *)
theory Machine
  imports RiscV
begin

text \<open>
  Execution of the target language: byte-addressed little-endian memory, registers, one
  straight-line instruction (\<open>exec1\<close>), a listing (\<open>exec\<close>). The locale \<open>word_memory\<close> is the
  interface between 32-bit accesses and what is built on them (256-bit slots of eight words);
  \<open>bytemem\<close> interprets it for the byte memory.
\<close>

unbundle bit_operations_syntax

section \<open>Thirty-two bit accesses\<close>

type_synonym memory = "u32 \<Rightarrow> u8"

definition rd32 :: "memory \<Rightarrow> u32 \<Rightarrow> u32" where
  "rd32 m a =
     ucast (m a) OR push_bit 8 (ucast (m (a + 1))) OR
     push_bit 16 (ucast (m (a + 2))) OR push_bit 24 (ucast (m (a + 3)))"

definition wr32 :: "memory \<Rightarrow> u32 \<Rightarrow> u32 \<Rightarrow> memory" where
  "wr32 m a v =
     m(a := ucast v, a + 1 := ucast (drop_bit 8 v),
       a + 2 := ucast (drop_bit 16 v), a + 3 := ucast (drop_bit 24 v))"

text \<open>Two 32-bit accesses that do not overlap.\<close>

definition far :: "u32 \<Rightarrow> u32 \<Rightarrow> bool" where
  "far a b \<longleftrightarrow> 4 \<le> a - b \<and> 4 \<le> b - a"

lemma far_sym: "far a b \<longleftrightarrow> far b a"
  by (auto simp: far_def)

lemma far_plus:
  assumes "4 \<le> k" and "k + 4 \<le> 2 ^ 32"
  shows "far a (a + word_of_nat k)"
proof -
  have u: "unat (word_of_nat k :: u32) = k"
    using assms by (intro unat_word_of_nat) simp
  have neg: "- (word_of_nat k :: u32) = word_of_nat (2 ^ 32 - k)"
    using assms(2) by (subst of_nat_diff) simp_all
  have u': "unat (word_of_nat (2 ^ 32 - k) :: u32) = 2 ^ 32 - k"
    using assms by (intro unat_word_of_nat) simp
  have "4 \<le> (word_of_nat k :: u32)"
    unfolding word_le_nat_alt u using assms(1) by simp
  moreover have "4 \<le> - (word_of_nat k :: u32)"
    unfolding word_le_nat_alt neg u' using assms(2) by simp
  ultimately show ?thesis by (simp add: far_def)
qed

lemma far_of_nat:
  assumes "p + 4 \<le> q" and "q + 4 \<le> 2 ^ 32 + p"
  shows "far (b + word_of_nat p) (b + word_of_nat q)"
proof -
  obtain k where q: "q = p + k" using assms(1) by (metis add_leD1 le_iff_add)
  have "far (b + word_of_nat p) (b + word_of_nat p + word_of_nat k)"
    using assms q by (intro far_plus) simp_all
  then show ?thesis by (simp add: q add.assoc)
qed

lemma offsets_differ:
  assumes "far a b" and "i \<in> {0, 1, 2, 3}" and "j \<in> {0, 1, 2, 3}"
  shows "b + j \<noteq> a + (i :: u32)"
proof
  assume "b + j = a + i"
  then have "b = a + (i - j)" by (simp add: algebra_simps)
  with assms show False by (auto simp: far_def word_le_nat_alt)
qed

lemma rd32_wr32: "rd32 (wr32 m a v) a = v"
proof (rule bit_word_eqI)
  fix n assume n: "n < LENGTH(32)"
  then consider "n < 8" | "8 \<le> n" "n < 16" | "16 \<le> n" "n < 24" | "24 \<le> n" "n < 32"
    by fastforce
  then show "bit (rd32 (wr32 m a v) a) n = bit v n"
    by cases (auto simp add: rd32_def wr32_def bit_simps)
qed

lemma rd32_wr32_far:
  assumes "far a b" shows "rd32 (wr32 m a v) b = rd32 m b"
proof -
  have "wr32 m a v (b + j) = m (b + j)" if "j \<in> {0, 1, 2, 3}" for j
    using offsets_differ[OF assms _ that, of 0] offsets_differ[OF assms _ that, of 1]
      offsets_differ[OF assms _ that, of 2] offsets_differ[OF assms _ that, of 3]
    by (simp add: wr32_def)
  from this[of 0] this[of 1] this[of 2] this[of 3] show ?thesis
    by (simp add: rd32_def)
qed

section \<open>Slots of eight words\<close>

definition word_at :: "nat \<Rightarrow> u256 \<Rightarrow> u32" where
  "word_at i v = ucast (drop_bit (32 * i) v)"

lemma words_determine:
  assumes "\<And>i. i < 8 \<Longrightarrow> word_at i v = word_at i w" shows "v = w"
proof (rule bit_word_eqI)
  fix n assume n: "n < LENGTH(256)"
  have "bit (word_at (n div 32) v) (n mod 32) = bit (word_at (n div 32) w) (n mod 32)"
    using assms[of "n div 32"] n by simp
  with n show "bit v n = bit w n"
    by (simp add: word_at_def bit_simps)
qed

text \<open>The big-endian bytes of a value.\<close>

lemma be_byte: "k < 32 \<Longrightarrow> be_bytes 32 (unat v) ! (31 - k) = (ucast (drop_bit (8 * k) (v :: u256)) :: u8)"
proof -
  assume "k < 32"
  then have "be_bytes 32 (unat v) ! (31 - k) = word_of_nat (unat v div 256 ^ k)"
    by (simp add: nth_be_bytes)
  also have "unat v div 256 ^ k = unat (drop_bit (8 * k) v)"
    by (simp only: unat_drop_bit_eq) (simp add: drop_bit_eq_div power_mult)
  finally show ?thesis by simp
qed

text \<open>Four consecutive bytes make a word.\<close>

lemma bytes_of_word:
  "ucast (ucast (drop_bit k v) :: u8) OR push_bit 8 (ucast (ucast (drop_bit (k + 8) v) :: u8)) OR
   push_bit 16 (ucast (ucast (drop_bit (k + 16) v) :: u8)) OR
   push_bit 24 (ucast (ucast (drop_bit (k + 24) v) :: u8)) = (ucast (drop_bit k (v :: u256)) :: u32)"
proof (rule bit_word_eqI)
  fix n assume "n < LENGTH(32)"
  then consider "n < 8" | "8 \<le> n" "n < 16" | "16 \<le> n" "n < 24" | "24 \<le> n" "n < 32"
    by force
  then show "bit (ucast (ucast (drop_bit k v) :: u8) OR push_bit 8 (ucast (ucast (drop_bit (k + 8) v) :: u8)) OR
      push_bit 16 (ucast (ucast (drop_bit (k + 16) v) :: u8)) OR
      push_bit 24 (ucast (ucast (drop_bit (k + 24) v) :: u8)) :: u32) n =
    bit (ucast (drop_bit k v) :: u32) n"
    by cases (auto simp: bit_simps add.assoc)
qed

locale word_memory =
  fixes rd :: "'m \<Rightarrow> u32 \<Rightarrow> u32" and wr :: "'m \<Rightarrow> u32 \<Rightarrow> u32 \<Rightarrow> 'm"
  assumes rd_wr: "rd (wr m a v) a = v"
    and rd_wr_far: "far a b \<Longrightarrow> rd (wr m a v) b = rd m b"
begin

fun write_words :: "(u32 \<times> u32) list \<Rightarrow> 'm \<Rightarrow> 'm" where
  "write_words [] m = m"
| "write_words (aw # aws) m = write_words aws (wr m (fst aw) (snd aw))"

lemma rd_write_words_far:
  "(\<And>a w. (a, w) \<in> set aws \<Longrightarrow> far a b) \<Longrightarrow> rd (write_words aws m) b = rd m b"
proof (induction aws arbitrary: m)
  case Nil
  show ?case by simp
next
  case (Cons aw aws)
  have "far (fst aw) b" using Cons.prems[of "fst aw" "snd aw"] by simp
  moreover have "rd (write_words aws m') b = rd m' b" for m'
  proof (rule Cons.IH)
    show "far a b" if "(a, w) \<in> set aws" for a w
      using that Cons.prems[of a w] by simp
  qed
  ultimately show ?case by (simp add: rd_wr_far)
qed

lemma write_words_append: "write_words (xs @ ys) m = write_words ys (write_words xs m)"
  by (induction xs arbitrary: m) simp_all

text \<open>Writing pairwise disjoint words stores all of them.\<close>

lemma rd_write_words:
  assumes "i < length aws"
    and "\<And>j. i < j \<Longrightarrow> j < length aws \<Longrightarrow> far (fst (aws ! j)) (fst (aws ! i))"
  shows "rd (write_words aws m) (fst (aws ! i)) = snd (aws ! i)"
proof -
  let ?ys = "drop (Suc i) aws"
  have split: "aws = take i aws @ [aws ! i] @ ?ys"
    using assms(1) by (simp add: id_take_nth_drop)
  have "far a (fst (aws ! i))" if "(a, w) \<in> set ?ys" for a w
  proof -
    from that obtain k where "k < length ?ys" "?ys ! k = (a, w)"
      by (auto simp: in_set_conv_nth)
    with assms(2)[of "Suc i + k"] show ?thesis by simp
  qed
  then have "rd (write_words ?ys m') (fst (aws ! i)) = rd m' (fst (aws ! i))" for m'
    by (rule rd_write_words_far)
  then show ?thesis
    by (subst split) (simp add: write_words_append rd_wr)
qed

end

interpretation bytemem: word_memory rd32 wr32
  by unfold_locales (simp_all add: rd32_wr32 rd32_wr32_far)

text \<open>A 256-bit value stored as eight little-endian words.\<close>

definition holds :: "memory \<Rightarrow> u32 \<Rightarrow> u256 \<Rightarrow> bool" where
  "holds m a v \<longleftrightarrow> (\<forall>i<8. rd32 m (a + word_of_nat (4 * i)) = word_at i v)"

lemma holds_unique: "holds m a v \<Longrightarrow> holds m a w \<Longrightarrow> v = w"
  by (rule words_determine) (simp add: holds_def)

section \<open>Execution\<close>

record mach =
  regs :: "reg \<Rightarrow> u32"
  mem :: memory

record asm_env =
  label_addr :: "string \<Rightarrow> u32 option"
  callee :: "string \<Rightarrow> mach \<Rightarrow> mach option"

definition get_reg :: "mach \<Rightarrow> reg \<Rightarrow> u32" where
  "get_reg m r = (if r = ZERO then 0 else regs m r)"

definition set_reg :: "reg \<Rightarrow> u32 \<Rightarrow> mach \<Rightarrow> mach" where
  "set_reg r v m = (if r = ZERO then m else m\<lparr>regs := (regs m)(r := v)\<rparr>)"

fun exec1 :: "asm_env \<Rightarrow> rv \<Rightarrow> mach \<Rightarrow> mach option" where
  "exec1 env (I_addi rd rs k) m = Some (set_reg rd (get_reg m rs + word_of_int k) m)"
| "exec1 env (I_li rd k) m = Some (set_reg rd (word_of_int k) m)"
| "exec1 env (I_la rd l) m =
     (case label_addr env l of None \<Rightarrow> None | Some a \<Rightarrow> Some (set_reg rd a m))"
| "exec1 env (I_lw rd k rs) m = Some (set_reg rd (rd32 (mem m) (get_reg m rs + word_of_int k)) m)"
| "exec1 env (I_sw rv k rs) m =
     Some (m\<lparr>mem := wr32 (mem m) (get_reg m rs + word_of_int k) (get_reg m rv)\<rparr>)"
| "exec1 env (I_lb rd k rs) m = Some (set_reg rd (scast (mem m (get_reg m rs + word_of_int k))) m)"
| "exec1 env (I_sb rv k rs) m =
     Some (m\<lparr>mem := (mem m)(get_reg m rs + word_of_int k := ucast (get_reg m rv))\<rparr>)"
| "exec1 env (I_mv rd rs) m = Some (set_reg rd (get_reg m rs) m)"
| "exec1 env (I_call f) m = callee env f m"
| "exec1 env I_ebreak m = Some m"
| "exec1 env I_nop m = Some m"

fun exec :: "asm_env \<Rightarrow> rv list \<Rightarrow> mach \<Rightarrow> mach option" where
  "exec env [] m = Some m"
| "exec env (c # cs) m = (case exec1 env c m of None \<Rightarrow> None | Some m' \<Rightarrow> exec env cs m')"

lemma exec_append:
  "exec env (cs @ ds) m = (case exec env cs m of None \<Rightarrow> None | Some m' \<Rightarrow> exec env ds m')"
  by (induction cs arbitrary: m) (auto split: option.splits)

text \<open>Running a listing as the transpiler emits it: decode, then execute.\<close>

definition run_asm :: "asm_env \<Rightarrow> instruction list \<Rightarrow> mach \<Rightarrow> mach option" where
  "run_asm env is m = (case decode_all is of None \<Rightarrow> None | Some cs \<Rightarrow> exec env cs m)"

lemma run_asm_append:
  "run_asm env xs m = Some m1 \<Longrightarrow> run_asm env ys m1 = Some m2 \<Longrightarrow> run_asm env (xs @ ys) m = Some m2"
  by (auto simp: run_asm_def decode_all_append exec_append split: option.splits)

lemma run_asm_Nil [simp]: "run_asm env [] m = Some m"
  by (simp add: run_asm_def)

lemma get_set_reg [mach_simps]:
  "r \<noteq> ZERO \<Longrightarrow> get_reg (set_reg r v m) r = v"
  "r \<noteq> r' \<Longrightarrow> get_reg (set_reg r' v m) r = get_reg m r"
  "mem (set_reg r v m) = mem m"
  "get_reg (m\<lparr>mem := mm\<rparr>) r = get_reg m r"
  by (simp_all add: get_reg_def set_reg_def)

end
