(* ===== verification/Invariants.thy ===== *)
theory Invariants
  imports Transpiler Machine
begin

text \<open>
  What every step of the transpiler keeps. \<open>code_ok\<close> says of one emitted instruction that the
  assembler accepts it, that a label it loads from is in the data section and that a routine it
  calls is exported by \<open>prover/resources/lib.asm\<close>; \<open>tr_inv\<close> lifts it to the transpiler, with the
  invariant of the data section, the storage labels and the call depth. \<open>tr_le\<close> says that a
  later state only extends an earlier one. The locale \<open>fallible_machine\<close> carries both from one
  step to a run of steps; \<open>tracing\<close> interprets it on the transpiler's own step over a trace.
\<close>

section \<open>The invariant\<close>

text \<open>The \<open>.global\<close> labels of \<open>prover/resources/lib.asm\<close>.\<close>

definition lib_globals :: "string list" where
  "lib_globals =
     [''add256_stack_scratch'', ''not256_stack_scratch'', ''shr256_stack_scratch'',
      ''shl256_stack_scratch'', ''slt256_stack_scratch'', ''eq256_stack_scratch'',
      ''gt256_stack_scratch'', ''lt256_stack_scratch'', ''mstore256_stack_scratch'',
      ''mload256_stack_scratch'', ''mul256_stack_scratch'', ''div256_stack_scratch'',
      ''sub256_stack_scratch'', ''and256_stack_scratch'', ''or256_stack_scratch'',
      ''xor256_stack_scratch'']"

fun operand_ok :: "data_section \<Rightarrow> rv \<Rightarrow> bool" where
  "operand_ok ds (I_la r l) = (resolve ds l \<noteq> None)"
| "operand_ok ds (I_call f) = (f \<in> set lib_globals)"
| "operand_ok ds _ = True"

definition code_ok :: "data_section \<Rightarrow> instruction list \<Rightarrow> bool" where
  "code_ok ds is = (case decode_all is of None \<Rightarrow> False | Some cs \<Rightarrow> list_all (operand_ok ds) cs)"

definition tr_inv :: "third_party \<Rightarrow> transpiler \<Rightarrow> bool" where
  "tr_inv L tr \<longleftrightarrow>
     pool_ok L (dataSection tr) \<and> code_ok (dataSection tr) (instructions tr) \<and>
     (\<forall>k l. keyToVar (storageSection tr) k = Some l \<longrightarrow> resolve (dataSection tr) l \<noteq> None) \<and>
     0 \<le> currentDepth tr"

definition tr_le :: "transpiler \<Rightarrow> transpiler \<Rightarrow> bool" where
  "tr_le tr tr' \<longleftrightarrow>
     (\<exists>is. instructions tr' = instructions tr @ is) \<and>
     (\<exists>vs. ds_values (dataSection tr') = ds_values (dataSection tr) @ vs) \<and>
     (\<exists>ms. debugMappings tr' = debugMappings tr @ ms) \<and>
     config tr' = config tr \<and> enableSnapshots tr' = enableSnapshots tr"

lemma tr_le_refl [simp]: "tr_le tr tr"
  by (simp add: tr_le_def)

lemma tr_le_trans: "tr_le a b \<Longrightarrow> tr_le b c \<Longrightarrow> tr_le a c"
  by (auto simp: tr_le_def)

section \<open>Emitted listings\<close>

lemma operand_ok_mono:
  assumes "\<And>l. resolve ds l \<noteq> None \<Longrightarrow> resolve ds' l \<noteq> None" and "operand_ok ds c"
  shows "operand_ok ds' c"
  using assms by (cases c) auto

lemma code_ok_mono:
  assumes "\<And>l. resolve ds l \<noteq> None \<Longrightarrow> resolve ds' l \<noteq> None" and "code_ok ds is"
  shows "code_ok ds' is"
  using assms operand_ok_mono[of ds ds']
  by (auto simp: code_ok_def list_all_iff split: option.splits)

lemma code_ok_append [simp]: "code_ok ds (xs @ ys) \<longleftrightarrow> code_ok ds xs \<and> code_ok ds ys"
  by (auto simp: code_ok_def decode_all_append split: option.splits)

lemma code_ok_Nil [simp]: "code_ok ds []"
  by (simp add: code_ok_def)

lemma code_ok_pops [simp]: "code_ok ds (pops n)"
  by (simp add: code_ok_def pops_def decode_pops list_all_iff)

lemma code_ok_gens [simp]:
  "code_ok ds (pushOpcode v)" "code_ok ds popStack" "code_ok ds [EBREAK_instr]"
  "code_ok ds saveStackContext" "code_ok ds createNewStackFrame" "code_ok ds restoreStackContext"
  "code_ok ds [instr ''NOP'' []]" "code_ok ds [instr ''addi'' [''sp'', ''s3'', ''0'']]"
  "code_ok ds [instr ''mv'' [''sp'', ''s2'']]" "code_ok ds [instr ''mv'' [''s3'', ''s2'']]"
  by (simp_all add: code_ok_def decode_simps EBREAK_instr_def)

lemma code_ok_calls [simp]:
  "code_ok ds add256Call" "code_ok ds mul256Call" "code_ok ds sub256Call" "code_ok ds div256Call"
  "code_ok ds and256Call" "code_ok ds or256Call" "code_ok ds xor256Call" "code_ok ds not256Call"
  "code_ok ds shr256Call" "code_ok ds shl256Call" "code_ok ds slt256Call" "code_ok ds eq256Call"
  "code_ok ds gt256Call" "code_ok ds lt256Call"
  by (simp_all add: code_ok_def decode_calls lib_globals_def)

lemma code_ok_dup [simp]:
  assumes "vm_DUP1 \<le> op" "op \<le> vm_DUP16"
  shows "code_ok ds (DupOpcode (word_of_nat (unat op - 0x7f)))"
proof -
  have "1 \<le> unat op - 0x7f" "unat op - 0x7f \<le> 16"
    using assms by (simp_all add: word_le_nat_alt)
  from decode_dup[OF this] show ?thesis unfolding code_ok_def by simp
qed

lemma code_ok_swap [simp]:
  assumes "vm_SWAP1 \<le> op" "op \<le> vm_SWAP16"
  shows "code_ok ds (SwapOpcode (word_of_nat (unat op - 0x8f)))"
proof -
  have "unat op - 0x8f \<le> 16"
    using assms by (simp add: word_le_nat_alt)
  from decode_swap[OF this] show ?thesis unfolding code_ok_def by simp
qed

lemma code_ok_load [simp]: "code_ok ds (loadFromDataSection l) \<longleftrightarrow> resolve ds l \<noteq> None"
  by (simp add: code_ok_def decode_load upt_rec)

section \<open>Single operations\<close>

text \<open>What a step may do to a state: fail, or extend it and keep the invariant.\<close>

definition steps_to :: "third_party \<Rightarrow> transpiler \<Rightarrow> transpiler \<Rightarrow> bool" where
  "steps_to L tr tr' \<longleftrightarrow> tr_le tr tr' \<and> (tr_inv L tr \<longrightarrow> tr_inv L tr')"

definition step_ok :: "third_party \<Rightarrow> transpiler \<Rightarrow> transpiler result \<Rightarrow> bool" where
  "step_ok L tr r \<longleftrightarrow> (case r of Inl e \<Rightarrow> True | Inr tr' \<Rightarrow> steps_to L tr tr')"

lemma step_ok_simps [simp]:
  "step_ok L tr (Inl e)" "step_ok L tr (Inr tr') \<longleftrightarrow> steps_to L tr tr'"
  by (simp_all add: step_ok_def)

lemma steps_to_refl [simp]: "steps_to L tr tr"
  by (simp add: steps_to_def)

lemma steps_to_trans: "steps_to L a b \<Longrightarrow> steps_to L b c \<Longrightarrow> steps_to L a c"
  using tr_le_trans by (auto simp: steps_to_def)

lemma steps_to_emit:
  assumes "\<And>ds. code_ok ds is"
  shows "steps_to L tr (emit is tr)"
  using assms by (simp add: steps_to_def tr_inv_def tr_le_def emit_def)

lemma steps_to_emits [simp]:
  "steps_to L tr (emit (pops n) tr)" "steps_to L tr (emit (pushOpcode v) tr)"
  "steps_to L tr (emit [EBREAK_instr] tr)" "steps_to L tr (emit saveStackContext tr)"
  "steps_to L tr (emit createNewStackFrame tr)" "steps_to L tr (emit restoreStackContext tr)"
  "steps_to L tr (emit [instr ''NOP'' []] tr)"
  "steps_to L tr (emit [instr ''addi'' [''sp'', ''s3'', ''0'']] tr)"
  "steps_to L tr (emit [instr ''mv'' [''sp'', ''s2'']] tr)"
  "steps_to L tr (emit [instr ''mv'' [''s3'', ''s2'']] tr)"
  by (rule steps_to_emit, simp)+

text \<open>A larger data section keeps everything that was there, and denotes the added value.\<close>

lemma Add_values: "Add L v d = (l, ds) \<Longrightarrow> \<exists>vs. ds_values ds = ds_values d @ vs"
  using values_Add[of L v d] by simp

lemma grow_data:
  assumes inv: "tr_inv L tr" and add: "Add L v (dataSection tr) = (l, ds)"
  shows "tr_inv L (tr\<lparr>dataSection := ds\<rparr>) \<and> resolve ds l = Some v"
proof -
  have ok: "pool_ok L (dataSection tr)"
    using inv by (simp add: tr_inv_def)
  have ds: "ds = snd (Add L v (dataSection tr))" "l = fst (Add L v (dataSection tr))"
    using add by simp_all
  have keep: "resolve ds n \<noteq> None" if "resolve (dataSection tr) n \<noteq> None" for n
    using that pool.denote_keep[OF ok] ds by fastforce
  have "pool_ok L ds" "resolve ds l = Some v"
    using pool.ok_add[OF ok] pool.denote_add[OF ok] ds by simp_all
  then show ?thesis
    using inv keep code_ok_mono[of "dataSection tr" ds] by (simp add: tr_inv_def)
qed

lemma steps_to_load_data:
  assumes "Add L v (dataSection tr) = (l, ds)"
  shows "steps_to L tr (emit (pops n @ loadFromDataSection l) (tr\<lparr>dataSection := ds\<rparr>))"
  using grow_data[OF _ assms] Add_values[OF assms]
  by (auto simp: steps_to_def tr_inv_def tr_le_def emit_def)

lemma steps_to_load_value [simp]: "steps_to L tr (load_value L v tr)"
  using steps_to_load_data[of L v tr _ _ 0] by (simp add: load_value_def pops_def split_beta)

lemma step_ok_traced [simp]: "step_ok L tr (traced L rs n nm tr)"
  by (auto simp: traced_def resultFromTraceCall_def Let_def intro: steps_to_load_data
           split: option.split prod.split)

lemma step_ok_host: "(\<And>ds. code_ok ds is) \<Longrightarrow> step_ok L tr (host tr is n)"
  by (simp add: host_def hostOptimizedOpcode_def steps_to_emit)

lemma step_ok_hosts [simp]:
  "step_ok L tr (host tr add256Call n)" "step_ok L tr (host tr mul256Call n)"
  "step_ok L tr (host tr sub256Call n)" "step_ok L tr (host tr div256Call n)"
  "step_ok L tr (host tr and256Call n)" "step_ok L tr (host tr or256Call n)"
  "step_ok L tr (host tr xor256Call n)" "step_ok L tr (host tr not256Call n)"
  "step_ok L tr (host tr shr256Call n)" "step_ok L tr (host tr shl256Call n)"
  "step_ok L tr (host tr slt256Call n)" "step_ok L tr (host tr eq256Call n)"
  "step_ok L tr (host tr gt256Call n)" "step_ok L tr (host tr lt256Call n)"
  by (rule step_ok_host, simp)+

lemma step_ok_bindR:
  "(\<And>x. r = Inr x \<Longrightarrow> step_ok L tr (f x)) \<Longrightarrow> step_ok L tr (bindR r f)"
  by (cases r) simp_all

lemma step_ok_later: "steps_to L a b \<Longrightarrow> step_ok L b r \<Longrightarrow> step_ok L a r"
  by (auto simp: step_ok_def intro: steps_to_trans split: sum.splits)

section \<open>The groups of cases\<close>

lemma step_ok_arith: "arith_cases L op rs tr = Some r \<Longrightarrow> step_ok L tr r"
  by (simp add: arith_cases_def split: if_splits; hypsubst; simp)

lemma step_ok_push: "push_cases L op args tr = Some r \<Longrightarrow> step_ok L tr r"
  by (auto simp: push_cases_def push_literal_def intro: step_ok_bindR split: if_splits)

lemma steps_to_stack: "stack_cases op tr = Some tr' \<Longrightarrow> steps_to L tr tr'"
  by (auto simp: stack_cases_def steps_to_emit split: if_splits)

lemma step_ok_pointers [simp]:
  "step_ok L tr (load_pointer L st field tr)"
  "step_ok L tr (load_address L st afield tr)"
  "step_ok L tr (load_size L st bfield tr)"
  by (simp_all add: load_pointer_def load_address_def load_size_def step_ok_bindR)

lemma step_ok_ISZERO: "step_ok L tr (host (emit (pushOpcode 0) tr) eq256Call 2)"
  by (rule step_ok_later[OF steps_to_emits(2)[of L tr 0]]) simp

lemma step_ok_env: "env_cases L op st rs tr = Some r \<Longrightarrow> step_ok L tr r"
  by (simp add: env_cases_def Let_def split: if_splits; hypsubst; simp add: step_ok_ISZERO)

lemma step_ok_code: "code_cases L op st rs tr = Some r \<Longrightarrow> step_ok L tr r"
  by (simp add: code_cases_def split: if_splits; hypsubst; simp)

text \<open>Call data and storage.\<close>

lemma Store_pair:
  "Store L ss ds key v = (l, ss', ds') \<Longrightarrow>
   (ss' = ss \<and> ds' = ds \<and> keyToVar ss key = Some l) \<or>
   (Add L v ds = (l, ds') \<and> ss' = ss\<lparr>keyToVar := (keyToVar ss)(key \<mapsto> l)\<rparr>)"
  by (auto simp: Store_def split: option.splits prod.splits)

lemma Load_pair:
  "Load L ss ds key = (l, ss', ds') \<Longrightarrow>
   (ss' = ss \<and> ds' = ds \<and> keyToVar ss key = Some l) \<or>
   (Add L 0 ds = (l, ds') \<and> ss' = ss\<lparr>keyToVar := (keyToVar ss)(key \<mapsto> l)\<rparr>)"
  by (auto simp: Load_def split: option.splits prod.splits)

lemma grow_storage:
  assumes res: "(ss' = storageSection tr \<and> ds' = dataSection tr \<and> keyToVar (storageSection tr) key = Some l) \<or>
      (Add L v (dataSection tr) = (l, ds') \<and>
       ss' = (storageSection tr)\<lparr>keyToVar := (keyToVar (storageSection tr))(key \<mapsto> l)\<rparr>)"
  shows "tr_le tr (tr\<lparr>storageSection := ss', dataSection := ds'\<rparr>) \<and>
    (tr_inv L tr \<longrightarrow> tr_inv L (tr\<lparr>storageSection := ss', dataSection := ds'\<rparr>) \<and> resolve ds' l \<noteq> None)"
  using res
proof
  assume "ss' = storageSection tr \<and> ds' = dataSection tr \<and> keyToVar (storageSection tr) key = Some l"
  then show ?thesis by (auto simp: tr_inv_def tr_le_def)
next
  assume new: "Add L v (dataSection tr) = (l, ds') \<and>
       ss' = (storageSection tr)\<lparr>keyToVar := (keyToVar (storageSection tr))(key \<mapsto> l)\<rparr>"
  from grow_data[OF _ conjunct1[OF new]] Add_values[OF conjunct1[OF new]] new show ?thesis
    by (auto simp: tr_inv_def tr_le_def)
qed

lemma steps_to_pops: "steps_to L (emit (pops n) tr) tr' \<Longrightarrow> steps_to L tr tr'"
  by (rule steps_to_trans[OF steps_to_emits(1)])

lemma step_ok_store [simp]: "step_ok L tr (store_case L snapshot tr)"
proof -
  let ?tr = "emit (pops 2) tr"
  have "steps_to L ?tr (?tr\<lparr>storageSection := ss, dataSection := ds\<rparr>)"
    if "Store L (storageSection ?tr) (dataSection ?tr) k v = (l, ss, ds)" for k v l ss ds
    using grow_storage[OF Store_pair[OF that]] by (simp add: steps_to_def)
  from steps_to_pops[OF this] show ?thesis
    by (auto simp: store_case_def Let_def intro!: step_ok_bindR split: prod.split)
qed

lemma step_ok_loadc [simp]: "step_ok L tr (load_case L snapshot tr)"
proof -
  let ?tr = "emit (pops 1) tr"
  have "steps_to L ?tr (emit (loadFromDataSection l) (?tr\<lparr>storageSection := ss, dataSection := ds\<rparr>))"
    if "Load L (storageSection ?tr) (dataSection ?tr) k = (l, ss, ds)" for k l ss ds
  proof -
    have "tr_le t (emit cs t)" for t cs
      by (simp add: tr_le_def emit_def)
    moreover have "tr_inv L t \<Longrightarrow> resolve (dataSection t) l \<noteq> None \<Longrightarrow>
        tr_inv L (emit (loadFromDataSection l) t)" for t
      by (simp add: tr_inv_def emit_def)
    ultimately show ?thesis
      using grow_storage[OF Load_pair[OF that]] tr_le_trans
      unfolding steps_to_def by fastforce
  qed
  from steps_to_pops[OF this] show ?thesis
    by (auto simp: load_case_def Let_def intro!: step_ok_bindR split: prod.split)
qed

lemma calldataloadCall_Inr:
  assumes "calldataloadCall L offset cd tr = Inr (is, tr')"
  obtains v l ds where "Add L v (dataSection tr) = (l, ds)" "is = loadFromDataSection l"
    "tr' = tr\<lparr>dataSection := ds\<rparr>"
proof -
  from assms obtain v where
    "(case Add L v (dataSection tr) of (l, ds) \<Rightarrow>
        (loadFromDataSection l, tr\<lparr>dataSection := ds\<rparr>)) = (is, tr')"
    unfolding calldataloadCall_def Let_def bindR_eq_Inr by (auto simp: split_beta)
  then show ?thesis
    using that[of v] by (cases "Add L v (dataSection tr)") simp
qed

lemma step_ok_calldataload [simp]: "step_ok L tr (CALLDATALOAD_case L snapshot st tr)"
proof -
  let ?tr = "emit (pops 1) tr"
  have "steps_to L ?tr (emit (loadFromDataSection l) (?tr\<lparr>dataSection := ds\<rparr>))"
    if "Add L v (dataSection ?tr) = (l, ds)" for v l ds
    using steps_to_load_data[OF that, of 0] by (simp add: pops_def)
  from steps_to_pops[OF this] show ?thesis
    by (auto simp: CALLDATALOAD_case_def intro!: step_ok_bindR elim!: calldataloadCall_Inr)
qed

lemma step_ok_data: "data_cases L op snapshot st rs tr = Some r \<Longrightarrow> step_ok L tr r"
  by (simp add: data_cases_def split: if_splits; hypsubst; simp)

text \<open>Halting and calling.\<close>

lemma steps_to_debug [simp]: "steps_to L tr (storeDebugInfo L n op tr)"
  by (simp add: storeDebugInfo_def steps_to_def tr_inv_def tr_le_def)

lemma steps_to_then_debug: "steps_to L tr tr' \<Longrightarrow> steps_to L tr (storeDebugInfo L n op tr')"
  by (rule steps_to_trans[OF _ steps_to_debug])

lemma steps_to_halt [simp]: "steps_to L tr (halt_tail tr)"
  by (auto simp: halt_tail_def Let_def intro: steps_to_trans[OF steps_to_emits(8)])

lemma steps_to_halts: "halt_cases L op tr = Some tr' \<Longrightarrow> steps_to L tr tr'"
  by (auto simp: halt_cases_def Let_def intro!: steps_to_then_debug intro: steps_to_pops[where n = 2]
      split: if_splits)

lemma steps_to_depth [simp]:
  "steps_to L tr (tr\<lparr>currentDepth := currentDepth tr + 1\<rparr>)"
  "currentDepth tr > 0 \<Longrightarrow> steps_to L tr (tr\<lparr>currentDepth := currentDepth tr - 1\<rparr>)"
  by (simp_all add: steps_to_def tr_inv_def tr_le_def)

lemma steps_to_enter [simp]: "steps_to L tr (enter_call n tr)"
proof -
  have "steps_to L (emit saveStackContext t) (emit createNewStackFrame (emit saveStackContext t))" for t
    by simp
  then have "steps_to L t (emit createNewStackFrame (emit saveStackContext t))" for t
    by (rule steps_to_trans[OF steps_to_emits(4)])
  then show ?thesis
    by (auto simp: enter_call_def Let_def
        intro: steps_to_trans[OF _ steps_to_depth(1)] steps_to_pops[where n = n])
qed

text \<open>
  Memory copies emit their offsets as literals, which the 32-bit assembler rejects from \<open>2 ^ 32\<close> on.
  The production configuration drops them; elsewhere the copy has to stay in the first \<open>2 ^ 32\<close>
  bytes of memory.
\<close>

definition mcopy_off :: "transpiler_config \<Rightarrow> evm_instruction_metadata \<Rightarrow> bool" where
  "mcopy_off cfg op \<longleftrightarrow> DisableMCopyOperations cfg \<or> Opcode op \<noteq> vm_MCOPY"

definition copy_fits :: "u256 list \<Rightarrow> bool" where
  "copy_fits snapshot \<longleftrightarrow>
     (case snapshot of
        n # src # dest # _ \<Rightarrow>
          unat (ucast src :: u64) + unat (ucast n :: u64) \<le> 2 ^ 32 \<and>
          unat (ucast dest :: u64) + unat (ucast n :: u64) \<le> 2 ^ 32
      | _ \<Rightarrow> True)"

definition mcopy_fits :: "transpiler_config \<Rightarrow> evm_instruction_metadata \<Rightarrow> bool" where
  "mcopy_fits cfg op \<longleftrightarrow> mcopy_off cfg op \<or> copy_fits (StackSnapshot op)"

lemma mcopy_off_fits: "mcopy_off cfg op \<Longrightarrow> mcopy_fits cfg op"
  by (simp add: mcopy_fits_def)

lemma code_ok_concat: "(\<And>is. is \<in> set iss \<Longrightarrow> code_ok ds is) \<Longrightarrow> code_ok ds (concat iss)"
  by (induction iss) simp_all

lemma code_ok_mcopy:
  assumes "unat (s :: u64) + unat n \<le> 2 ^ 32" and "unat (d :: u64) + unat n \<le> 2 ^ 32"
  shows "code_ok ds (mcopyCall d s n)"
proof -
  have lit: "read_imm32 (show_nat (unat (a + word_of_nat i))) = Some (int (unat a + i))"
    if "unat a + unat n \<le> 2 ^ 32" "i < unat n" for a :: u64 and i
  proof -
    have "unat (a + word_of_nat i) = unat a + i" using that by (simp add: unat_word_ariths unat_of_nat take_bit_nat_eq_self)
    with that show ?thesis by (simp add: read_imm32_show_nat)
  qed
  have "code_ok ds [instr ''li'' [''t0'', show_nat (unat (s + word_of_nat i))], instr ''lb'' [''t1'', ''0(t0)''],
      instr ''li'' [''t2'', show_nat (unat (d + word_of_nat i))], instr ''sb'' [''t1'', ''0(t2)'']]" if "i < unat n" for i
    using lit[OF assms(1) that] lit[OF assms(2) that] by (simp add: code_ok_def decode_simps del: of_nat_add)
  then show ?thesis by (auto simp: mcopyCall_def intro!: code_ok_concat)
qed

lemma emit_config [simp]: "config (emit is tr) = config tr"
  by (simp add: emit_def)

lemma step_ok_MCOPY:
  assumes "DisableMCopyOperations (config tr) \<or> copy_fits snapshot"
  shows "step_ok L tr (MCOPY_case snapshot tr)"
proof -
  have emits: "steps_to L tr (emit (mcopyCall (ucast (snapshot ! 2)) (ucast (snapshot ! 1)) (ucast (snapshot ! 0))) (emit (pops 3) tr))"
    if fits: "copy_fits snapshot" and len: "2 < length snapshot"
  proof -
    obtain n s d r where sn: "snapshot = n # s # d # r"
      using len by (cases snapshot; cases "tl snapshot"; cases "tl (tl snapshot)") auto
    with fits have "code_ok ds (mcopyCall (ucast d) (ucast s) (ucast n))" for ds
      by (intro code_ok_mcopy) (simp_all add: copy_fits_def)
    then show ?thesis unfolding sn by (simp add: steps_to_trans[OF steps_to_pops[where n = 3] steps_to_emit])
  qed
  show ?thesis
    using assms emits by (auto simp: MCOPY_case_def Let_def go_index_def)
qed

lemma step_ok_call:
  "call_cases L (Opcode op) (StackSnapshot op) st rs tr = Some r \<Longrightarrow> mcopy_fits (config tr) op \<Longrightarrow> step_ok L tr r"
  by (simp add: call_cases_def mcopy_fits_def mcopy_off_def split: if_splits; hypsubst; simp add: step_ok_MCOPY)

lemma step_ok_switch: "mcopy_fits (config tr) op \<Longrightarrow> step_ok L tr (switch_opcode L op st rs tr)"
  by (auto simp: switch_opcode_def steps_to_stack dest: step_ok_arith step_ok_push step_ok_env
      step_ok_code step_ok_data step_ok_call split: option.split)

lemma steps_to_restore [simp]: "steps_to L tr (stack_restore op tr)"
proof -
  define t1 where "t1 = (if currentDepth tr > 0 then tr\<lparr>currentDepth := currentDepth tr - 1\<rparr> else tr)"
  define t2 where "t2 = (if \<not> DisableCallContextSeparation (config t1)
    then emit restoreStackContext t1 else t1)"
  define t3 where "t3 = (case Result op of
    Some v \<Rightarrow> emit (pushOpcode (ucast (ucast v :: u64))) t2 | None \<Rightarrow> t2)"
  have "steps_to L tr t1" "steps_to L t1 t2" "steps_to L t2 t3" "steps_to L t3 (emit [EBREAK_instr] t3)"
    by (simp_all add: t1_def t2_def t3_def split: option.split)
  then have "steps_to L tr (emit [EBREAK_instr] t3)"
    by (blast intro: steps_to_trans)
  moreover have "steps_to L t (t\<lparr>debugMappings := debugMappings t @ ms\<rparr>)" for t ms
    by (simp add: steps_to_def tr_inv_def tr_le_def)
  ultimately show ?thesis
    unfolding stack_restore_def Let_def t1_def[symmetric] t2_def[symmetric] t3_def[symmetric]
    by (auto intro: steps_to_trans)
qed

lemma step_ok_AddInstruction:
  assumes "mcopy_fits (config tr) op"
  shows "step_ok L tr (AddInstructionWithResult L op st rs tr)"
proof -
  have "step_ok L tr (bindR (switch_opcode L op st rs tr) (\<lambda>tr'.
      Inr (storeDebugInfo L n (Opcode op) (emit [EBREAK_instr] tr'))))" for n
    using step_ok_switch[OF assms, of L st rs]
    by (auto intro!: step_ok_bindR steps_to_then_debug intro: steps_to_trans[OF _ steps_to_emits(3)])
  then show ?thesis
    by (auto simp: AddInstructionWithResult_def steps_to_halts split: option.split)
qed

end
