(* ===== verification/Runs.thy ===== *)
theory Runs
  imports Prelude
begin

text \<open>
  Runs of steps that may fail. A \<open>fallible_machine\<close> is a step function with an invariant that
  every successful step keeps and a preorder that every successful step respects; a run stops
  at the first failure. The transpiler over a trace, the transactions of a block and the tracer
  are clients.
\<close>

locale fallible_machine =
  fixes step :: "'e \<Rightarrow> 's \<Rightarrow> 's result"
    and inv :: "'s \<Rightarrow> bool"
    and le :: "'s \<Rightarrow> 's \<Rightarrow> bool"
  assumes inv_step: "inv s \<Longrightarrow> step e s = Inr s' \<Longrightarrow> inv s'"
    and le_step: "step e s = Inr s' \<Longrightarrow> le s s'"
    and le_refl: "le s s"
    and le_trans: "le a b \<Longrightarrow> le b c \<Longrightarrow> le a c"
begin

fun run :: "'e list \<Rightarrow> 's \<Rightarrow> 's result" where
  "run [] s = Inr s"
| "run (e # es) s = bindR (step e s) (run es)"

lemma run_append: "run (es @ es') s = bindR (run es s) (run es')"
  by (induction es arbitrary: s) (auto simp: bindR_def split: sum.split)

lemma run_inv: "inv s \<Longrightarrow> run es s = Inr s' \<Longrightarrow> inv s'"
  by (induction es arbitrary: s) (auto intro: inv_step)

lemma run_le: "run es s = Inr s' \<Longrightarrow> le s s'"
  by (induction es arbitrary: s) (auto intro: le_refl le_trans le_step)

text \<open>A run that fails does so at one step, the steps before it having succeeded.\<close>

lemma run_fails:
  "run es s = Inl x \<Longrightarrow>
   \<exists>es1 e es2 s1. es = es1 @ e # es2 \<and> run es1 s = Inr s1 \<and> step e s1 = Inl x"
proof (induction es arbitrary: s)
  case Nil
  then show ?case by simp
next
  case (Cons e es)
  show ?case
  proof (cases "step e s")
    case (Inl y)
    with Cons.prems have "step e s = Inl x" by simp
    moreover have "run [] s = Inr s" by simp
    ultimately show ?thesis by (metis append_Nil)
  next
    case (Inr t)
    with Cons.prems have "run es t = Inl x" by simp
    from Cons.IH[OF this] obtain es1 e' es2 s1
      where *: "es = es1 @ e' # es2" "run es1 t = Inr s1" "step e' s1 = Inl x" by blast
    have "run (e # es1) s = Inr s1" using Inr *(2) by simp
    with * show ?thesis by (metis append_Cons)
  qed
qed

text \<open>Every prefix of a successful run succeeds.\<close>

lemma run_prefix: "run (es @ es') s = Inr s' \<Longrightarrow> \<exists>s1. run es s = Inr s1 \<and> le s s1 \<and> le s1 s'"
  by (auto simp: run_append intro: run_le)

end

end
