(* ===== verification/Execution.thy ===== *)
theory Execution
  imports Invariants Runs
begin

text \<open>
  Properties of a whole transpilation: \<open>ProcessExecution\<close> as a run of the locale
  \<open>fallible_machine\<close>, the invariant of every state it reaches, what it appends, the snapshots and
  the debug mappings it collects, its failures, and the transaction boundary.
\<close>

section \<open>The transpiler as a fallible machine\<close>

text \<open>The step at position \<open>i\<close> of a trace.\<close>

definition trace_step :: "third_party \<Rightarrow> evm_instruction_metadata list \<Rightarrow> evm_execution_state option
    \<Rightarrow> nat \<Rightarrow> transpiler \<Rightarrow> transpiler result" where
  "trace_step L ins st i tr =
     bindR (result_stack ins i) (\<lambda>rs. bindR (go_index ins i) (\<lambda>op.
       AddInstructionWithResult L op st rs tr))"

definition trace_inv :: "third_party \<Rightarrow> evm_instruction_metadata list \<Rightarrow> transpiler \<Rightarrow> bool" where
  "trace_inv L ins tr \<longleftrightarrow> tr_inv L tr \<and> list_all (mcopy_fits (config tr)) ins"

lemma MCOPY_le: "MCOPY_case snapshot tr = Inr tr' \<Longrightarrow> tr_le tr tr'"
  by (auto simp: MCOPY_case_def Let_def tr_le_def emit_def split: if_splits)

lemma switch_MCOPY:
  "Opcode op = vm_MCOPY \<Longrightarrow> switch_opcode L op st rs tr = MCOPY_case (StackSnapshot op) tr"
  by (simp add: switch_opcode_def arith_cases_def push_cases_def stack_cases_def env_cases_def
      code_cases_def data_cases_def call_cases_def)

lemma AddInstruction_le:
  assumes "AddInstructionWithResult L op st rs tr = Inr tr'"
  shows "tr_le tr tr'"
proof (cases "mcopy_fits (config tr) op")
  case True
  from step_ok_AddInstruction[OF this, of L st rs] assms show ?thesis
    by (simp add: steps_to_def)
next
  case False
  then have op: "Opcode op = vm_MCOPY" by (simp add: mcopy_fits_def mcopy_off_def)
  show ?thesis
  proof (cases "IsStackRestore op")
    case True
    with assms steps_to_restore[of L tr op] show ?thesis
      by (simp add: AddInstructionWithResult_def steps_to_def)
  next
    case False
    with assms op obtain t where t: "MCOPY_case (StackSnapshot op) tr = Inr t"
      "tr' = storeDebugInfo L (length (instructions tr)) vm_MCOPY (emit [EBREAK_instr] t)"
      by (auto simp: AddInstructionWithResult_def halt_cases_def switch_MCOPY)
    have "steps_to L t tr'"
      unfolding t(2) by (rule steps_to_then_debug) simp
    with MCOPY_le[OF t(1)] show ?thesis
      by (auto simp: steps_to_def intro: tr_le_trans)
  qed
qed

lemma trace_step_le: "trace_step L ins st i tr = Inr tr' \<Longrightarrow> tr_le tr tr'"
  by (auto simp: trace_step_def intro: AddInstruction_le)

lemma trace_step_inv:
  assumes "trace_inv L ins tr" and "trace_step L ins st i tr = Inr tr'"
  shows "trace_inv L ins tr'"
proof -
  obtain rs where i: "i < length ins" and step: "AddInstructionWithResult L (ins ! i) st rs tr = Inr tr'"
    using assms(2) by (auto simp: trace_step_def go_index_eq_Inr)
  have "mcopy_fits (config tr) (ins ! i)"
    using assms(1) i by (simp add: trace_inv_def list_all_length)
  from step_ok_AddInstruction[OF this, of L st rs] step assms(1) show ?thesis
    by (simp add: steps_to_def trace_inv_def tr_le_def)
qed

interpretation tracing: fallible_machine "trace_step L ins st" "trace_inv L ins" tr_le for L ins st
  by unfold_locales (blast intro: trace_step_inv trace_step_le tr_le_trans tr_le_refl)+

text \<open>\<open>ProcessExecution\<close> is a run over the positions of the trace, and collects snapshots.\<close>

lemma process_steps_run:
  "bindR (process_steps L ins st is (tr, sn)) (\<lambda>p. Inr (fst p)) = tracing.run L ins st is tr"
proof (induction "is" arbitrary: tr sn)
  case Nil
  show ?case by simp
next
  case (Cons i "is")
  then show ?case
    by (simp add: trace_step_def[of L ins st i tr] bindR_assoc)
qed

lemma ProcessExecution_run:
  "bindR (ProcessExecution L ins st tr) (\<lambda>p. Inr (fst p)) = tracing.run L ins st [0..<length ins] tr"
  by (simp add: ProcessExecution_def process_steps_run)

lemma ProcessExecution_Inr:
  "ProcessExecution L ins st tr = Inr (tr', sn) \<Longrightarrow> tracing.run L ins st [0..<length ins] tr = Inr tr'"
  using ProcessExecution_run[of L ins st tr] by simp

lemma ProcessExecution_Inl:
  "ProcessExecution L ins st tr = Inl e \<Longrightarrow> tracing.run L ins st [0..<length ins] tr = Inl e"
  using ProcessExecution_run[of L ins st tr] by simp

lemma process_steps_Inr:
  assumes "tracing.run L ins st is tr = Inr tr'"
  shows "\<exists>sn'. process_steps L ins st is (tr, sn) = Inr (tr', sn')"
  using assms process_steps_run[of L ins st "is" tr sn]
  by (cases "process_steps L ins st is (tr, sn)") auto

lemma process_steps_snapshots:
  "process_steps L ins st is (tr, sn) = Inr (tr', sn') \<Longrightarrow>
   sn' = sn @ (if enableSnapshots tr
     then map (\<lambda>i. StackSnapshot (ins ! i)) (filter (\<lambda>i. 0 < i) is) else [])"
proof (induction "is" arbitrary: tr sn)
  case Nil
  then show ?case by simp
next
  case (Cons i "is")
  from Cons.prems obtain rs op t where step: "AddInstructionWithResult L op st rs tr = Inr t"
    and op: "op = ins ! i"
    and rest: "process_steps L ins st is
      (t, if 0 < i \<and> enableSnapshots t then sn @ [StackSnapshot op] else sn) = Inr (tr', sn')"
    by (auto simp: go_index_eq_Inr)
  have "enableSnapshots t = enableSnapshots tr"
    using AddInstruction_le[OF step] by (simp add: tr_le_def)
  with Cons.IH[OF rest] op show ?case by auto
qed

section \<open>Initial states\<close>

lemma tr_inv_new: "hex_injective L \<Longrightarrow> tr_inv L (NewTranspilerWithConfig cfg)"
  by (simp add: tr_inv_def NewTranspilerWithConfig_def pool_ok_def ds_inv_new NewStorageSection_def)

lemma tr_inv_snapshots [simp]: "tr_inv L (EnableSnapshots tr) = tr_inv L tr"
  by (simp add: tr_inv_def EnableSnapshots_def)

section \<open>Debug mappings\<close>

text \<open>The cases of the switch record nothing; the instructions they emit come with one record.\<close>

definition quiet :: "transpiler \<Rightarrow> transpiler result \<Rightarrow> bool" where
  "quiet tr res \<longleftrightarrow> (case res of Inl e \<Rightarrow> True
     | Inr tr' \<Rightarrow> debugMappings tr' = debugMappings tr \<and> config tr' = config tr \<and>
         currentDepth tr' = currentDepth tr)"

definition call_opcodes :: "opcode list" where
  "call_opcodes = [vm_CALL, vm_DELEGATECALL, vm_STATICCALL, vm_CALLCODE]"

definition next_depth :: "evm_instruction_metadata \<Rightarrow> int \<Rightarrow> int" where
  "next_depth m d =
     (if IsStackRestore m then (if d > 0 then d - 1 else d)
      else if Opcode m \<in> set call_opcodes then d + 1 else d)"

lemma emit_keeps [simp]:
  "debugMappings (emit is tr) = debugMappings tr" "currentDepth (emit is tr) = currentDepth tr"
  "storageSection (emit is tr) = storageSection tr" "dataSection (emit is tr) = dataSection tr"
  "enableSnapshots (emit is tr) = enableSnapshots tr"
  "instructions (emit is tr) = instructions tr @ is"
  by (simp_all add: emit_def)

lemma quiet_simps [simp]:
  "quiet tr (Inl e)"
  "quiet tr (Inr tr') \<longleftrightarrow> debugMappings tr' = debugMappings tr \<and> config tr' = config tr \<and>
     currentDepth tr' = currentDepth tr"
  by (simp_all add: quiet_def)

lemma quiet_bindR: "(\<And>x. r = Inr x \<Longrightarrow> quiet tr (f x)) \<Longrightarrow> quiet tr (bindR r f)"
  by (cases r) simp_all

lemma quiet_parts [simp]:
  "debugMappings (load_value L v tr) = debugMappings tr" "config (load_value L v tr) = config tr"
  "currentDepth (load_value L v tr) = currentDepth tr"
  "quiet tr (traced L rs n nm tr)" "quiet tr (host tr cs n)"
  "quiet tr (load_pointer L st pf tr)" "quiet tr (load_address L st af tr)"
  "quiet tr (load_size L st bf tr)" "quiet tr (push_literal w tr)"
  "debugMappings (enter_call n tr) = debugMappings tr" "config (enter_call n tr) = config tr"
  "currentDepth (enter_call n tr) = currentDepth tr + 1"
  by (auto simp: load_value_def traced_def resultFromTraceCall_def host_def load_pointer_def
      load_address_def load_size_def push_literal_def enter_call_def Let_def
      intro!: quiet_bindR split: option.split prod.split)

lemma quiet_data [simp]:
  "quiet tr (store_case L snapshot tr)" "quiet tr (load_case L snapshot tr)"
  "quiet tr (CALLDATALOAD_case L snapshot st tr)" "quiet tr (MCOPY_case snapshot tr)"
  by (auto simp: store_case_def load_case_def CALLDATALOAD_case_def MCOPY_case_def Let_def
      intro!: quiet_bindR elim!: calldataloadCall_Inr split: prod.split)

lemma quiet_ISZERO: "quiet tr (host (emit (pushOpcode 0) tr) eq256Call 2)"
  by (simp add: host_def)

lemma quiet_groups:
  "arith_cases L op rs tr = Some res \<Longrightarrow> quiet tr res"
  "push_cases L op args tr = Some res \<Longrightarrow> quiet tr res"
  "stack_cases op tr = Some tr' \<Longrightarrow> quiet tr (Inr tr')"
  "env_cases L op st rs tr = Some res \<Longrightarrow> quiet tr res"
  "code_cases L op st rs tr = Some res \<Longrightarrow> quiet tr res"
  "data_cases L op snapshot st rs tr = Some res \<Longrightarrow> quiet tr res"
  "call_cases L op snapshot st rs tr = Some res \<Longrightarrow> op \<notin> set call_opcodes \<Longrightarrow> quiet tr res"
  "call_cases L op snapshot st rs tr = Some res \<Longrightarrow> op \<in> set call_opcodes \<Longrightarrow>
     \<exists>n. res = Inr (enter_call n tr)"
  by (auto simp: arith_cases_def push_cases_def stack_cases_def env_cases_def code_cases_def
      data_cases_def call_cases_def call_opcodes_def Let_def quiet_ISZERO split: if_splits)

lemma call_not_earlier:
  assumes "op \<in> set call_opcodes"
  shows "arith_cases L op rs tr = None" "push_cases L op args tr = None" "stack_cases op tr = None"
    "env_cases L op st rs tr = None" "code_cases L op st rs tr = None"
    "data_cases L op snapshot st rs tr = None" "halt_cases L op tr = None"
  using assms unfolding call_opcodes_def
  by (auto simp: arith_cases_def push_cases_def stack_cases_def env_cases_def code_cases_def
      data_cases_def halt_cases_def word_le_nat_alt Let_def)

lemma quiet_switch: "Opcode op \<notin> set call_opcodes \<Longrightarrow> quiet tr (switch_opcode L op st rs tr)"
  by (auto simp: switch_opcode_def dest: quiet_groups split: option.split)

lemma switch_call:
  assumes "Opcode op \<in> set call_opcodes" and "switch_opcode L op st rs tr = Inr tr'"
  shows "\<exists>n. tr' = enter_call n tr"
proof -
  obtain res where res: "call_cases L (Opcode op) (StackSnapshot op) st rs tr = Some res"
    using assms(1) by (auto simp: call_cases_def call_opcodes_def)
  with assms(2) have "res = Inr tr'"
    by (simp add: switch_opcode_def call_not_earlier[OF assms(1)])
  with quiet_groups(8)[OF res assms(1)] show ?thesis by simp
qed

lemma switch_keeps:
  assumes "switch_opcode L op st rs tr = Inr tr'"
  shows "debugMappings tr' = debugMappings tr" "config tr' = config tr"
    "currentDepth tr' = currentDepth tr + (if Opcode op \<in> set call_opcodes then 1 else 0)"
  using assms quiet_switch[of op tr L st rs] switch_call[OF _ assms]
  by (cases "Opcode op \<in> set call_opcodes"; fastforce)+

text \<open>The records of the debug mappings, put together, are the instructions.\<close>

definition mapped :: "transpiler \<Rightarrow> instruction list" where
  "mapped tr = concat (map RiscVInstructions (debugMappings tr))"

lemma AddInstruction_record:
  assumes "AddInstructionWithResult L op st rs tr = Inr tr'" and "\<not> DisableDebugMappings (config tr)"
  shows "tr' = tr \<or> (\<exists>m. debugMappings tr' = debugMappings tr @ [m] \<and>
      RiscVInstructions m = drop (length (instructions tr)) (instructions tr') \<and>
      DataVariables m = getDataSectionSnapshot tr')"
proof (cases "IsStackRestore op")
  case True
  with assms show ?thesis
    by (auto simp: AddInstructionWithResult_def stack_restore_def Let_def getDataSectionSnapshot_def
        split: option.splits)
next
  case False
  note restore = this
  show ?thesis
  proof (cases "halt_cases L (Opcode op) tr")
    case (Some t)
    with assms restore show ?thesis
      by (auto simp: AddInstructionWithResult_def halt_cases_def halt_tail_def storeDebugInfo_def Let_def
          getDataSectionSnapshot_def split: if_splits)
  next
    case None
    with assms(1) restore obtain t where t: "switch_opcode L op st rs tr = Inr t"
      "tr' = storeDebugInfo L (length (instructions tr)) (Opcode op) (emit [EBREAK_instr] t)"
      by (auto simp: AddInstructionWithResult_def)
    with switch_keeps[OF t(1)] assms(2) show ?thesis
      by (auto simp: storeDebugInfo_def getDataSectionSnapshot_def)
  qed
qed

lemma AddInstruction_mapped:
  assumes "AddInstructionWithResult L op st rs tr = Inr tr'" and "\<not> DisableDebugMappings (config tr)"
  shows "\<exists>is. instructions tr' = instructions tr @ is \<and> mapped tr' = mapped tr @ is"
  using AddInstruction_record[OF assms] AddInstruction_le[OF assms(1)] by (auto simp: mapped_def tr_le_def)

lemma AddInstruction_depth:
  assumes "AddInstructionWithResult L op st rs tr = Inr tr'"
  shows "currentDepth tr' = next_depth op (currentDepth tr)"
proof (cases "IsStackRestore op")
  case True
  with assms show ?thesis
    by (auto simp: AddInstructionWithResult_def stack_restore_def next_depth_def Let_def split: option.splits)
next
  case restore: False
  show ?thesis
  proof (cases "halt_cases L (Opcode op) tr")
    case (Some t)
    then have "Opcode op \<notin> set call_opcodes" "currentDepth t = currentDepth tr"
      using call_not_earlier(7)[of "Opcode op" L tr]
      by (auto simp: halt_cases_def halt_tail_def storeDebugInfo_def Let_def split: if_splits)
    with Some assms restore show ?thesis
      by (simp add: AddInstructionWithResult_def next_depth_def)
  next
    case None
    with assms restore obtain t where t: "switch_opcode L op st rs tr = Inr t"
      "tr' = storeDebugInfo L (length (instructions tr)) (Opcode op) (emit [EBREAK_instr] t)"
      by (auto simp: AddInstructionWithResult_def)
    with switch_keeps(3)[OF t(1)] restore show ?thesis
      by (simp add: storeDebugInfo_def next_depth_def)
  qed
qed

end
