(* ===== verification/StackCode.thy ===== *)
theory StackCode
  imports Invariants
begin

text \<open>
  What the generated stack code computes. \<open>stack_op\<close> is the abstract instruction set the
  generators of Codegen implement, \<open>low_op\<close> its meaning on the low 32-bit words of the stack
  (top first) with room for \<open>cap\<close> slots, and \<open>lowers\<close> says which listing implements an abstract
  instruction. \<open>low_rel\<close> relates an abstract stack to a machine state whose stack pointer walks
  32-byte slots down from \<open>lo + 32 * cap\<close>, the data section lying below \<open>lo\<close>. The locale
  \<open>simulation\<close> lifts a one-step simulation to runs; \<open>stack_sim\<close> interprets it on the machine.
\<close>

section \<open>Abstract stack instructions\<close>

datatype stack_op = Pop | PushWord u32 | PushValue u256 | Dup nat | Swap nat | Mark

fun low_op :: "nat \<Rightarrow> stack_op \<Rightarrow> u32 list \<Rightarrow> u32 list option" where
  "low_op cap Pop ws = (case ws of [] \<Rightarrow> None | _ # ws' \<Rightarrow> Some ws')"
| "low_op cap (PushWord w) ws = (if length ws < cap then Some (w # ws) else None)"
| "low_op cap (PushValue v) ws = (if length ws < cap then Some (word_at 0 v # ws) else None)"
| "low_op cap (Dup k) ws =
     (if 1 \<le> k \<and> k \<le> 16 \<and> k \<le> length ws \<and> length ws < cap then Some (ws ! (k - 1) # ws) else None)"
| "low_op cap (Swap k) ws =
     (if 1 \<le> k \<and> k \<le> 16 \<and> k < length ws then Some (ws[0 := ws ! k, k := ws ! 0]) else None)"
| "low_op cap Mark ws = Some ws"

fun lowers :: "data_section \<Rightarrow> stack_op \<Rightarrow> instruction list \<Rightarrow> bool" where
  "lowers ds Pop is = (is = popStack)"
| "lowers ds (PushWord w) is = (is = pushOpcode w)"
| "lowers ds (PushValue v) is = (\<exists>l. resolve ds l = Some v \<and> is = loadFromDataSection l)"
| "lowers ds (Dup k) is = (is = DupOpcode (word_of_nat k))"
| "lowers ds (Swap k) is = (is = SwapOpcode (word_of_nat k))"
| "lowers ds Mark is = (is = [EBREAK_instr] \<or> is = [instr ''NOP'' []])"

section \<open>Simulation\<close>

locale simulation =
  fixes astep :: "'i \<Rightarrow> 'a \<Rightarrow> 'a option"
    and cstep :: "'c \<Rightarrow> 'm \<Rightarrow> 'm option"
    and impl :: "'i \<Rightarrow> 'c \<Rightarrow> bool"
    and rel :: "'a \<Rightarrow> 'm \<Rightarrow> bool"
  assumes simulates:
    "impl i c \<Longrightarrow> rel a m \<Longrightarrow> astep i a = Some a' \<Longrightarrow> \<exists>m'. cstep c m = Some m' \<and> rel a' m'"
begin

fun aruns :: "'i list \<Rightarrow> 'a \<Rightarrow> 'a option" where
  "aruns [] a = Some a"
| "aruns (i # is) a = Option.bind (astep i a) (aruns is)"

fun cruns :: "'c list \<Rightarrow> 'm \<Rightarrow> 'm option" where
  "cruns [] m = Some m"
| "cruns (c # cs) m = Option.bind (cstep c m) (cruns cs)"

lemma runs:
  "list_all2 impl is cs \<Longrightarrow> rel a m \<Longrightarrow> aruns is a = Some a' \<Longrightarrow>
   \<exists>m'. cruns cs m = Some m' \<and> rel a' m'"
proof (induction arbitrary: a m rule: list_all2_induct)
  case Nil
  then show ?case by simp
next
  case (Cons i "is" c cs)
  from Cons.prems(2) obtain a1 where a1: "astep i a = Some a1" "aruns is a1 = Some a'"
    by (auto simp: bind_eq_Some_conv)
  from simulates[OF Cons.hyps(1) Cons.prems(1) a1(1)] obtain m1
    where "cstep c m = Some m1" "rel a1 m1" by blast
  with Cons.IH[OF _ a1(2)] show ?case by auto
qed

lemma aruns_append: "aruns (is @ js) a = Option.bind (aruns is a) (aruns js)"
  by (induction "is" arbitrary: a) (auto split: Option.bind_split)

end

section \<open>Memory regions\<close>

lemma far_below:
  assumes "unat a + 4 \<le> unat b" and "unat b + 4 \<le> 2 ^ 32"
  shows "far a b"
proof -
  have ab: "a \<le> b" using assms by (simp add: word_le_nat_alt)
  have d: "unat (b - a) = unat b - unat a" using unat_sub[OF ab] .
  have d': "a - b = word_of_nat (2 ^ 32 - (unat b - unat a))"
    using assms by (simp add: of_nat_diff)
  have "unat (a - b) = 2 ^ 32 - (unat b - unat a)"
    unfolding d' using assms by (intro unat_word_of_nat) simp
  moreover have "unat b - unat a \<ge> 4" "2 ^ 32 - (unat b - unat a) \<ge> 4"
    using assms by arith+
  ultimately show ?thesis
    by (simp add: far_def word_le_nat_alt d)
qed

text \<open>Everything 32-bit readable below \<open>lo\<close> is the same.\<close>

definition same_below :: "nat \<Rightarrow> memory \<Rightarrow> memory \<Rightarrow> bool" where
  "same_below lo m m' \<longleftrightarrow> (\<forall>a. unat a + 4 \<le> lo \<longrightarrow> rd32 m' a = rd32 m a)"

lemma same_below_refl [simp]: "same_below lo m m"
  by (simp add: same_below_def)

lemma same_below_wr32:
  assumes "same_below lo m m'" and "lo \<le> unat a" and "unat a + 4 \<le> 2 ^ 32"
  shows "same_below lo m (wr32 m' a v)"
proof -
  have "rd32 (wr32 m' a v) b = rd32 m b" if "unat b + 4 \<le> lo" for b
  proof -
    have "far a b" using assms that by (subst far_sym) (intro far_below, simp_all)
    with assms(1) that show ?thesis by (simp add: rd32_wr32_far same_below_def)
  qed
  then show ?thesis by (simp add: same_below_def)
qed

lemma unat_add_small: "unat a + k < 2 ^ 32 \<Longrightarrow> unat (a + word_of_nat k :: u32) = unat a + k"
proof -
  assume small: "unat a + k < 2 ^ 32"
  then have "unat (word_of_nat k :: u32) = k" by (intro unat_word_of_nat) simp
  with small show ?thesis by (subst unat_add_lem[THEN iffD1]) simp_all
qed

text \<open>A value below \<open>lo\<close> stays.\<close>

lemma holds_same_below:
  assumes "same_below lo m m'" and "unat a + 32 \<le> lo" and "lo \<le> 2 ^ 32" and "holds m a v"
  shows "holds m' a v"
proof -
  have "rd32 m' (a + word_of_nat (4 * i)) = rd32 m (a + word_of_nat (4 * i))" if "i < 8" for i
  proof -
    have "unat (a + word_of_nat (4 * i)) = unat a + 4 * i"
      using assms that by (intro unat_add_small) simp
    with assms that show ?thesis by (simp add: same_below_def)
  qed
  with assms(4) show ?thesis by (simp add: holds_def)
qed

section \<open>The relation\<close>

definition data_rel :: "asm_env \<Rightarrow> data_section \<Rightarrow> nat \<Rightarrow> memory \<Rightarrow> bool" where
  "data_rel env ds lo m \<longleftrightarrow>
     (\<forall>l v. resolve ds l = Some v \<longrightarrow>
        (\<exists>a. label_addr env l = Some a \<and> unat a + 32 \<le> lo \<and> holds m a v))"

definition low_rel :: "asm_env \<Rightarrow> data_section \<Rightarrow> nat \<Rightarrow> nat \<Rightarrow> u32 list \<Rightarrow> mach \<Rightarrow> bool" where
  "low_rel env ds lo cap ws m \<longleftrightarrow>
     unat (get_reg m SP) + 32 * length ws = lo + 32 * cap \<and> lo + 32 * cap < 2 ^ 32 \<and>
     length ws \<le> cap \<and> data_rel env ds lo (mem m) \<and>
     (\<forall>i<length ws. rd32 (mem m) (get_reg m SP + word_of_nat (32 * i)) = ws ! i)"

lemma data_rel_same_below:
  assumes "data_rel env ds lo m" and "same_below lo m m'" and "lo \<le> 2 ^ 32"
  shows "data_rel env ds lo m'"
  using assms holds_same_below[OF assms(2)] unfolding data_rel_def by blast

text \<open>The copy loop of \<open>loadFromDataSection\<close>, after any number of words.\<close>

lemma exec_copy:
  assumes "\<And>i j. i < n \<Longrightarrow> j < n \<Longrightarrow> far (s + word_of_nat (4 * j)) (a + word_of_nat (4 * i))"
    and "get_reg m T0 = a" and "get_reg m SP = s"
  shows "\<exists>m'. exec env (concat (map (\<lambda>i. [I_lw T1 (int (i * 4)) T0, I_sw T1 (int (i * 4)) SP]) [0..<n])) m
      = Some m' \<and>
    mem m' = bytemem.write_words (map (\<lambda>i. (s + word_of_nat (4 * i), rd32 (mem m) (a + word_of_nat (4 * i))))
      [0..<n]) (mem m) \<and>
    (\<forall>r. r \<noteq> T1 \<longrightarrow> get_reg m' r = get_reg m r)"
  using assms(1)
proof (induction n)
  case 0
  show ?case by simp
next
  case (Suc n)
  let ?ws = "map (\<lambda>i. (s + word_of_nat (4 * i), rd32 (mem m) (a + word_of_nat (4 * i)))) [0..<n]"
  let ?c = "concat (map (\<lambda>i. [I_lw T1 (int (i * 4)) T0, I_sw T1 (int (i * 4)) SP]) [0..<n])"
  from Suc obtain m1 where m1: "exec env ?c m = Some m1" "mem m1 = bytemem.write_words ?ws (mem m)"
    "\<And>r. r \<noteq> T1 \<Longrightarrow> get_reg m1 r = get_reg m r"
    by fastforce
  have read: "rd32 (mem m1) (a + word_of_nat (4 * n)) = rd32 (mem m) (a + word_of_nat (4 * n))"
    unfolding m1(2) using Suc.prems by (intro bytemem.rd_write_words_far) auto
  let ?m2 = "set_reg T1 (rd32 (mem m) (a + word_of_nat (4 * n))) m1"
  let ?m3 = "?m2\<lparr>mem := wr32 (mem m1) (s + word_of_nat (4 * n)) (rd32 (mem m) (a + word_of_nat (4 * n)))\<rparr>"
  have "exec env [I_lw T1 (int (n * 4)) T0, I_sw T1 (int (n * 4)) SP] m1 = Some ?m3"
    using m1(3)[of T0] m1(3)[of SP] assms(2,3) read by (simp add: mach_simps mult.commute)
  with m1(1) have "exec env (?c @ [I_lw T1 (int (n * 4)) T0, I_sw T1 (int (n * 4)) SP]) m = Some ?m3"
    by (simp only: exec_append option.case)
  moreover have "mem ?m3 = bytemem.write_words
      (?ws @ [(s + word_of_nat (4 * n), rd32 (mem m) (a + word_of_nat (4 * n)))]) (mem m)"
    by (simp add: bytemem.write_words_append m1(2))
  moreover have "\<forall>r. r \<noteq> T1 \<longrightarrow> get_reg ?m3 r = get_reg m r"
    using m1(3) by (simp add: mach_simps)
  ultimately show ?case by (intro exI[of _ ?m3]) simp
qed

section \<open>Pushing a slot\<close>

text \<open>The stack pointer moved down one slot; memory changed in that slot only.\<close>

definition slot_pushed :: "mach \<Rightarrow> mach \<Rightarrow> bool" where
  "slot_pushed m m' \<longleftrightarrow>
     get_reg m' SP = get_reg m SP - 32 \<and>
     (\<forall>r\<in>{S1, S2, S3}. get_reg m' r = get_reg m r) \<and>
     (\<forall>a. unat a + 4 \<le> 2 ^ 32 \<longrightarrow>
        unat a + 4 \<le> unat (get_reg m SP) - 32 \<or> unat (get_reg m SP) \<le> unat a \<longrightarrow>
        rd32 (mem m') a = rd32 (mem m) a)"

lemma unat_sub32: "32 \<le> unat (s :: u32) \<Longrightarrow> unat (s - 32) = unat s - 32"
  by (subst unat_sub) (simp_all add: word_le_nat_alt)

lemma unat_in_slot: "32 \<le> unat (s :: u32) \<Longrightarrow> k < 32 \<Longrightarrow> unat (s - 32 + word_of_nat k) = unat s - 32 + k"
  using unat_u32_less[of s] by (subst unat_add_small) (simp_all add: unat_sub32)

text \<open>Writing one word at the bottom of a fresh slot.\<close>

lemma slot_pushed_wr:
  assumes room: "32 \<le> unat (get_reg m SP)" and sp: "get_reg m1 SP = get_reg m SP - 32"
    and other: "\<And>r. r \<in> {S1, S2, S3} \<Longrightarrow> get_reg m1 r = get_reg m r"
  shows "slot_pushed m (m1\<lparr>mem := wr32 (mem m) (get_reg m SP - 32) w\<rparr>)"
proof -
  let ?s = "get_reg m SP - 32"
  have s: "unat ?s = unat (get_reg m SP) - 32"
    using room by (rule unat_sub32)
  have "far ?s a" if "unat a + 4 \<le> 2 ^ 32"
    "unat a + 4 \<le> unat (get_reg m SP) - 32 \<or> unat (get_reg m SP) \<le> unat a" for a
    using that(2)
  proof
    assume "unat a + 4 \<le> unat (get_reg m SP) - 32"
    then have "far a ?s"
      using s room unat_u32_less[of "get_reg m SP"] by (intro far_below) simp_all
    then show ?thesis by (simp add: far_sym)
  next
    assume "unat (get_reg m SP) \<le> unat a"
    with that(1) s room show ?thesis by (intro far_below) simp_all
  qed
  with sp other show ?thesis
    by (simp add: slot_pushed_def mach_simps rd32_wr32_far)
qed

lemma run_push:
  assumes room: "32 \<le> unat (get_reg m SP)"
  shows "\<exists>m'. run_asm env (pushOpcode w) m = Some m' \<and> slot_pushed m m' \<and>
    rd32 (mem m') (get_reg m' SP) = w"
proof -
  let ?s = "get_reg m SP - 32"
  let ?m1 = "set_reg T0 (word_of_int (sint w)) (set_reg SP ?s m)"
  have "run_asm env (pushOpcode w) m = Some (?m1\<lparr>mem := wr32 (mem m) ?s w\<rparr>)"
    by (simp add: run_asm_def decode_push mach_simps)
  moreover have "slot_pushed m (?m1\<lparr>mem := wr32 (mem m) ?s w\<rparr>)"
    using room by (intro slot_pushed_wr) (auto simp: mach_simps)
  ultimately show ?thesis
    by (intro exI[of _ "?m1\<lparr>mem := wr32 (mem m) ?s w\<rparr>"]) (simp add: mach_simps rd32_wr32)
qed

lemma run_dup:
  assumes k: "1 \<le> k" "k \<le> 16" and room: "32 \<le> unat (get_reg m SP)"
  shows "\<exists>m'. run_asm env (DupOpcode (word_of_nat k)) m = Some m' \<and> slot_pushed m m' \<and>
    rd32 (mem m') (get_reg m' SP) = rd32 (mem m) (get_reg m SP + word_of_nat (32 * (k - 1)))"
proof -
  let ?s = "get_reg m SP"
  define w where "w = rd32 (mem m) (?s + word_of_nat (32 * (k - 1)))"
  have "(word_of_int (32 * (int k - 1)) :: u32) = word_of_nat (32 * (k - 1))"
    using k(1) by (simp add: of_nat_diff)
  then have rd: "rd32 (mem m) (?s + word_of_int (32 * (int k - 1))) = w" by (simp add: w_def)
  let ?m = "set_reg T0 w m"
  have "run_asm env (DupOpcode (word_of_nat k)) m = exec env [I_addi SP SP (-32), I_sw T0 0 SP] ?m"
    using rd by (simp add: run_asm_def decode_dup[OF k] mach_simps)
  also have "\<dots> = Some ((set_reg SP (?s - 32) ?m)\<lparr>mem := wr32 (mem m) (?s - 32) w\<rparr>)"
    by (simp add: mach_simps)
  finally have run: "run_asm env (DupOpcode (word_of_nat k)) m =
      Some ((set_reg SP (?s - 32) ?m)\<lparr>mem := wr32 (mem m) (?s - 32) w\<rparr>)" .
  have "slot_pushed m ((set_reg SP (?s - 32) ?m)\<lparr>mem := wr32 (mem m) (?s - 32) w\<rparr>)"
    using room by (intro slot_pushed_wr) (auto simp: mach_simps)
  with run show ?thesis unfolding w_def[symmetric] by (simp add: mach_simps rd32_wr32)
qed

text \<open>An exchange reads and writes the low words of two slots.\<close>

lemma run_swap:
  fixes m :: mach and k :: nat
  defines "a \<equiv> get_reg m SP" and "b \<equiv> get_reg m SP + word_of_nat (32 * k)"
  assumes "k \<le> 16"
  shows "run_asm env (SwapOpcode (word_of_nat k)) m =
    Some ((set_reg T1 (rd32 (mem m) b) (set_reg T0 (rd32 (mem m) a) m))
      \<lparr>mem := wr32 (wr32 (mem m) a (rd32 (mem m) b)) b (rd32 (mem m) a)\<rparr>)"
  unfolding a_def b_def by (simp add: run_asm_def decode_swap[OF assms(3)] mach_simps)

lemma word_of_nat_slot: "a + word_of_nat (4 * i) + word_of_nat k = a + word_of_nat (4 * i + k)"
  by simp

lemma run_load_slot:
  assumes data: "data_rel env ds lo (mem m)" and l: "resolve ds l = Some v"
    and room: "lo + 32 \<le> unat (get_reg m SP)"
  shows "\<exists>m'. run_asm env (loadFromDataSection l) m = Some m' \<and> slot_pushed m m' \<and>
    holds (mem m') (get_reg m' SP) v"
proof -
  from data l obtain a where a: "label_addr env l = Some a" "unat a + 32 \<le> lo" "holds (mem m) a v"
    by (auto simp: data_rel_def)
  let ?s = "get_reg m SP - 32"
  have sp: "unat (get_reg m SP) < 2 ^ 32"
    by (rule unat_u32_less)
  have us: "unat (?s + word_of_nat (4 * j)) = unat (get_reg m SP) - 32 + 4 * j" if "j < 8" for j
    using room that by (intro unat_in_slot) simp_all
  have ua: "unat (a + word_of_nat (4 * i)) = unat a + 4 * i" if "i < 8" for i
    using a(2) room sp that by (intro unat_add_small) simp
  have sep: "far (?s + word_of_nat (4 * j)) (a + word_of_nat (4 * i))" if "i < 8" "j < 8" for i j
    using us[OF that(2)] ua[OF that(1)] a(2) room sp that by (subst far_sym) (intro far_below, simp_all)
  let ?m1 = "set_reg T0 a (set_reg SP ?s m)"
  let ?ws = "map (\<lambda>i. (?s + word_of_nat (4 * i), rd32 (mem m) (a + word_of_nat (4 * i)))) [0..<8]"
  have "get_reg ?m1 T0 = a" "get_reg ?m1 SP = ?s" "mem ?m1 = mem m"
    by (simp_all add: mach_simps)
  with exec_copy[where n = 8 and s = "?s" and a = a and m = "?m1" and env = env] sep obtain m'
    where m': "exec env (concat (map (\<lambda>i. [I_lw T1 (int (i * 4)) T0, I_sw T1 (int (i * 4)) SP]) [0..<8])) ?m1 = Some m'"
      "mem m' = bytemem.write_words ?ws (mem m)" "\<And>r. r \<noteq> T1 \<Longrightarrow> get_reg m' r = get_reg ?m1 r"
    by auto
  have run: "run_asm env (loadFromDataSection l) m = Some m'"
    using m'(1) a(1) by (simp add: run_asm_def decode_load exec_append mach_simps del: upt_rec_numeral)
  have sp': "get_reg m' SP = ?s"
    using m'(3)[of SP] by (simp add: mach_simps)
  have "rd32 (mem m') (?s + word_of_nat (4 * i)) = word_at i v" if i: "i < 8" for i
  proof -
    have "far (fst (?ws ! j)) (fst (?ws ! i))" if "i < j" "j < 8" for j
      using us[of i] us[of j] i that sp by (subst far_sym) (simp, intro far_below, simp_all)
    then have "rd32 (mem m') (fst (?ws ! i)) = snd (?ws ! i)"
      unfolding m'(2) using i by (intro bytemem.rd_write_words) simp_all
    with i a(3) show ?thesis by (simp add: holds_def)
  qed
  then have val: "holds (mem m') (get_reg m' SP) v"
    by (simp add: holds_def sp')
  have "rd32 (mem m') b = rd32 (mem m) b" if "unat b + 4 \<le> 2 ^ 32"
    "unat b + 4 \<le> unat (get_reg m SP) - 32 \<or> unat (get_reg m SP) \<le> unat b" for b
  proof -
    have "far (?s + word_of_nat (4 * j)) b" if "j < 8" for j
      using \<open>_ \<or> _\<close>
    proof
      assume "unat b + 4 \<le> unat (get_reg m SP) - 32"
      then show ?thesis
        using us[OF that] that sp by (subst far_sym) (intro far_below, simp_all)
    next
      assume "unat (get_reg m SP) \<le> unat b"
      then show ?thesis
        using us[OF that] that \<open>unat b + 4 \<le> 2 ^ 32\<close> room by (intro far_below) simp_all
    qed
    then show ?thesis
      unfolding m'(2) by (intro bytemem.rd_write_words_far) auto
  qed
  moreover have "\<forall>r\<in>{S1, S2, S3}. get_reg m' r = get_reg m r"
    using m'(3) by (simp add: mach_simps)
  ultimately have "slot_pushed m m'"
    by (simp add: slot_pushed_def sp')
  with run val show ?thesis by blast
qed

section \<open>One abstract instruction\<close>

lemma low_relD:
  assumes "low_rel env ds lo cap ws m"
  shows "unat (get_reg m SP) + 32 * length ws = lo + 32 * cap" "lo + 32 * cap < 2 ^ 32"
    "length ws \<le> cap" "data_rel env ds lo (mem m)"
    "i < length ws \<Longrightarrow> rd32 (mem m) (get_reg m SP + word_of_nat (32 * i)) = ws ! i"
  using assms by (simp_all add: low_rel_def)

lemma low_rel_unat:
  assumes "low_rel env ds lo cap ws m" and "i < length ws"
  shows "unat (get_reg m SP + word_of_nat (32 * i)) = unat (get_reg m SP) + 32 * i"
  using low_relD(1,2)[OF assms(1)] assms(2) by (intro unat_add_small) simp

lemma low_rel_room:
  "low_rel env ds lo cap ws m \<Longrightarrow> length ws < cap \<Longrightarrow> lo + 32 \<le> unat (get_reg m SP)"
  using low_relD(1) by fastforce

lemma slot_pushed_below: "slot_pushed m m' \<Longrightarrow> lo + 32 \<le> unat (get_reg m SP) \<Longrightarrow> same_below lo (mem m) (mem m')"
  using unat_u32_less[of "get_reg m SP"] by (auto simp: slot_pushed_def same_below_def)

lemma low_rel_push:
  assumes rel: "low_rel env ds lo cap ws m" and room: "length ws < cap"
    and push: "slot_pushed m m'" and w: "rd32 (mem m') (get_reg m' SP) = w"
  shows "low_rel env ds lo cap (w # ws) m'"
proof -
  note D = low_relD[OF rel]
  have lo: "lo + 32 \<le> unat (get_reg m SP)" using low_rel_room[OF rel room] .
  have sp': "get_reg m' SP = get_reg m SP - 32" using push by (simp add: slot_pushed_def)
  have "unat (get_reg m' SP) = unat (get_reg m SP) - 32"
    unfolding sp' using lo by (intro unat_sub32) simp
  then have base: "unat (get_reg m' SP) + 32 * length (w # ws) = lo + 32 * cap"
    using D(1) lo by simp
  have data: "data_rel env ds lo (mem m')"
    using data_rel_same_below[OF D(4) slot_pushed_below[OF push lo]] D(2) by simp
  have old: "rd32 (mem m') (get_reg m SP + word_of_nat (32 * i)) = ws ! i" if i: "i < length ws" for i
  proof -
    have "unat (get_reg m SP + word_of_nat (32 * i)) = unat (get_reg m SP) + 32 * i"
      using low_rel_unat[OF rel i] .
    moreover have "unat (get_reg m SP) + 32 * i + 4 \<le> 2 ^ 32" using D(1,2) i by simp
    ultimately show ?thesis
      using push D(5)[OF i] by (simp add: slot_pushed_def)
  qed
  have "rd32 (mem m') (get_reg m' SP + word_of_nat (32 * i)) = (w # ws) ! i" if "i < length (w # ws)" for i
  proof (cases i)
    case 0
    with w show ?thesis by simp
  next
    case (Suc j)
    then have addr: "get_reg m' SP + word_of_nat (32 * i) = get_reg m SP + word_of_nat (32 * j)"
      by (simp add: sp' algebra_simps)
    show ?thesis
      unfolding addr using old[of j] that Suc by simp
  qed
  with base data room D(2) show ?thesis
    unfolding low_rel_def by (intro conjI) simp_all
qed

lemma low_rel_pop:
  assumes rel: "low_rel env ds lo cap (w # ws) m"
  shows "\<exists>m'. run_asm env popStack m = Some m' \<and> low_rel env ds lo cap ws m'"
proof -
  note D = low_relD[OF rel]
  let ?m = "set_reg SP (get_reg m SP + 32) m"
  have "unat (get_reg m SP + word_of_nat 32) = unat (get_reg m SP) + 32"
    using D(1,2) by (intro unat_add_small) simp
  then have "unat (get_reg ?m SP) + 32 * length ws = lo + 32 * cap"
    using D(1) by (simp add: mach_simps)
  moreover have "rd32 (mem m) (get_reg m SP + 32 + word_of_nat (32 * i)) = ws ! i" if "i < length ws" for i
    using D(5)[of "Suc i"] that by (simp add: algebra_simps)
  ultimately have "low_rel env ds lo cap ws ?m"
    using D by (simp add: low_rel_def mach_simps)
  then show ?thesis
    by (simp add: run_asm_def decode_pop mach_simps)
qed

lemma low_rel_dup:
  assumes rel: "low_rel env ds lo cap ws m" and k: "1 \<le> k" "k \<le> 16" "k \<le> length ws" and room: "length ws < cap"
  shows "\<exists>m'. run_asm env (DupOpcode (word_of_nat k)) m = Some m' \<and>
    low_rel env ds lo cap (ws ! (k - 1) # ws) m'"
proof -
  have "k - 1 < length ws" using k by simp
  note at = low_relD(5)[OF rel this]
  from low_rel_room[OF rel room] run_dup[OF k(1,2), of m env] obtain m' where
    m': "run_asm env (DupOpcode (word_of_nat k)) m = Some m'" "slot_pushed m m'"
      "rd32 (mem m') (get_reg m' SP) = ws ! (k - 1)"
    unfolding at by auto
  with low_rel_push[OF rel room m'(2,3)] show ?thesis by blast
qed

text \<open>Overwriting the low word of a slot of the stack.\<close>

lemma low_rel_write:
  assumes rel: "low_rel env ds lo cap ws m" and k: "k < length ws"
  shows "low_rel env ds lo cap (ws[k := w])
    (m\<lparr>mem := wr32 (mem m) (get_reg m SP + word_of_nat (32 * k)) w\<rparr>)"
proof -
  note D = low_relD[OF rel]
  let ?a = "\<lambda>i. get_reg m SP + word_of_nat (32 * i)"
  have u: "unat (?a i) = unat (get_reg m SP) + 32 * i" if "i < length ws" for i
    using low_rel_unat[OF rel that] .
  have top: "unat (?a i) + 4 \<le> 2 ^ 32" if "i < length ws" for i
    using u[OF that] D(1,2) that by simp
  have "far (?a k) (?a i)" if "i < length ws" "i \<noteq> k" for i
  proof (cases "i < k")
    case True
    then show ?thesis
      using u[OF that(1)] u[OF k] top[OF k] by (subst far_sym) (intro far_below, simp_all)
  next
    case False
    then show ?thesis
      using u[OF that(1)] u[OF k] top[OF that(1)] that(2) by (intro far_below) simp_all
  qed
  then have words: "rd32 (wr32 (mem m) (?a k) w) (?a i) = ws[k := w] ! i" if "i < length ws" for i
    using D(5)[of i] that by (cases "i = k") (simp_all add: rd32_wr32 rd32_wr32_far)
  have "same_below lo (mem m) (wr32 (mem m) (?a k) w)"
    using u[OF k] top[OF k] D(1,3) k by (intro same_below_wr32) simp_all
  from data_rel_same_below[OF D(4) this] D(2) have "data_rel env ds lo (wr32 (mem m) (?a k) w)"
    by simp
  then show ?thesis
    using D(1-3) words unfolding low_rel_def by (intro conjI) (simp_all add: mach_simps)
qed

lemma low_rel_swap:
  assumes rel: "low_rel env ds lo cap ws m" and k: "k \<le> 16" "k < length ws"
  shows "\<exists>m'. run_asm env (SwapOpcode (word_of_nat k)) m = Some m' \<and>
    low_rel env ds lo cap (ws[0 := ws ! k, k := ws ! 0]) m'"
proof -
  note D = low_relD[OF rel]
  let ?s = "get_reg m SP"
  have at: "rd32 (mem m) ?s = ws ! 0" "rd32 (mem m) (?s + word_of_nat (32 * k)) = ws ! k"
    using D(5)[of 0] D(5)[OF k(2)] k(2) by fastforce+
  let ?m = "set_reg T1 (ws ! k) (set_reg T0 (ws ! 0) m)"
  let ?m1 = "?m\<lparr>mem := wr32 (mem m) ?s (ws ! k)\<rparr>"
  let ?m2 = "?m1\<lparr>mem := wr32 (mem ?m1) (?s + word_of_nat (32 * k)) (ws ! 0)\<rparr>"
  have "low_rel env ds lo cap ws ?m"
    using rel by (simp add: low_rel_def mach_simps)
  moreover have "0 < length ws" using k(2) by (cases ws) simp_all
  ultimately have "low_rel env ds lo cap (ws[0 := ws ! k])
      (?m\<lparr>mem := wr32 (mem ?m) (get_reg ?m SP + word_of_nat (32 * 0)) (ws ! k)\<rparr>)"
    by (rule low_rel_write)
  then have r1: "low_rel env ds lo cap (ws[0 := ws ! k]) ?m1"
    by (simp add: mach_simps)
  have "k < length (ws[0 := ws ! k])" using k(2) by simp
  from low_rel_write[OF r1 this, of "ws ! 0"] have "low_rel env ds lo cap (ws[0 := ws ! k, k := ws ! 0]) ?m2"
    by (simp add: mach_simps)
  moreover have "run_asm env (SwapOpcode (word_of_nat k)) m = Some ?m2"
    using at by (simp add: run_swap[OF k(1)] mach_simps)
  ultimately show ?thesis by blast
qed

lemma low_rel_mark: "low_rel env ds lo cap ws m \<Longrightarrow>
  (is = [EBREAK_instr] \<or> is = [instr ''NOP'' []]) \<Longrightarrow> run_asm env is m = Some m"
  by (auto simp: run_asm_def EBREAK_instr_def decode_simps)

lemma stack_op_simulates:
  assumes "lowers ds i is" and rel: "low_rel env ds lo cap ws m" and step: "low_op cap i ws = Some ws'"
  shows "\<exists>m'. run_asm env is m = Some m' \<and> low_rel env ds lo cap ws' m'"
proof (cases i)
  case Pop
  with step assms(1) rel low_rel_pop show ?thesis by (auto split: list.splits)
next
  case (PushWord w)
  with step have room: "length ws < cap" and ws': "ws' = w # ws" by (auto split: if_splits)
  with low_rel_room[OF rel room] run_push[of m env w] low_rel_push[OF rel room] PushWord assms(1)
  show ?thesis by fastforce
next
  case (PushValue v)
  with step have room: "length ws < cap" and ws': "ws' = word_at 0 v # ws" by (auto split: if_splits)
  from PushValue assms(1) obtain l where l: "resolve ds l = Some v" "is = loadFromDataSection l" by auto
  from run_load_slot[OF low_relD(4)[OF rel] l(1) low_rel_room[OF rel room]] obtain m'
    where m': "run_asm env is m = Some m'" "slot_pushed m m'" "holds (mem m') (get_reg m' SP) v"
    using l(2) by blast
  then have "rd32 (mem m') (get_reg m' SP) = word_at 0 v"
    by (fastforce simp: holds_def)
  from low_rel_push[OF rel room m'(2) this] m'(1) ws' show ?thesis by blast
next
  case (Dup k)
  with step assms(1) low_rel_dup[OF rel] show ?thesis by (auto split: if_splits)
next
  case (Swap k)
  with step assms(1) low_rel_swap[OF rel] show ?thesis by (auto split: if_splits)
next
  case Mark
  with step assms(1) rel low_rel_mark[OF rel] show ?thesis by auto
qed

interpretation stack_sim: simulation "low_op cap" "run_asm env" "lowers ds" "low_rel env ds lo cap"
  for cap env ds lo
  by unfold_locales (rule stack_op_simulates)

end
