(* ===== verification/Replay.thy ===== *)
theory Replay
  imports Execution StackCode
begin

text \<open>
  The production transpiler (the configuration of \<open>NewTranspiler\<close>) as a replay of the trace.
  \<open>plan\<close> gives, for one trace entry, the abstract stack instructions its code performs, from the
  entry, the execution state and the replayed result alone, and \<open>next_state\<close> the call depth and
  the recorded storage after it. The refinement \<open>step_refines\<close> shows that the emitted listing
  lowers the plan; with the simulation of StackCode it gives the effect of the assembled program.
\<close>

section \<open>Plans\<close>

text \<open>Opcodes replaced by pops and a zero, with their number of arguments.\<close>

definition dummy_arity :: "opcode \<Rightarrow> nat option" where
  "dummy_arity = map_of
     [(vm_ADD, 2), (vm_MUL, 2), (vm_SUB, 2), (vm_DIV, 2), (vm_AND, 2), (vm_OR, 2), (vm_XOR, 2),
      (vm_EQ, 2), (vm_SLT, 2), (vm_SHR, 2), (vm_SHL, 2), (vm_GT, 2), (vm_LT, 2), (vm_NOT, 1)]"

text \<open>Opcodes whose result is read off the trace, with the number of slots the code pops.\<close>

definition traced_arity :: "opcode \<Rightarrow> nat option" where
  "traced_arity = map_of
     [(vm_SDIV, 2), (vm_MOD, 2), (vm_SMOD, 2), (vm_ADDMOD, 3), (vm_MULMOD, 3), (vm_EXP, 2),
      (vm_SIGNEXTEND, 2), (vm_SGT, 2), (vm_BYTE, 2), (vm_SAR, 2), (vm_MLOAD, 1), (vm_BALANCE, 1),
      (vm_BLOCKHASH, 1), (vm_DIFFICULTY, 1), (vm_GASLIMIT, 1), (vm_SELFBALANCE, 0),
      (vm_BASEFEE, 1), (vm_BLOBHASH, 1), (vm_BLOBBASEFEE, 0), (vm_GASPRICE, 0), (vm_PC, 0),
      (vm_MSIZE, 0), (vm_EXTCODEHASH, 1), (vm_CREATE, 3), (vm_CREATE2, 4), (vm_EXTCODESIZE, 1),
      (vm_RETURNDATASIZE, 0), (vm_KECCAK256, 2)]"

text \<open>Opcodes that only pop.\<close>

definition pop_arity :: "opcode \<Rightarrow> nat option" where
  "pop_arity = map_of
     [(vm_JUMP, 1), (vm_JUMPI, 2), (vm_POP, 1), (vm_MSTORE, 2), (vm_MSTORE8, 2),
      (vm_EXTCODECOPY, 4), (vm_SELFDESTRUCT, 1), (vm_LOG0, 2), (vm_LOG1, 3), (vm_LOG2, 4),
      (vm_LOG3, 5), (vm_LOG4, 6), (vm_CALLDATACOPY, 3), (vm_CODECOPY, 3),
      (vm_RETURNDATACOPY, 3), (vm_SSTORE, 2), (vm_TSTORE, 2), (vm_MCOPY, 3), (vm_CALL, 7),
      (vm_DELEGATECALL, 6), (vm_STATICCALL, 6), (vm_CALLCODE, 7)]"

text \<open>Values of the execution state.\<close>

definition env_value :: "third_party \<Rightarrow> opcode \<Rightarrow> evm_execution_state \<Rightarrow> u256 option" where
  "env_value L op s =
     (if op = vm_CALLVALUE then CallValue s else if op = vm_GAS then Gas s
      else if op = vm_TIMESTAMP then Timestamp s else if op = vm_CHAINID then ChainId s
      else if op = vm_NUMBER then BlockNumber s
      else if op = vm_ADDRESS then Some (SetBytes L (Address s))
      else if op = vm_ORIGIN then Some (SetBytes L (Origin s))
      else if op = vm_COINBASE then Some (SetBytes L (Coinbase s))
      else if op = vm_CALLER then Some (SetBytes L (Caller s))
      else if op = vm_CODESIZE then Some (word_of_nat (length (CodeData s) mod 2 ^ 64))
      else if op = vm_CALLDATASIZE then Some (word_of_nat (length (CallData s) mod 2 ^ 64))
      else None)"

text \<open>The thirty-two bytes of call data at an offset, zero beyond its end.\<close>

definition calldata_word :: "third_party \<Rightarrow> nat \<Rightarrow> bytes \<Rightarrow> u256" where
  "calldata_word L off cd =
     SetBytes L (map (\<lambda>i. if off + i < length cd then cd ! (off + i) else 0) [0..<32])"

record replay_state =
  r_depth :: int
  r_store :: "string \<rightharpoonup> u256"

definition stored :: "replay_state \<Rightarrow> string \<Rightarrow> u256" where
  "stored r k = (case r_store r k of None \<Rightarrow> 0 | Some v \<Rightarrow> v)"

definition body_plan :: "third_party \<Rightarrow> evm_instruction_metadata \<Rightarrow> evm_execution_state option
    \<Rightarrow> u256 list option \<Rightarrow> replay_state \<Rightarrow> stack_op list" where
  "body_plan L m st rs r =
     (let op = Opcode m in
      case dummy_arity op of Some n \<Rightarrow> replicate n Pop @ [PushWord 0] | None \<Rightarrow>
      (case traced_arity op of Some n \<Rightarrow> replicate n Pop @ [PushValue (last (the rs))] | None \<Rightarrow>
      (case pop_arity op of Some n \<Rightarrow> replicate n Pop | None \<Rightarrow>
        (if vm_PUSH0 \<le> op \<and> op \<le> vm_PUSH1 + 3
           then [PushWord (word_of_nat (be_nat (take (unat op - 0x5f) (Arguments m))))]
         else if vm_PUSH5 \<le> op \<and> op \<le> vm_PUSH32 then [PushValue (SetBytes L (Arguments m))]
         else if vm_DUP1 \<le> op \<and> op \<le> vm_DUP16 then [Dup (unat op - 0x7f)]
         else if vm_SWAP1 \<le> op \<and> op \<le> vm_SWAP16 then [Swap (unat op - 0x8f)]
         else if op = vm_JUMPDEST then [Mark]
         else if op = vm_ISZERO then [PushWord 0, Pop, Pop, PushWord 0]
         else if op = vm_CALLDATALOAD then
           [Pop, PushValue (calldata_word L (unat (ucast (StackSnapshot m ! 0) :: u64)) (CallData (the st)))]
         else if op = vm_SLOAD \<or> op = vm_TLOAD
           then [Pop, PushValue (stored r (Hex L (StackSnapshot m ! 0)))]
         else [PushValue (the (env_value L op (the st)))]))))"

definition plan :: "third_party \<Rightarrow> evm_instruction_metadata \<Rightarrow> evm_execution_state option
    \<Rightarrow> u256 list option \<Rightarrow> replay_state \<Rightarrow> stack_op list" where
  "plan L m st rs r =
     (let halt_mark = (if r_depth r > 0 then [Mark] else []) in
      if IsStackRestore m then
        (case Result m of None \<Rightarrow> [] | Some v \<Rightarrow> [PushWord (ucast v)]) @ [Mark]
      else if Opcode m = vm_STOP then []
      else if Opcode m = vm_RETURN \<or> Opcode m = vm_REVERT then [Pop, Pop] @ halt_mark
      else if Opcode m = vm_INVALID then halt_mark
      else body_plan L m st rs r @ [Mark])"

text \<open>
  What a trace entry does to the recorded storage: a first store or load of a key fixes its
  value for the rest of the transaction. The call depth follows \<open>next_depth\<close>.
\<close>

definition next_store :: "third_party \<Rightarrow> evm_instruction_metadata \<Rightarrow> (string \<rightharpoonup> u256)
    \<Rightarrow> string \<rightharpoonup> u256" where
  "next_store L m s =
     (let record_first = (\<lambda>k v. if s k = None then s(k \<mapsto> v) else s) in
      if IsStackRestore m then s
      else if Opcode m = vm_SSTORE \<or> Opcode m = vm_TSTORE
        then record_first (Hex L (StackSnapshot m ! 1)) (StackSnapshot m ! 0)
      else if Opcode m = vm_SLOAD \<or> Opcode m = vm_TLOAD
        then record_first (Hex L (StackSnapshot m ! 0)) 0
      else s)"

definition next_state :: "third_party \<Rightarrow> evm_instruction_metadata \<Rightarrow> replay_state \<Rightarrow> replay_state" where
  "next_state L m r =
     \<lparr>r_depth = next_depth m (r_depth r), r_store = next_store L m (r_store r)\<rparr>"

section \<open>Emission\<close>

definition production :: "transpiler_config \<Rightarrow> bool" where
  "production cfg \<longleftrightarrow> DisableCallContextSeparation cfg \<and> DisableHostOptimizedOpcodes cfg \<and>
     DisableMCopyOperations cfg"

definition emits :: "third_party \<Rightarrow> transpiler \<Rightarrow> transpiler \<Rightarrow> stack_op list \<Rightarrow> bool" where
  "emits L tr tr' p \<longleftrightarrow>
     config tr' = config tr \<and> storageSection tr' = storageSection tr \<and>
     currentDepth tr' = currentDepth tr \<and>
     (\<exists>vs. ds_values (dataSection tr') = ds_values (dataSection tr) @ vs) \<and>
     (pool_ok L (dataSection tr) \<longrightarrow> pool_ok L (dataSection tr') \<and>
       (\<exists>iss. instructions tr' = instructions tr @ concat iss \<and>
              list_all2 (lowers (dataSection tr')) p iss))"

lemma lowers_mono:
  "ds_values ds' = ds_values ds @ vs \<Longrightarrow> lowers ds i is \<Longrightarrow> lowers ds' i is"
  by (cases i) (auto dest: resolve_mono)

lemma emits_refl [simp]: "emits L tr tr []"
  by (auto simp: emits_def)

lemma emits_trans:
  assumes "emits L a b p" and "emits L b c q"
  shows "emits L a c (p @ q)"
proof -
  obtain vs ws where vals: "ds_values (dataSection b) = ds_values (dataSection a) @ vs"
    "ds_values (dataSection c) = ds_values (dataSection b) @ ws"
    using assms by (auto simp: emits_def)
  have "\<exists>iss. instructions c = instructions a @ concat iss \<and> list_all2 (lowers (dataSection c)) (p @ q) iss"
    if "pool_ok L (dataSection a)"
  proof -
    from assms that obtain is1 is2 where
      e1: "instructions b = instructions a @ concat is1" "list_all2 (lowers (dataSection b)) p is1" and
      e2: "instructions c = instructions b @ concat is2" "list_all2 (lowers (dataSection c)) q is2"
      by (auto simp: emits_def)
    have "list_all2 (lowers (dataSection c)) p is1"
      using e1(2) lowers_mono[OF vals(2)] by (rule list_all2_mono) simp
    with e1 e2 show ?thesis
      by (intro exI[of _ "is1 @ is2"]) (simp add: list_all2_appendI)
  qed
  with assms vals show ?thesis by (auto simp: emits_def)
qed

lemma emits_one: "(\<And>ds. lowers ds i is) \<Longrightarrow> emits L tr (emit is tr) [i]"
  by (auto simp: emits_def emit_def intro!: exI[of _ "[is]"])

lemma emits_pops: "emits L tr (emit (pops n) tr) (replicate n Pop)"
proof -
  have "list_all2 (lowers ds) (replicate n Pop) (replicate n popStack)" for ds
    by (simp add: list_all2_conv_all_nth)
  then show ?thesis
    by (auto simp: emits_def emit_def pops_def)
qed

lemma emits_data:
  assumes "Add L v (dataSection tr) = (l, ds)"
  shows "emits L tr (emit (loadFromDataSection l) (tr\<lparr>dataSection := ds\<rparr>)) [PushValue v]"
proof -
  have "pool_ok L ds \<and> resolve ds l = Some v" if "pool_ok L (dataSection tr)"
    using pool.ok_add[OF that, of v] pool.denote_add[OF that, of v] assms by simp
  with Add_values[OF assms] show ?thesis
    by (auto simp: emits_def emit_def intro!: exI[of _ "[loadFromDataSection l]"])
qed

lemma emit_emit: "emit js (emit is tr) = emit (is @ js) tr"
  by (simp add: emit_def)

section \<open>The cases of the switch\<close>

lemma emits_traced:
  assumes "traced L rs n nm tr = Inr tr'"
  shows "emits L tr tr' (replicate n Pop @ [PushValue (last (the rs))])"
proof -
  obtain a l ds where a: "rs = Some a" "a \<noteq> []" and add: "Add L (last a) (dataSection tr) = (l, ds)"
    and tr': "tr' = emit (pops n @ loadFromDataSection l) (tr\<lparr>dataSection := ds\<rparr>)"
    using assms by (cases rs) (auto simp: traced_def resultFromTraceCall_def Let_def last_conv_nth
        split: if_splits prod.splits)
  have "dataSection (emit (pops n) tr) = dataSection tr" by (simp add: emit_def)
  from emits_trans[OF emits_pops emits_data[of L "last a" "emit (pops n) tr" l ds]] add this
  have "emits L tr (emit (loadFromDataSection l) ((emit (pops n) tr)\<lparr>dataSection := ds\<rparr>))
      (replicate n Pop @ [PushValue (last a)])" by simp
  then show ?thesis
    by (simp add: tr' a(1) emit_def)
qed

lemma emits_push: "emits L tr (emit (pushOpcode w) tr) [PushWord w]"
  by (rule emits_one) simp

lemma emits_host:
  assumes "host tr cs n = Inr tr'" and "DisableHostOptimizedOpcodes (config tr)"
  shows "emits L tr tr' (replicate n Pop @ [PushWord 0])"
proof -
  from assms have tr': "tr' = emit (pushOpcode 0) (emit (pops n) tr)"
    by (simp add: host_def hostOptimizedOpcode_def emit_emit)
  show ?thesis
    unfolding tr' by (rule emits_trans[OF emits_pops emits_push])
qed

lemma emits_load_value: "emits L tr (load_value L v tr) [PushValue v]"
  using emits_data by (simp add: load_value_def split_beta)

lemmas arities = dummy_arity_def traced_arity_def pop_arity_def

lemma map_of_out_of_range:
  "list_all (\<lambda>kv. \<not> (lo \<le> fst kv \<and> fst kv \<le> hi)) kvs \<Longrightarrow> lo \<le> k \<Longrightarrow> k \<le> hi \<Longrightarrow> map_of kvs k = None"
  by (induction kvs) auto

lemma arities_range:
  assumes "vm_PUSH0 \<le> op" and "op \<le> vm_SWAP16"
  shows "dummy_arity op = None" "traced_arity op = None" "pop_arity op = None"
  unfolding arities by (rule map_of_out_of_range[OF _ assms]; simp add: word_le_nat_alt)+

text \<open>Which body a case has: a replaced opcode, a replayed one, one that only pops.\<close>

definition has_body :: "third_party \<Rightarrow> opcode \<Rightarrow> u256 list option \<Rightarrow> transpiler
    \<Rightarrow> transpiler result \<Rightarrow> bool" where
  "has_body L op rs tr res \<longleftrightarrow>
     (\<exists>n cs. dummy_arity op = Some n \<and> res = host tr cs n) \<or>
     (\<exists>n nm. dummy_arity op = None \<and> traced_arity op = Some n \<and> res = traced L rs n nm tr) \<or>
     (\<exists>n. dummy_arity op = None \<and> traced_arity op = None \<and> pop_arity op = Some n \<and>
          res = Inr (emit (pops n) tr))"

text \<open>The code of an entry does not call the library: by configuration, or by its opcode.\<close>

definition not_hosted :: "evm_instruction_metadata \<Rightarrow> transpiler \<Rightarrow> bool" where
  "not_hosted m tr \<longleftrightarrow> DisableHostOptimizedOpcodes (config tr) \<or>
     dummy_arity (Opcode m) = None \<and> Opcode m \<noteq> vm_ISZERO"

lemma emits_body:
  assumes "has_body L (Opcode m) rs tr (Inr tr')" and "not_hosted m tr"
  shows "emits L tr tr' (body_plan L m st rs r)"
  using assms(1) unfolding has_body_def
proof (elim disjE exE conjE)
  fix n cs assume "dummy_arity (Opcode m) = Some n" "Inr tr' = host tr cs n"
  with emits_host[of tr cs n tr'] assms(2) show ?thesis
    by (simp add: body_plan_def Let_def not_hosted_def)
next
  fix n nm assume "dummy_arity (Opcode m) = None" "traced_arity (Opcode m) = Some n"
    "Inr tr' = traced L rs n nm tr"
  with emits_traced[of L rs n nm tr tr'] show ?thesis
    by (simp add: body_plan_def Let_def)
next
  fix n assume "dummy_arity (Opcode m) = None" "traced_arity (Opcode m) = None"
    "pop_arity (Opcode m) = Some n" "Inr tr' = Inr (emit (pops n) tr)"
  with emits_pops[of L tr n] show ?thesis
    by (simp add: body_plan_def Let_def)
qed

lemma body_arith: "arith_cases L op rs tr = Some res \<Longrightarrow> has_body L op rs tr res"
  unfolding has_body_def
  by (simp add: arith_cases_def split: if_splits; hypsubst; simp add: arities; blast)

lemma emits_stack:
  assumes "stack_cases (Opcode m) tr = Some tr'" and "not_hosted m tr"
  shows "emits L tr tr' (body_plan L m st rs r)"
proof -
  consider (range) "vm_DUP1 \<le> Opcode m" "Opcode m \<le> vm_SWAP16"
    | (other) "Opcode m \<in> {vm_JUMP, vm_JUMPI, vm_POP, vm_MSTORE}"
    using assms by (auto simp: stack_cases_def word_le_nat_alt split: if_splits)
  then show ?thesis
  proof cases
    case range
    then have "vm_PUSH0 \<le> Opcode m" by (simp add: word_le_nat_alt)
    note none = arities_range[OF this range(2)]
    have "\<not> Opcode m \<le> 0x63" "\<not> Opcode m \<le> 0x7f" using range(1) by (simp_all add: word_le_nat_alt)
    with range assms show ?thesis
      by (auto simp: stack_cases_def body_plan_def none Let_def intro!: emits_one split: if_splits)
  next
    case other
    then have "has_body L (Opcode m) rs tr (Inr tr')"
      using assms(1) by (elim insertE emptyE) (simp_all add: stack_cases_def has_body_def arities)
    then show ?thesis using assms(2) by (rule emits_body)
  qed
qed

text \<open>Immediates: the bit operations of the code read the bytes big-endian.\<close>

lemma shift_or_byte:
  fixes x :: "'a::len word"
  shows "push_bit 8 x OR ucast (b :: u8) = x * 256 + ucast b"
proof -
  have "push_bit 8 x AND ucast b = 0"
    by (rule bit_word_eqI) (auto simp: bit_simps dest: bit_imp_le_length)
  then have "push_bit 8 x OR ucast b = push_bit 8 x + ucast b"
    by (simp add: disjunctive_add_eq_or)
  then show ?thesis by (simp add: push_bit_eq_mult)
qed

lemma shift_or_two:
  fixes d :: u8
  shows "push_bit 8 (ucast a) OR ucast d = (word_of_nat (be_nat [a, d]) :: 'a::len word)"
  unfolding shift_or_byte by simp

lemma shift_or_three:
  fixes a :: u8
  shows "push_bit 16 (ucast a) OR push_bit 8 (ucast b) OR ucast d =
    (word_of_nat (be_nat [a, b, d]) :: 'a::len word)"
proof -
  have "push_bit 16 (ucast a) OR push_bit 8 (ucast b) OR ucast d =
      push_bit 8 (push_bit 8 (ucast a) OR ucast b) OR (ucast d :: 'a word)"
    by (simp add: push_bit_or or.assoc)
  then show ?thesis by (simp add: shift_or_byte algebra_simps)
qed

lemma shift_or_four:
  fixes a :: u8
  shows "push_bit 24 (ucast a) OR push_bit 16 (ucast b) OR push_bit 8 (ucast c) OR ucast d =
    (word_of_nat (be_nat [a, b, c, d]) :: 'a::len word)"
proof -
  have "push_bit 24 (ucast a) OR push_bit 16 (ucast b) OR push_bit 8 (ucast c) OR ucast d =
      push_bit 8 (push_bit 8 (push_bit 8 (ucast a) OR ucast b) OR ucast c) OR (ucast d :: 'a word)"
    by (simp add: push_bit_or or.assoc)
  then show ?thesis by (simp add: shift_or_byte algebra_simps)
qed

lemma take_nth:
  "0 < length xs \<Longrightarrow> take 1 xs = [xs ! 0]"
  "1 < length xs \<Longrightarrow> take 2 xs = [xs ! 0, xs ! 1]"
  "2 < length xs \<Longrightarrow> take 3 xs = [xs ! 0, xs ! 1, xs ! 2]"
  "3 < length xs \<Longrightarrow> take 4 xs = [xs ! 0, xs ! 1, xs ! 2, xs ! 3]"
  by (simp_all add: take_Suc_conv_app_nth numeral_nat del: length_greater_0_conv)

lemma PUSH_value:
  "PUSH1_value args = Inr w \<Longrightarrow> w = word_of_nat (be_nat (take 1 args))"
  "PUSH2_value args = Inr w \<Longrightarrow> w = word_of_nat (be_nat (take 2 args))"
  "PUSH3_value args = Inr w \<Longrightarrow> w = word_of_nat (be_nat (take 3 args))"
  "PUSH4_value args = Inr w \<Longrightarrow> w = word_of_nat (be_nat (take 4 args))"
proof -
  show "PUSH1_value args = Inr w \<Longrightarrow> w = word_of_nat (be_nat (take 1 args))"
    by (auto simp: PUSH1_value_def go_index_eq_Inr take_nth(1)[unfolded One_nat_def])
  show "PUSH2_value args = Inr w \<Longrightarrow> w = word_of_nat (be_nat (take 2 args))"
    by (auto simp: PUSH2_value_def go_index_eq_Inr take_nth(2)[unfolded One_nat_def] shift_or_two
        simp del: be_nat.simps)
  show "PUSH4_value args = Inr w \<Longrightarrow> w = word_of_nat (be_nat (take 4 args))"
    by (auto simp: PUSH4_value_def go_index_eq_Inr take_nth(4)[unfolded One_nat_def] shift_or_four
        simp del: be_nat.simps)
  have "(ucast (word_of_nat (be_nat bs) :: u64) :: u32) = word_of_nat (be_nat bs)" if "length bs = 3" for bs
  proof -
    have "be_nat bs < 2 ^ 64" using be_nat_bound[of bs] that by simp
    then show ?thesis by (simp add: unsigned_of_nat take_bit_nat_eq_self)
  qed
  from this[of "take 3 args"] show "PUSH3_value args = Inr w \<Longrightarrow> w = word_of_nat (be_nat (take 3 args))"
    by (auto simp: PUSH3_value_def go_index_eq_Inr take_nth(3)[unfolded One_nat_def] shift_or_three
        simp del: be_nat.simps)
qed

lemma emits_push_literal:
  assumes "push_literal v tr = Inr tr'" and "\<And>w. v = Inr w \<Longrightarrow> w = w0"
  shows "emits L tr tr' [PushWord w0]"
  using assms emits_push by (auto simp: push_literal_def)

lemma emits_pushes:
  assumes "push_cases L (Opcode m) (Arguments m) tr = Some (Inr tr')"
  shows "emits L tr tr' (body_plan L m st rs r)"
proof -
  have bounds: "vm_PUSH0 \<le> Opcode m" "Opcode m \<le> vm_PUSH32"
    using assms by (auto simp: push_cases_def word_le_nat_alt split: if_splits)
  then have "Opcode m \<le> vm_SWAP16" by (simp add: word_le_nat_alt)
  note none = arities_range[OF bounds(1) this]
  show ?thesis
  proof (cases "Opcode m \<le> vm_PUSH1 + 3")
    case False
    with assms bounds have "tr' = load_value L (SetBytes L (Arguments m)) tr" "vm_PUSH5 \<le> Opcode m"
      by (auto simp: push_cases_def word_le_nat_alt split: if_splits)
    with False bounds show ?thesis
      by (simp add: body_plan_def none Let_def emits_load_value)
  next
    case True
    with assms consider "Opcode m = vm_PUSH0" "tr' = emit (pushOpcode 0) tr"
      | "Opcode m = vm_PUSH1" "push_literal (PUSH1_value (Arguments m)) tr = Inr tr'"
      | "Opcode m = vm_PUSH2" "push_literal (PUSH2_value (Arguments m)) tr = Inr tr'"
      | "Opcode m = vm_PUSH3" "push_literal (PUSH3_value (Arguments m)) tr = Inr tr'"
      | "Opcode m = vm_PUSH4" "push_literal (PUSH4_value (Arguments m)) tr = Inr tr'"
      by (auto simp: push_cases_def word_le_nat_alt split: if_splits)
    then show ?thesis
    proof cases
      case 1
      with emits_push[of L tr 0] show ?thesis by (simp add: body_plan_def arities Let_def)
    next
      case 2
      from emits_push_literal[OF this(2) PUSH_value(1)] 2(1) show ?thesis
        by (simp add: body_plan_def arities Let_def)
    next
      case 3
      from emits_push_literal[OF this(2) PUSH_value(2)] 3(1) show ?thesis
        by (simp add: body_plan_def arities Let_def)
    next
      case 4
      from emits_push_literal[OF this(2) PUSH_value(3)] 4(1) show ?thesis
        by (simp add: body_plan_def arities Let_def)
    next
      case 5
      from emits_push_literal[OF this(2) PUSH_value(4)] 5(1) show ?thesis
        by (simp add: body_plan_def arities Let_def)
    qed
  qed
qed

lemma emits_pointer:
  "load_pointer L st field tr = Inr tr' \<Longrightarrow> emits L tr tr' [PushValue (the (field (the st)))]"
  "load_address L st afield tr = Inr tr' \<Longrightarrow> emits L tr tr' [PushValue (SetBytes L (afield (the st)))]"
  "load_size L st bfield tr = Inr tr' \<Longrightarrow>
     emits L tr tr' [PushValue (word_of_nat (length (bfield (the st)) mod 2 ^ 64))]"
proof -
  show "load_pointer L st field tr = Inr tr' \<Longrightarrow> emits L tr tr' [PushValue (the (field (the st)))]"
    by (auto simp: load_pointer_def emits_load_value)
  show "load_address L st afield tr = Inr tr' \<Longrightarrow> emits L tr tr' [PushValue (SetBytes L (afield (the st)))]"
    by (auto simp: load_address_def emits_load_value)
  have "NewInt (word_of_nat n) = word_of_nat (n mod 2 ^ 64)" for n
    by (simp add: NewInt_def unsigned_of_nat take_bit_nat_def)
  then show "load_size L st bfield tr = Inr tr' \<Longrightarrow>
      emits L tr tr' [PushValue (word_of_nat (length (bfield (the st)) mod 2 ^ 64))]"
    by (auto simp: load_size_def emits_load_value)
qed

lemma emits_ISZERO:
  assumes "host (emit (pushOpcode 0) tr) eq256Call 2 = Inr tr'"
    and "DisableHostOptimizedOpcodes (config tr)"
  shows "emits L tr tr' [PushWord 0, Pop, Pop, PushWord 0]"
  using emits_trans[OF emits_push emits_host[OF assms(1)], of L] assms(2) by (simp add: numeral_2_eq_2)

text \<open>The emissions of the cases, with the plans as they evaluate.\<close>

lemma emits_traced_short:
  "traced L rs 0 nm tr = Inr tr' \<Longrightarrow> emits L tr tr' [PushValue (last (the rs))]"
  "traced L rs (Suc 0) nm tr = Inr tr' \<Longrightarrow> emits L tr tr' [Pop, PushValue (last (the rs))]"
  using emits_traced[of L rs 0 nm tr tr'] emits_traced[of L rs 1 nm tr tr'] by simp_all

lemma emits_popped:
  "emit (pops (Suc 0)) tr = tr' \<Longrightarrow> emits L tr tr' [Pop]"
  "emit (pops n) tr = tr' \<Longrightarrow> emits L tr tr' (replicate n Pop)"
  "emit [instr ''NOP'' []] tr = tr' \<Longrightarrow> emits L tr tr' [Mark]"
  using emits_pops[of L tr 1] emits_pops[of L tr n] emits_one[of Mark] by auto

lemmas emits_dests =
  emits_traced_short emits_traced emits_pointer emits_pointer(3)[simplified] emits_popped

lemma emits_env:
  assumes "env_cases L (Opcode m) st rs tr = Some (Inr tr')"
    and host: "not_hosted m tr"
  shows "emits L tr tr' (body_plan L m st rs r)"
proof (cases "Opcode m = vm_ISZERO")
  case True
  then have "DisableHostOptimizedOpcodes (config tr)" using host by (simp add: not_hosted_def)
  from True assms(1) emits_ISZERO[OF _ this, of tr'] show ?thesis
    by (simp add: env_cases_def Let_def arities body_plan_def)
next
  case False
  with assms(1) show ?thesis
    by (simp add: env_cases_def Let_def split: if_splits)
      (simp_all add: arities body_plan_def env_value_def emits_dests)
qed

lemma emits_code_cases:
  assumes "code_cases L (Opcode m) st rs tr = Some (Inr tr')"
  shows "emits L tr tr' (body_plan L m st rs r)"
  using assms
  by (simp add: code_cases_def Let_def split: if_splits)
    (simp_all add: arities body_plan_def env_value_def emits_dests)

section \<open>The replay state\<close>

text \<open>Emission by a case that also moves the call depth or the storage labels.\<close>

definition emits_code :: "third_party \<Rightarrow> transpiler \<Rightarrow> transpiler \<Rightarrow> stack_op list \<Rightarrow> bool" where
  "emits_code L tr tr' p \<longleftrightarrow>
     emits L tr (tr'\<lparr>storageSection := storageSection tr, currentDepth := currentDepth tr\<rparr>) p"

definition replay_of :: "transpiler \<Rightarrow> replay_state" where
  "replay_of tr =
     \<lparr> r_depth = currentDepth tr,
       r_store = (\<lambda>k. Option.bind (keyToVar (storageSection tr) k) (resolve (dataSection tr))) \<rparr>"

lemma emits_same: "emits L tr tr' p \<Longrightarrow> storageSection tr' = storageSection tr \<and> currentDepth tr' = currentDepth tr"
  by (simp add: emits_def)

lemma emits_to_code: "emits L tr tr' p \<Longrightarrow> emits_code L tr tr' p"
  by (auto simp: emits_code_def emits_def)

lemma emits_code_trans: "emits_code L a b p \<Longrightarrow> emits_code L b c q \<Longrightarrow> emits_code L a c (p @ q)"
  unfolding emits_code_def
  by (rule emits_trans, assumption) (auto simp: emits_def)

lemma emits_code_values:
  "emits_code L tr tr' p \<Longrightarrow> \<exists>vs. ds_values (dataSection tr') = ds_values (dataSection tr) @ vs"
  by (auto simp: emits_code_def emits_def)

text \<open>Storage labels keep their values when the data section grows.\<close>

lemma store_kept:
  assumes inv: "tr_inv L tr" and vals: "ds_values ds' = ds_values (dataSection tr) @ vs"
    and key: "keyToVar (storageSection tr) k = Some l"
  shows "resolve ds' l = resolve (dataSection tr) l"
proof -
  obtain v where v: "resolve (dataSection tr) l = Some v"
    using inv key by (auto simp: tr_inv_def)
  from resolve_mono[OF vals v] v show ?thesis by simp
qed

lemma replay_of_same:
  assumes inv: "tr_inv L tr" and em: "emits L tr tr' p"
  shows "replay_of tr' = replay_of tr"
proof -
  obtain vs where vals: "ds_values (dataSection tr') = ds_values (dataSection tr) @ vs"
    using em by (auto simp: emits_def)
  have "Option.bind (keyToVar (storageSection tr) k) (resolve (dataSection tr')) =
      Option.bind (keyToVar (storageSection tr) k) (resolve (dataSection tr))" for k
    using store_kept[OF inv vals, of k] by (cases "keyToVar (storageSection tr) k") simp_all
  with emits_same[OF em] show ?thesis
    by (simp add: replay_of_def)
qed

definition refines_step :: "third_party \<Rightarrow> evm_instruction_metadata \<Rightarrow> transpiler \<Rightarrow> transpiler
    \<Rightarrow> stack_op list \<Rightarrow> bool" where
  "refines_step L m tr tr' p \<longleftrightarrow>
     emits_code L tr tr' p \<and> replay_of tr' = next_state L m (replay_of tr)"

definition plain :: "evm_instruction_metadata \<Rightarrow> bool" where
  "plain m \<longleftrightarrow> \<not> IsStackRestore m \<and> Opcode m \<notin> set call_opcodes \<and>
     Opcode m \<notin> {vm_SSTORE, vm_TSTORE, vm_SLOAD, vm_TLOAD}"

lemma next_state_plain: "plain m \<Longrightarrow> next_state L m r = r"
  by (auto simp: next_state_def next_depth_def next_store_def plain_def)

lemma refines_plain:
  "tr_inv L tr \<Longrightarrow> plain m \<Longrightarrow> emits L tr tr' p \<Longrightarrow> refines_step L m tr tr' p"
  by (simp add: refines_step_def emits_to_code replay_of_same next_state_plain)

lemma plain_groups:
  "arith_cases L (Opcode m) rs tr = Some res \<Longrightarrow> \<not> IsStackRestore m \<Longrightarrow> plain m"
  "push_cases L (Opcode m) args tr = Some res \<Longrightarrow> \<not> IsStackRestore m \<Longrightarrow> plain m"
  "stack_cases (Opcode m) tr = Some tr' \<Longrightarrow> \<not> IsStackRestore m \<Longrightarrow> plain m"
  "env_cases L (Opcode m) st rs tr = Some res \<Longrightarrow> \<not> IsStackRestore m \<Longrightarrow> plain m"
  "code_cases L (Opcode m) st rs tr = Some res \<Longrightarrow> \<not> IsStackRestore m \<Longrightarrow> plain m"
  unfolding plain_def call_opcodes_def
  by (auto simp: arith_cases_def push_cases_def stack_cases_def env_cases_def code_cases_def
      word_le_nat_alt split: if_splits)

section \<open>Call data\<close>

text \<open>A Go slice is shorter than \<open>2 ^ 63\<close>, the bound of \<open>int\<close>.\<close>

definition go_sized :: "evm_execution_state option \<Rightarrow> bool" where
  "go_sized st = (case st of None \<Rightarrow> True | Some s \<Rightarrow> length (CallData s) < 2 ^ 63)"

lemma padded_window:
  assumes "off < length cd" and e: "e = min (off + k) (length cd)"
  shows "go_copy (replicate k 0) (take (e - off) (drop off cd)) =
    map (\<lambda>i. if off + i < length cd then cd ! (off + i) else 0) [0..<k]"
proof (rule nth_equalityI)
  let ?src = "take (e - off) (drop off cd)"
  have len: "length ?src = e - off" "e - off \<le> k" using assms by simp_all
  show "length (go_copy (replicate k 0) ?src) =
      length (map (\<lambda>i. if off + i < length cd then cd ! (off + i) else 0) [0..<k])"
    by simp
  fix i assume "i < length (go_copy (replicate k 0) ?src)"
  then have i: "i < k" by simp
  have "i - (e - off) < k - (e - off)" if "\<not> i < e - off"
    using i that by arith
  then have "go_copy (replicate k 0) ?src ! i = (if i < e - off then ?src ! i else 0)"
    using len i by (simp add: go_copy_def nth_append)
  moreover have "i < e - off \<longleftrightarrow> off + i < length cd"
    using assms i by arith
  ultimately show "go_copy (replicate k 0) ?src ! i =
      map (\<lambda>i. if off + i < length cd then cd ! (off + i) else 0) [0..<k] ! i"
    using i by simp
qed

lemma calldataloadCall_total:
  assumes "length cd < 2 ^ 63"
  shows "\<exists>l ds. Add L (calldata_word L (unat offset) cd) (dataSection tr) = (l, ds) \<and>
    calldataloadCall L offset cd tr = Inr (loadFromDataSection l, tr\<lparr>dataSection := ds\<rparr>)"
proof -
  let ?n = "word_of_nat (length cd) :: u64"
  let ?e = "if ?n < offset + 32 then ?n else offset + 32"
  have n: "unat ?n = length cd"
    using assms by (intro unat_word_of_nat) simp
  have less: "offset < ?n \<longleftrightarrow> unat offset < length cd"
    by (simp add: word_less_nat_alt n)
  have e: "unat ?e = min (unat offset + 32) (length cd)" if "unat offset < length cd"
  proof -
    have "unat (offset + word_of_nat 32) = unat offset + unat (word_of_nat 32 :: u64)"
      using assms that by (intro unat_add_lem[THEN iffD1]) simp
    then have "unat (offset + 32) = unat offset + 32" by simp
    then show ?thesis by (auto simp: word_less_nat_alt n min_def)
  qed
  have win: "map (\<lambda>i. if unat offset + i < length cd then cd ! (unat offset + i) else 0) [0..<32] =
      replicate 32 0" if "\<not> unat offset < length cd"
    using that by (intro nth_equalityI) simp_all
  have slice: "go_slice cd (unat offset) (unat ?e) =
      Inr (take (unat ?e - unat offset) (drop (unat offset) cd))" if "unat offset < length cd"
    unfolding go_slice_def e[OF that] using that by simp
  obtain l ds where add: "Add L (calldata_word L (unat offset) cd) (dataSection tr) = (l, ds)"
    by fastforce
  have "calldataloadCall L offset cd tr = Inr (loadFromDataSection l, tr\<lparr>dataSection := ds\<rparr>)"
  proof (cases "unat offset < length cd")
    case True
    then have "go_copy (replicate 32 0) (take (unat ?e - unat offset) (drop (unat offset) cd)) =
        map (\<lambda>i. if unat offset + i < length cd then cd ! (unat offset + i) else 0) [0..<32]"
      using e[OF True] by (intro padded_window)
    with True slice[OF True] add less show ?thesis
      by (simp add: calldataloadCall_def calldata_word_def Let_def)
  next
    case False
    with win less add show ?thesis
      by (simp add: calldataloadCall_def calldata_word_def)
  qed
  with add show ?thesis by blast
qed

lemma calldataloadCall_value:
  assumes "length cd < 2 ^ 63" and "calldataloadCall L offset cd tr = Inr (is, tr')"
  shows "\<exists>l ds. Add L (calldata_word L (unat offset) cd) (dataSection tr) = (l, ds) \<and>
    is = loadFromDataSection l \<and> tr' = tr\<lparr>dataSection := ds\<rparr>"
  using calldataloadCall_total[OF assms(1), of L offset tr] assms(2) by auto

lemma emits_calldataload:
  assumes "CALLDATALOAD_case L snapshot st tr = Inr tr'" and "go_sized st"
  shows "emits L tr tr'
    [Pop, PushValue (calldata_word L (unat (ucast (snapshot ! 0) :: u64)) (CallData (the st)))]"
proof -
  let ?tr = "emit (pops 1) tr"
  obtain s "is" tr2 where st: "st = Some s" and tr': "tr' = emit is tr2"
    and call: "calldataloadCall L (ucast (snapshot ! 0)) (CallData s) ?tr = Inr (is, tr2)"
    using assms(1) by (auto simp: CALLDATALOAD_case_def go_index_eq_Inr)
  have "length (CallData s) < 2 ^ 63" using assms(2) st by (simp add: go_sized_def)
  from calldataloadCall_value[OF this call] obtain l ds where
    add: "Add L (calldata_word L (unat (ucast (snapshot ! 0) :: u64)) (CallData s)) (dataSection ?tr) = (l, ds)"
    and out: "is = loadFromDataSection l" "tr2 = ?tr\<lparr>dataSection := ds\<rparr>"
    by auto
  from emits_trans[OF emits_pops[of L tr 1] emits_data[OF add]] show ?thesis
    by (simp add: st tr' out)
qed

section \<open>Storage\<close>

text \<open>What \<open>Store\<close> and \<open>Load\<close> do to the labels, read as values: the first value recorded wins.\<close>

lemma record_first:
  assumes inv: "tr_inv L tr"
    and res: "(ss' = storageSection tr \<and> ds' = dataSection tr \<and> keyToVar (storageSection tr) key = Some l) \<or>
      (Add L v (dataSection tr) = (l, ds') \<and>
       ss' = (storageSection tr)\<lparr>keyToVar := (keyToVar (storageSection tr))(key \<mapsto> l)\<rparr> \<and>
       keyToVar (storageSection tr) key = None)"
  defines "s \<equiv> r_store (replay_of tr)"
  shows "(\<lambda>k. Option.bind (keyToVar ss' k) (resolve ds')) = (if s key = None then s(key \<mapsto> v) else s) \<and>
    resolve ds' l = Some (case s key of None \<Rightarrow> v | Some w \<Rightarrow> w) \<and>
    pool_ok L ds' \<and> (\<exists>vs. ds_values ds' = ds_values (dataSection tr) @ vs)"
  using res
proof
  assume *: "ss' = storageSection tr \<and> ds' = dataSection tr \<and> keyToVar (storageSection tr) key = Some l"
  then obtain w where w: "resolve (dataSection tr) l = Some w"
    using inv by (auto simp: tr_inv_def)
  with * have "s key = Some w" by (simp add: s_def replay_of_def)
  with * w inv show ?thesis by (simp add: s_def replay_of_def tr_inv_def)
next
  assume *: "Add L v (dataSection tr) = (l, ds') \<and>
       ss' = (storageSection tr)\<lparr>keyToVar := (keyToVar (storageSection tr))(key \<mapsto> l)\<rparr> \<and>
       keyToVar (storageSection tr) key = None"
  have ok: "pool_ok L (dataSection tr)" using inv by (simp add: tr_inv_def)
  have l: "resolve ds' l = Some v" "pool_ok L ds'"
    using pool.denote_add[OF ok, of v] pool.ok_add[OF ok, of v] * by simp_all
  obtain vs where vals: "ds_values ds' = ds_values (dataSection tr) @ vs"
    using Add_values * by blast
  have none: "s key = None" using * by (simp add: s_def replay_of_def)
  have "Option.bind (keyToVar ss' k) (resolve ds') = (s(key \<mapsto> v)) k" for k
  proof (cases "k = key")
    case True
    with * l show ?thesis by simp
  next
    case False
    with * store_kept[OF inv vals, of k] show ?thesis
      by (cases "keyToVar (storageSection tr) k") (simp_all add: s_def replay_of_def)
  qed
  with none l vals show ?thesis by auto
qed

lemma Store_split:
  "Store L ss ds key v = (l, ss', ds') \<Longrightarrow>
   (ss' = ss \<and> ds' = ds \<and> keyToVar ss key = Some l) \<or>
   (Add L v ds = (l, ds') \<and> ss' = ss\<lparr>keyToVar := (keyToVar ss)(key \<mapsto> l)\<rparr> \<and> keyToVar ss key = None)"
  by (auto simp: Store_def split: option.splits prod.splits)

lemma Load_Store: "Load L ss ds key = Store L ss ds key 0"
  by (simp add: Load_def Store_def)

lemma tr_inv_emit [simp]: "tr_inv L (emit (pops n) tr) \<longleftrightarrow> tr_inv L tr"
  by (simp add: tr_inv_def emit_def)

lemma refines_store:
  assumes inv: "tr_inv L tr" and m: "\<not> IsStackRestore m" "Opcode m = vm_SSTORE \<or> Opcode m = vm_TSTORE"
    and res: "store_case L (StackSnapshot m) tr = Inr tr'"
  shows "refines_step L m tr tr' (replicate 2 Pop)"
proof -
  let ?tr = "emit (pops 2) tr"
  let ?k = "StackSnapshot m ! 1" and ?v = "StackSnapshot m ! 0"
  obtain l ss ds where st: "Store L (storageSection tr) (dataSection tr) (Hex L ?k) ?v = (l, ss, ds)"
    and tr': "tr' = ?tr\<lparr>storageSection := ss, dataSection := ds\<rparr>"
    using res by (auto simp: store_case_def Let_def go_index_eq_Inr getStorageKey_def getStorageValue_def
        split: prod.splits)
  from record_first[OF inv Store_split[OF st]]
  have store: "r_store (replay_of tr') = next_store L m (r_store (replay_of tr))"
    and grow: "pool_ok L ds" "\<exists>vs. ds_values ds = ds_values (dataSection tr) @ vs"
    using m by (simp_all add: replay_of_def tr' next_store_def Let_def)
  have "list_all2 (lowers ds) (replicate 2 Pop) (replicate 2 popStack)"
    by (simp add: list_all2_conv_all_nth)
  with grow have "emits_code L tr tr' (replicate 2 Pop)"
    by (auto simp: emits_code_def emits_def tr' emit_def pops_def)
  moreover have "r_depth (replay_of tr') = next_depth m (r_depth (replay_of tr))"
    using m by (auto simp: replay_of_def tr' next_depth_def call_opcodes_def)
  ultimately show ?thesis
    using store by (simp add: refines_step_def next_state_def)
qed

lemma refines_load:
  assumes inv: "tr_inv L tr" and m: "\<not> IsStackRestore m" "Opcode m = vm_SLOAD \<or> Opcode m = vm_TLOAD"
    and res: "load_case L (StackSnapshot m) tr = Inr tr'"
  shows "refines_step L m tr tr'
    [Pop, PushValue (stored (replay_of tr) (Hex L (StackSnapshot m ! 0)))]"
proof -
  let ?tr = "emit (pops 1) tr"
  let ?k = "StackSnapshot m ! 0"
  obtain l ss ds where st: "Store L (storageSection tr) (dataSection tr) (Hex L ?k) 0 = (l, ss, ds)"
    and tr': "tr' = emit (loadFromDataSection l) (?tr\<lparr>storageSection := ss, dataSection := ds\<rparr>)"
    using res by (auto simp: load_case_def Let_def go_index_eq_Inr getStorageKey_def Load_Store
        split: prod.splits)
  from record_first[OF inv Store_split[OF st]] m
  have store: "r_store (replay_of tr') = next_store L m (r_store (replay_of tr))"
    and l: "resolve ds l = Some (stored (replay_of tr) (Hex L ?k))"
    and grow: "pool_ok L ds" "\<exists>vs. ds_values ds = ds_values (dataSection tr) @ vs"
    by (auto simp: replay_of_def tr' next_store_def stored_def Let_def)
  have "emits_code L tr tr' [Pop, PushValue (stored (replay_of tr) (Hex L ?k))]"
    using grow l by (auto simp: emits_code_def emits_def tr' emit_def pops_def
        intro!: exI[of _ "[popStack, loadFromDataSection l]"])
  moreover have "r_depth (replay_of tr') = next_depth m (r_depth (replay_of tr))"
    using m by (auto simp: replay_of_def tr' next_depth_def call_opcodes_def)
  ultimately show ?thesis
    using store by (simp add: refines_step_def next_state_def)
qed

section \<open>One trace entry\<close>

text \<open>
  An entry is replayed where its code calls no library routine and the configuration separates no
  call contexts and copies no memory for it; in the production configuration every entry is.
\<close>

definition replayable :: "evm_instruction_metadata \<Rightarrow> transpiler \<Rightarrow> bool" where
  "replayable m tr \<longleftrightarrow> not_hosted m tr \<and> mcopy_off (config tr) m \<and>
     (Opcode m \<in> set call_opcodes \<longrightarrow> DisableCallContextSeparation (config tr))"

lemma production_replayable: "production (config tr) \<Longrightarrow> replayable m tr"
  by (simp add: production_def replayable_def not_hosted_def mcopy_off_def)

lemma refines_data:
  assumes inv: "tr_inv L tr" and m: "\<not> IsStackRestore m" and st: "go_sized st"
    and res: "data_cases L (Opcode m) (StackSnapshot m) st rs tr = Some (Inr tr')"
  shows "refines_step L m tr tr' (body_plan L m st rs (replay_of tr))"
proof -
  consider (store) "Opcode m = vm_SSTORE \<or> Opcode m = vm_TSTORE"
      "store_case L (StackSnapshot m) tr = Inr tr'"
    | (load) "Opcode m = vm_SLOAD \<or> Opcode m = vm_TLOAD" "load_case L (StackSnapshot m) tr = Inr tr'"
    | (calldata) "Opcode m = vm_CALLDATALOAD" "CALLDATALOAD_case L (StackSnapshot m) st tr = Inr tr'"
    | (other) "plain m" "Opcode m \<noteq> vm_CALLDATALOAD"
    using res m by (auto simp: data_cases_def plain_def call_opcodes_def split: if_splits)
  then show ?thesis
  proof cases
    case store
    from store(1) have "body_plan L m st rs (replay_of tr) = replicate 2 Pop"
      by (elim disjE) (simp_all add: body_plan_def arities Let_def)
    with refines_store[OF inv m store] show ?thesis by simp
  next
    case load
    from load(1) have "body_plan L m st rs (replay_of tr) =
        [Pop, PushValue (stored (replay_of tr) (Hex L (StackSnapshot m ! 0)))]"
      by (elim disjE) (simp_all add: body_plan_def arities Let_def)
    with refines_load[OF inv m load] show ?thesis by simp
  next
    case calldata
    have "plain m" using m calldata(1) by (simp add: plain_def call_opcodes_def)
    from refines_plain[OF inv this emits_calldataload[OF calldata(2) st]] calldata(1)
    show ?thesis by (simp add: body_plan_def arities Let_def)
  next
    case other
    have "emits L tr tr' (body_plan L m st rs (replay_of tr))"
      using res other by (simp add: data_cases_def Let_def plain_def split: if_splits)
        (simp_all add: arities body_plan_def env_value_def emits_dests)
    then show ?thesis by (rule refines_plain[OF inv other(1)])
  qed
qed

lemma refines_enter:
  assumes inv: "tr_inv L tr" and m: "\<not> IsStackRestore m" "Opcode m \<in> set call_opcodes"
    and prod: "DisableCallContextSeparation (config tr)"
  shows "refines_step L m tr (enter_call n tr) (replicate n Pop)"
proof -
  have out: "enter_call n tr = (emit (pops n) tr)\<lparr>currentDepth := currentDepth tr + 1\<rparr>"
    using prod by (simp add: enter_call_def Let_def)
  have "emits_code L tr (enter_call n tr) (replicate n Pop)"
    using emits_pops[of L tr n] by (simp add: emits_code_def out emit_def)
  moreover have "replay_of (enter_call n tr) = next_state L m (replay_of tr)"
    using m by (auto simp: out replay_of_def next_state_def next_depth_def next_store_def call_opcodes_def)
  ultimately show ?thesis by (simp add: refines_step_def)
qed

lemma refines_call:
  assumes inv: "tr_inv L tr" and m: "\<not> IsStackRestore m" and ok: "replayable m tr"
    and res: "call_cases L (Opcode m) (StackSnapshot m) st rs tr = Some (Inr tr')"
  shows "refines_step L m tr tr' (body_plan L m st rs (replay_of tr))"
proof -
  have sep: "Opcode m \<in> set call_opcodes \<Longrightarrow> DisableCallContextSeparation (config tr)"
    and mcopy: "Opcode m = vm_MCOPY \<Longrightarrow> DisableMCopyOperations (config tr)"
    using ok by (simp_all add: replayable_def mcopy_off_def)
  consider (enter) n where "Opcode m \<in> set call_opcodes" "tr' = enter_call n tr"
      "body_plan L m st rs (replay_of tr) = replicate n Pop"
    | (other) "plain m" "Opcode m \<in> {vm_CALLER, vm_KECCAK256, vm_MCOPY}"
    using res m by (simp add: call_cases_def split: if_splits)
      (simp_all add: call_opcodes_def plain_def body_plan_def arities Let_def)
  then show ?thesis
  proof cases
    case enter
    with refines_enter[OF inv m enter(1) sep[OF enter(1)], of n] show ?thesis by simp
  next
    case other
    have "emits L tr tr' (body_plan L m st rs (replay_of tr))"
      using res other(2) mcopy by (elim insertE emptyE)
        (simp_all add: call_cases_def MCOPY_case_def Let_def arities body_plan_def env_value_def emits_dests)
    then show ?thesis by (rule refines_plain[OF inv other(1)])
  qed
qed

lemma refines_switch:
  assumes inv: "tr_inv L tr" and m: "\<not> IsStackRestore m" and ok: "replayable m tr"
    and st: "go_sized st" and res: "switch_opcode L m st rs tr = Inr tr'"
  shows "refines_step L m tr tr' (body_plan L m st rs (replay_of tr))"
proof -
  have host: "not_hosted m tr" using ok by (simp add: replayable_def)
  note plain = refines_plain[OF inv plain_groups(1)] refines_plain[OF inv plain_groups(2)]
    refines_plain[OF inv plain_groups(3)] refines_plain[OF inv plain_groups(4)]
    refines_plain[OF inv plain_groups(5)]
  from res consider "arith_cases L (Opcode m) rs tr = Some (Inr tr')"
    | "push_cases L (Opcode m) (Arguments m) tr = Some (Inr tr')"
    | "stack_cases (Opcode m) tr = Some tr'"
    | "env_cases L (Opcode m) st rs tr = Some (Inr tr')"
    | "code_cases L (Opcode m) st rs tr = Some (Inr tr')"
    | "data_cases L (Opcode m) (StackSnapshot m) st rs tr = Some (Inr tr')"
    | "call_cases L (Opcode m) (StackSnapshot m) st rs tr = Some (Inr tr')"
    by (auto simp: switch_opcode_def split: option.splits)
  then show ?thesis
  proof cases
    case 1
    then show ?thesis by (intro plain(1)[OF _ m] emits_body[OF body_arith host])
  next
    case 2
    then show ?thesis by (intro plain(2)[OF _ m] emits_pushes)
  next
    case 3
    then show ?thesis by (intro plain(3)[OF _ m] emits_stack[OF _ host])
  next
    case 4
    then show ?thesis by (intro plain(4)[OF _ m] emits_env[OF _ host])
  next
    case 5
    then show ?thesis by (intro plain(5)[OF _ m] emits_code_cases)
  next
    case 6
    then show ?thesis by (rule refines_data[OF inv m st])
  next
    case 7
    then show ?thesis by (rule refines_call[OF inv m ok])
  qed
qed

text \<open>Debug records change neither the code nor the replay state.\<close>

lemma emits_code_debug [simp]:
  "emits_code L tr (storeDebugInfo L n op t) p \<longleftrightarrow> emits_code L tr t p"
  "emits_code L tr (t\<lparr>debugMappings := ms\<rparr>) p \<longleftrightarrow> emits_code L tr t p"
  "replay_of (storeDebugInfo L n op t) = replay_of t"
  "replay_of (t\<lparr>debugMappings := ms\<rparr>) = replay_of t"
  by (simp_all add: storeDebugInfo_def emits_code_def emits_def replay_of_def)

lemma replay_of_emit [simp]: "replay_of (emit is tr) = replay_of tr"
  by (simp add: replay_of_def)

lemma emits_mark: "emits L tr (emit [EBREAK_instr] tr) [Mark]"
  by (rule emits_one) simp

lemma emits_code_mark: "emits_code L tr t p \<Longrightarrow> emits_code L tr (emit [EBREAK_instr] t) (p @ [Mark])"
  by (rule emits_code_trans[OF _ emits_to_code[OF emits_mark]])

lemma emits_halt_tail:
  "DisableCallContextSeparation (config tr) \<Longrightarrow>
   emits L tr (halt_tail tr) (if currentDepth tr > 0 then [Mark] else [])"
  using emits_mark by (simp add: halt_tail_def Let_def)

lemma low_word_twice: "(ucast (ucast (v :: u256) :: u64) :: u32) = ucast v"
  by (rule bit_word_eqI) (simp add: bit_simps)

lemma refines_halt:
  assumes m: "\<not> IsStackRestore m" and sep: "DisableCallContextSeparation (config tr)"
    and res: "halt_cases L (Opcode m) tr = Some tr'"
  shows "refines_step L m tr tr' (plan L m st rs (replay_of tr))"
proof -
  have depth: "r_depth (replay_of tr) = currentDepth tr" by (simp add: replay_of_def)
  have pl: "plain m"
    using res m by (auto simp: halt_cases_def plain_def call_opcodes_def Let_def split: if_splits)
  consider "Opcode m = vm_STOP" "tr' = tr"
    | n where "Opcode m = vm_RETURN \<or> Opcode m = vm_REVERT"
        "tr' = storeDebugInfo L n (Opcode m) (halt_tail (emit (pops 2) tr))"
    | n where "Opcode m = vm_INVALID" "tr' = storeDebugInfo L n (Opcode m) (halt_tail tr)"
    using res by (auto simp: halt_cases_def Let_def split: if_splits)
  then show ?thesis
  proof cases
    case 1
    with m show ?thesis
      by (simp add: refines_step_def plan_def emits_to_code next_state_plain[OF pl])
  next
    case 2
    have "emits L tr (halt_tail (emit (pops 2) tr)) (replicate 2 Pop @ (if currentDepth tr > 0 then [Mark] else []))"
      using emits_trans[OF emits_pops emits_halt_tail[of "emit (pops 2) tr"], of L] sep by simp
    moreover have "replay_of (halt_tail (emit (pops 2) tr)) = replay_of tr"
      using sep by (simp add: halt_tail_def Let_def)
    moreover have "replicate 2 Pop = [Pop, Pop]"
      by (simp add: numeral_2_eq_2)
    ultimately show ?thesis
      using m 2 by (auto simp: refines_step_def plan_def depth Let_def emits_to_code
          next_state_plain[OF pl])
  next
    case 3
    have "replay_of (halt_tail tr) = replay_of tr"
      using sep by (simp add: halt_tail_def Let_def)
    with emits_halt_tail[OF sep, of L] m 3 show ?thesis
      by (simp add: refines_step_def plan_def depth emits_to_code next_state_plain[OF pl])
  qed
qed

lemma refines_restore:
  assumes m: "IsStackRestore m" and sep: "DisableCallContextSeparation (config tr)"
  shows "refines_step L m tr (stack_restore m tr) (plan L m st rs (replay_of tr))"
proof -
  define t1 where "t1 = (if currentDepth tr > 0 then tr\<lparr>currentDepth := currentDepth tr - 1\<rparr> else tr)"
  define t3 where "t3 = (case Result m of
    Some v \<Rightarrow> emit (pushOpcode (ucast (ucast v :: u64))) t1 | None \<Rightarrow> t1)"
  have c: "DisableCallContextSeparation (config t1)" using sep by (simp add: t1_def)
  have e1: "emits_code L tr t1 []"
    by (auto simp: t1_def emits_code_def emits_def)
  have e3: "emits_code L t1 t3 (case Result m of None \<Rightarrow> [] | Some v \<Rightarrow> [PushWord (ucast v)])"
    using emits_push by (auto simp: t3_def low_word_twice intro: emits_to_code split: option.split)
  have code: "emits_code L tr (emit [EBREAK_instr] t3) (plan L m st rs (replay_of tr))"
    using emits_code_mark[OF emits_code_trans[OF e1 e3]] m by (simp add: plan_def)
  have "replay_of t3 = next_state L m (replay_of tr)"
    using m by (simp add: t3_def t1_def replay_of_def next_state_def next_depth_def next_store_def
        split: option.split)
  with code c show ?thesis
    unfolding stack_restore_def Let_def t1_def[symmetric]
    by (simp add: refines_step_def t3_def[symmetric])
qed

lemma step_refines:
  assumes inv: "tr_inv L tr" and prod: "production (config tr)" and st: "go_sized st"
    and res: "AddInstructionWithResult L m st rs tr = Inr tr'"
  shows "refines_step L m tr tr' (plan L m st rs (replay_of tr))"
proof (cases "IsStackRestore m")
  case True
  with res prod refines_restore[OF True, of tr] show ?thesis
    by (simp add: AddInstructionWithResult_def production_def)
next
  case m: False
  have sep: "DisableCallContextSeparation (config tr)" using prod by (simp add: production_def)
  show ?thesis
  proof (cases "halt_cases L (Opcode m) tr")
    case (Some t)
    with res m refines_halt[OF m sep] show ?thesis
      by (simp add: AddInstructionWithResult_def)
  next
    case None
    with res m obtain t where t: "switch_opcode L m st rs tr = Inr t"
      and tr': "tr' = storeDebugInfo L (length (instructions tr)) (Opcode m) (emit [EBREAK_instr] t)"
      by (auto simp: AddInstructionWithResult_def)
    have "Opcode m \<notin> {vm_STOP, vm_RETURN, vm_REVERT, vm_INVALID}"
      using None by (auto simp: halt_cases_def Let_def split: if_splits)
    with m have "plan L m st rs (replay_of tr) = body_plan L m st rs (replay_of tr) @ [Mark]"
      by (simp add: plan_def)
    with refines_switch[OF inv m production_replayable[OF prod] st t] show ?thesis
      by (simp add: refines_step_def tr' emits_code_mark)
  qed
qed

section \<open>The whole program\<close>

text \<open>The stack a result is replayed from, where reading it does not fail.\<close>

definition result_for :: "evm_instruction_metadata list \<Rightarrow> nat \<Rightarrow> u256 list option" where
  "result_for ins i =
     (if i + 1 < length ins then
        Some (StackSnapshot (ins ! (if Opcode (ins ! i) = vm_CREATE2 \<or> Opcode (ins ! i) = vm_CREATE
                                    then i + 2 else i + 1)))
      else None)"

fun trace_plan :: "third_party \<Rightarrow> evm_instruction_metadata list \<Rightarrow> evm_execution_state option
    \<Rightarrow> nat list \<Rightarrow> replay_state \<Rightarrow> stack_op list" where
  "trace_plan L ins st [] r = []"
| "trace_plan L ins st (i # is) r =
     plan L (ins ! i) st (result_for ins i) r @ trace_plan L ins st is (next_state L (ins ! i) r)"

text \<open>Running a plan on the low words of the stack.\<close>

fun low_ops :: "nat \<Rightarrow> stack_op list \<Rightarrow> u32 list \<Rightarrow> u32 list option" where
  "low_ops cap [] ws = Some ws"
| "low_ops cap (i # is) ws = (case low_op cap i ws of None \<Rightarrow> None | Some ws' \<Rightarrow> low_ops cap is ws')"

lemma low_ops_aruns: "low_ops cap is ws = stack_sim.aruns cap is ws"
  by (induction "is" arbitrary: ws) (simp_all split: option.split)

lemma run_concat: "stack_sim.cruns env iss m = Some m' \<Longrightarrow> run_asm env (concat iss) m = Some m'"
  by (induction iss arbitrary: m) (auto simp: bind_eq_Some_conv intro: run_asm_append)

lemma result_stack_for: "result_stack ins i = Inr rs \<Longrightarrow> rs = result_for ins i"
  by (auto simp: result_stack_def result_for_def go_index_eq_Inr split: if_splits)

lemma production_mcopy: "production cfg \<Longrightarrow> mcopy_fits cfg m"
  by (simp add: production_def mcopy_fits_def mcopy_off_def)

lemma trace_refines:
  assumes "tracing.run L ins st is tr = Inr tr'" and "tr_inv L tr" and "production (config tr)"
    and "go_sized st"
  shows "emits_code L tr tr' (trace_plan L ins st is (replay_of tr))"
  using assms(1-3)
proof (induction "is" arbitrary: tr)
  case Nil
  then show ?case by (simp add: emits_to_code)
next
  case (Cons i "is")
  from Cons.prems(1) obtain t where t: "trace_step L ins st i tr = Inr t"
    and rest: "tracing.run L ins st is t = Inr tr'" by auto
  from t obtain rs where i: "i < length ins" and rs: "result_stack ins i = Inr rs"
    and add: "AddInstructionWithResult L (ins ! i) st rs tr = Inr t"
    by (auto simp: trace_step_def go_index_eq_Inr)
  from step_refines[OF Cons.prems(2,3) assms(4) add] result_stack_for[OF rs]
  have step: "emits_code L tr t (plan L (ins ! i) st (result_for ins i) (replay_of tr))"
    and r: "replay_of t = next_state L (ins ! i) (replay_of tr)"
    by (simp_all add: refines_step_def)
  have "tr_inv L t" "config t = config tr"
    using step_ok_AddInstruction[OF production_mcopy[OF Cons.prems(3)], of L "ins ! i" st rs]
      add Cons.prems(2) by (auto simp: steps_to_def tr_le_def)
  with Cons.IH[OF rest] Cons.prems(3) have "emits_code L t tr' (trace_plan L ins st is (replay_of t))"
    by simp
  from emits_code_trans[OF step this] show ?case by (simp add: r)
qed

text \<open>Running the code a piece of the transpilation appended.\<close>

lemma emitted_runs:
  assumes "emits_code L tr tr' p" and "pool_ok L (dataSection tr)"
    and "low_ops cap p ws = Some ws'" and "low_rel env (dataSection tr') lo cap ws m"
  shows "\<exists>m'. run_asm env (drop (length (instructions tr)) (instructions tr')) m = Some m' \<and>
    low_rel env (dataSection tr') lo cap ws' m'"
proof -
  from assms(1,2) obtain iss where iss: "instructions tr' = instructions tr @ concat iss"
    "list_all2 (lowers (dataSection tr')) p iss"
    by (auto simp: emits_code_def emits_def)
  from stack_sim.runs[OF iss(2) assms(4)] assms(3) obtain m'
    where "stack_sim.cruns env iss m = Some m'" "low_rel env (dataSection tr') lo cap ws' m'"
    by (auto simp: low_ops_aruns)
  with iss(1) run_concat show ?thesis by fastforce
qed

text \<open>A whole trace, from any state and from the start.\<close>

definition fresh :: replay_state where
  "fresh = \<lparr>r_depth = 0, r_store = Map.empty\<rparr>"

lemma replay_of_new: "replay_of (NewTranspilerWithConfig cfg) = fresh"
  by (simp add: replay_of_def fresh_def NewTranspilerWithConfig_def NewStorageSection_def)

lemma process_emits:
  assumes "ProcessExecution L ins st tr = Inr (tr', sn)" and "tr_inv L tr"
    and "production (config tr)" and "go_sized st"
  shows "emits_code L tr tr' (trace_plan L ins st [0..<length ins] (replay_of tr))"
  by (rule trace_refines[OF ProcessExecution_Inr[OF assms(1)] assms(2-4)])

end
