(* ===== verification/Outcomes.thy ===== *)
theory Outcomes
  imports Replay
begin

text \<open>
  When the transpiler succeeds and how it fails: the implemented opcodes, the data each needs
  (immediate bytes, stack snapshot, execution state, replayed result), success when it is there,
  and the error the code returns when the opcode is unknown or the result is missing.
\<close>

section \<open>Implemented opcodes\<close>

definition other_opcodes :: "opcode list" where
  "other_opcodes =
     [vm_JUMPDEST, vm_ISZERO, vm_CALLVALUE, vm_GAS, vm_ADDRESS, vm_ORIGIN, vm_TIMESTAMP, vm_CHAINID,
      vm_COINBASE, vm_NUMBER, vm_CODESIZE, vm_CALLDATASIZE, vm_CALLDATALOAD, vm_SLOAD, vm_TLOAD,
      vm_CALLER, vm_STOP, vm_RETURN, vm_REVERT, vm_INVALID]"

definition implemented :: "opcode \<Rightarrow> bool" where
  "implemented op \<longleftrightarrow>
     dummy_arity op \<noteq> None \<or> traced_arity op \<noteq> None \<or> pop_arity op \<noteq> None \<or>
     (vm_PUSH0 \<le> op \<and> op \<le> vm_SWAP16) \<or> op \<in> set other_opcodes"

lemma map_of_None: "map_of kvs k = None \<longleftrightarrow> k \<notin> set (map fst kvs)"
  by (simp add: map_of_eq_None_iff)

lemma push_range:
  assumes "push_cases L op args tr = None"
  shows "\<not> (vm_PUSH0 \<le> op \<and> op \<le> vm_PUSH32)"
proof
  assume range: "vm_PUSH0 \<le> op \<and> op \<le> vm_PUSH32"
  have "unat op \<notin> {0x5f, 0x60, 0x61, 0x62, 0x63}" "\<not> (0x64 \<le> unat op \<and> unat op \<le> 0x7f)"
    using assms by (auto simp: push_cases_def word_le_nat_alt word_unat_eq_iff split: if_splits)
  with range show False by (simp add: word_le_nat_alt)
qed

lemma stack_range:
  assumes "stack_cases op tr = None"
  shows "\<not> (vm_DUP1 \<le> op \<and> op \<le> vm_SWAP16)"
proof
  assume range: "vm_DUP1 \<le> op \<and> op \<le> vm_SWAP16"
  have "\<not> (0x80 \<le> unat op \<and> unat op \<le> 0x8f)" "\<not> (0x90 \<le> unat op \<and> unat op \<le> 0x9f)"
    using assms by (auto simp: stack_cases_def word_le_nat_alt split: if_splits)
  with range show False by (simp add: word_le_nat_alt)
qed

lemma arith_None:
  "arith_cases L op rs tr = None \<Longrightarrow> op \<notin> set [vm_ADD, vm_MUL, vm_SUB, vm_DIV, vm_SDIV, vm_MOD,
    vm_SMOD, vm_ADDMOD, vm_MULMOD, vm_EXP, vm_SIGNEXTEND, vm_AND, vm_OR, vm_XOR, vm_EQ, vm_SLT, vm_SHR,
    vm_SHL, vm_GT, vm_SGT, vm_LT, vm_NOT, vm_BYTE, vm_SAR]"
  by (simp add: arith_cases_def split: if_splits)

lemma stack_None:
  "stack_cases op tr = None \<Longrightarrow> op \<notin> set [vm_JUMP, vm_JUMPI, vm_POP, vm_MSTORE]"
  by (simp add: stack_cases_def split: if_splits)

lemma env_None:
  "env_cases L op st rs tr = None \<Longrightarrow> op \<notin> set [vm_MLOAD, vm_JUMPDEST, vm_ISZERO, vm_CALLVALUE, vm_GAS,
    vm_ADDRESS, vm_BALANCE, vm_ORIGIN, vm_TIMESTAMP, vm_CHAINID, vm_COINBASE, vm_BLOCKHASH, vm_NUMBER,
    vm_DIFFICULTY, vm_GASLIMIT, vm_SELFBALANCE, vm_BASEFEE, vm_BLOBHASH, vm_BLOBBASEFEE, vm_GASPRICE]"
  by (simp add: env_cases_def Let_def split: if_splits)

lemma code_None:
  "code_cases L op st rs tr = None \<Longrightarrow> op \<notin> set [vm_CODESIZE, vm_PC, vm_MSIZE, vm_MSTORE8, vm_EXTCODECOPY,
    vm_EXTCODEHASH, vm_CREATE, vm_CREATE2, vm_SELFDESTRUCT, vm_EXTCODESIZE, vm_LOG0, vm_LOG1, vm_LOG2,
    vm_LOG3, vm_LOG4]"
  by (simp add: code_cases_def split: if_splits)

lemma data_None:
  "data_cases L op snapshot st rs tr = None \<Longrightarrow> op \<notin> set [vm_CALLDATASIZE, vm_RETURNDATASIZE,
    vm_CALLDATALOAD, vm_CALLDATACOPY, vm_CODECOPY, vm_RETURNDATACOPY, vm_SSTORE, vm_TSTORE, vm_SLOAD,
    vm_TLOAD]"
  by (simp add: data_cases_def split: if_splits)

lemma call_None:
  "call_cases L op snapshot st rs tr = None \<Longrightarrow> op \<notin> set [vm_CALLER, vm_KECCAK256, vm_MCOPY, vm_CALL,
    vm_DELEGATECALL, vm_STATICCALL, vm_CALLCODE]"
  by (simp add: call_cases_def split: if_splits)

lemma halt_None: "halt_cases L op tr = None \<Longrightarrow> op \<notin> set [vm_STOP, vm_RETURN, vm_REVERT, vm_INVALID]"
  by (simp add: halt_cases_def Let_def split: if_splits)

lemma groups_None:
  assumes "arith_cases L op rs tr = None" "push_cases L op args tr = None" "stack_cases op tr = None"
    "env_cases L op st rs tr = None" "code_cases L op st rs tr = None"
    "data_cases L op snapshot st rs tr = None" "call_cases L op snapshot st rs tr = None"
    "halt_cases L op tr = None"
  shows "\<not> implemented op"
proof -
  note none = arith_None[OF assms(1)] stack_None[OF assms(3)] env_None[OF assms(4)]
    code_None[OF assms(5)] data_None[OF assms(6)] call_None[OF assms(7)] halt_None[OF assms(8)]
  have "dummy_arity op = None" "traced_arity op = None" "pop_arity op = None"
    unfolding arities map_of_None using none by simp_all
  moreover have "op \<notin> set other_opcodes"
    using none by (simp add: other_opcodes_def)
  moreover have "\<not> (vm_PUSH0 \<le> op \<and> op \<le> vm_SWAP16)"
    using push_range[OF assms(2)] stack_range[OF assms(3)] by (simp add: word_le_nat_alt) linarith
  ultimately show ?thesis by (simp add: implemented_def)
qed

lemma unimplemented_groups:
  assumes "\<not> implemented op"
  shows "arith_cases L op rs tr = None" "push_cases L op args tr = None" "stack_cases op tr = None"
    "env_cases L op st rs tr = None" "code_cases L op st rs tr = None"
    "data_cases L op snapshot st rs tr = None" "call_cases L op snapshot st rs tr = None"
    "halt_cases L op tr = None"
proof -
  have n: "dummy_arity op = None" "traced_arity op = None" "pop_arity op = None"
    "op \<notin> set other_opcodes" "\<not> (vm_PUSH0 \<le> op \<and> op \<le> vm_SWAP16)"
    using assms by (simp_all add: implemented_def)
  have keys: "op \<notin> set (map fst [(vm_ADD, 2::nat), (vm_MUL, 2), (vm_SUB, 2), (vm_DIV, 2), (vm_AND, 2),
      (vm_OR, 2), (vm_XOR, 2), (vm_EQ, 2), (vm_SLT, 2), (vm_SHR, 2), (vm_SHL, 2), (vm_GT, 2),
      (vm_LT, 2), (vm_NOT, 1)])"
    using n(1) unfolding dummy_arity_def map_of_None .
  note t = n(2)[unfolded traced_arity_def map_of_None] and p = n(3)[unfolded pop_arity_def map_of_None]
    and others = n(4)[unfolded other_opcodes_def]
  show "arith_cases L op rs tr = None" using keys t by (simp add: arith_cases_def)
  show "stack_cases op tr = None"
    using p n(5) by (auto simp: stack_cases_def word_le_nat_alt)
  show "env_cases L op st rs tr = None" using t others by (simp add: env_cases_def)
  show "code_cases L op st rs tr = None" using t p others by (simp add: code_cases_def)
  show "data_cases L op snapshot st rs tr = None" using t p others by (simp add: data_cases_def)
  show "call_cases L op snapshot st rs tr = None" using t p others by (simp add: call_cases_def)
  show "halt_cases L op tr = None" using others by (simp add: halt_cases_def)
  show "push_cases L op args tr = None"
    using n(5) by (auto simp: push_cases_def word_le_nat_alt)
qed

section \<open>What an opcode needs\<close>

definition args_needed :: "opcode \<Rightarrow> nat" where
  "args_needed op = (if vm_PUSH1 \<le> op \<and> op \<le> 0x63 then unat op - 0x5f else 0)"

definition snapshot_needed :: "opcode \<Rightarrow> nat" where
  "snapshot_needed op =
     (if op = vm_MCOPY then 3 else if op = vm_SSTORE \<or> op = vm_TSTORE then 2
      else if op = vm_SLOAD \<or> op = vm_TLOAD \<or> op = vm_CALLDATALOAD then 1 else 0)"

definition state_complete :: "evm_execution_state option \<Rightarrow> bool" where
  "state_complete st \<longleftrightarrow> go_sized st \<and>
     (case st of None \<Rightarrow> False
      | Some s \<Rightarrow> CallValue s \<noteq> None \<and> Gas s \<noteq> None \<and> Timestamp s \<noteq> None \<and> ChainId s \<noteq> None \<and>
                  BlockNumber s \<noteq> None)"

definition supplied :: "evm_instruction_metadata \<Rightarrow> u256 list option \<Rightarrow> bool" where
  "supplied m rs \<longleftrightarrow> IsStackRestore m \<or>
     implemented (Opcode m) \<and> args_needed (Opcode m) \<le> length (Arguments m) \<and>
     snapshot_needed (Opcode m) \<le> length (StackSnapshot m) \<and>
     (traced_arity (Opcode m) \<noteq> None \<longrightarrow> rs \<noteq> None \<and> rs \<noteq> Some [])"

definition succeeds :: "'a result \<Rightarrow> bool" where
  "succeeds res \<longleftrightarrow> (\<exists>x. res = Inr x)"

lemma succeeds_simps [simp]:
  "succeeds (Inr x)" "\<not> succeeds (Inl e)"
  "succeeds (bindR r f) \<longleftrightarrow> (\<exists>x. r = Inr x \<and> succeeds (f x))"
  by (auto simp: succeeds_def)

lemma succeeds_traced: "succeeds (traced L rs n nm tr) \<longleftrightarrow> rs \<noteq> None \<and> rs \<noteq> Some []"
  by (cases rs) (auto simp: traced_def resultFromTraceCall_def Let_def split_beta)

lemma succeeds_host [simp]: "succeeds (host tr cs n)"
  by (simp add: host_def)

lemma succeeds_pointers:
  assumes "state_complete st"
  shows "succeeds (load_pointer L st CallValue tr)" "succeeds (load_pointer L st Gas tr)"
    "succeeds (load_pointer L st Timestamp tr)" "succeeds (load_pointer L st ChainId tr)"
    "succeeds (load_pointer L st BlockNumber tr)" "succeeds (load_address L st af tr)"
    "succeeds (load_size L st bf tr)"
  using assms by (auto simp: state_complete_def load_pointer_def load_address_def load_size_def
      split: option.splits)

lemma succeeds_literals:
  "1 \<le> length args \<Longrightarrow> succeeds (push_literal (PUSH1_value args) tr)"
  "2 \<le> length args \<Longrightarrow> succeeds (push_literal (PUSH2_value args) tr)"
  "3 \<le> length args \<Longrightarrow> succeeds (push_literal (PUSH3_value args) tr)"
  "4 \<le> length args \<Longrightarrow> succeeds (push_literal (PUSH4_value args) tr)"
  by (simp_all add: push_literal_def PUSH1_value_def PUSH2_value_def PUSH3_value_def PUSH4_value_def
      go_index_def del: length_greater_0_conv)

lemma succeeds_storage:
  "2 \<le> length snapshot \<Longrightarrow> succeeds (store_case L snapshot tr)"
  "1 \<le> length snapshot \<Longrightarrow> succeeds (load_case L snapshot tr)"
  "3 \<le> length snapshot \<Longrightarrow> succeeds (MCOPY_case snapshot tr)"
  by (simp_all add: store_case_def load_case_def MCOPY_case_def go_index_def Let_def split_beta
      del: length_greater_0_conv)

lemma succeeds_calldataload:
  assumes "state_complete st" and "1 \<le> length snapshot"
  shows "succeeds (CALLDATALOAD_case L snapshot st tr)"
proof -
  obtain s where s: "st = Some s" "length (CallData s) < 2 ^ 63"
    using assms(1) by (auto simp: state_complete_def go_sized_def split: option.splits)
  from calldataloadCall_total[OF s(2), of L "ucast (snapshot ! 0)" "emit (pops 1) tr"] s(1) assms(2)
  show ?thesis
    by (auto simp: CALLDATALOAD_case_def go_index_def split_beta Let_def)
qed

lemma succeeds_groups:
  assumes m: "implemented op" "args_needed op \<le> length args" "snapshot_needed op \<le> length snapshot"
    and rs: "traced_arity op \<noteq> None \<longrightarrow> rs \<noteq> None \<and> rs \<noteq> Some []" and st: "state_complete st"
  shows "arith_cases L op rs tr = Some res \<Longrightarrow> succeeds res"
    "push_cases L op args tr = Some res \<Longrightarrow> succeeds res"
    "env_cases L op st rs tr = Some res \<Longrightarrow> succeeds res"
    "code_cases L op st rs tr = Some res \<Longrightarrow> succeeds res"
    "data_cases L op snapshot st rs tr = Some res \<Longrightarrow> succeeds res"
    "call_cases L op snapshot st rs tr = Some res \<Longrightarrow> succeeds res"
proof -
  note parts = succeeds_traced succeeds_pointers[OF st] arities args_needed_def snapshot_needed_def
  show "succeeds res" if "arith_cases L op rs tr = Some res"
    using body_arith[OF that] rs by (auto simp: has_body_def succeeds_traced)
  show "succeeds res" if "push_cases L op args tr = Some res"
    using that m(2) by (simp add: push_cases_def split: if_splits; hypsubst)
      (simp_all add: succeeds_literals[simplified] args_needed_def word_le_nat_alt)
  show "succeeds res" if "env_cases L op st rs tr = Some res"
    using that rs by (simp add: env_cases_def Let_def split: if_splits; hypsubst)
      (simp_all add: parts)
  show "succeeds res" if "code_cases L op st rs tr = Some res"
    using that rs by (simp add: code_cases_def split: if_splits; hypsubst) (simp_all add: parts)
  show "succeeds res" if "data_cases L op snapshot st rs tr = Some res"
    using that rs m(3) by (simp add: data_cases_def split: if_splits; hypsubst)
      (simp_all add: parts succeeds_storage[simplified] succeeds_calldataload[OF st, simplified])
  show "succeeds res" if "call_cases L op snapshot st rs tr = Some res"
    using that rs m(3) by (simp add: call_cases_def split: if_splits; hypsubst)
      (simp_all add: parts succeeds_storage[simplified])
qed

lemma AddInstruction_total:
  assumes "supplied m rs" and "state_complete st"
  shows "succeeds (AddInstructionWithResult L m st rs tr)"
proof (cases "IsStackRestore m")
  case True
  then show ?thesis by (simp add: AddInstructionWithResult_def)
next
  case False
  with assms(1) have m: "implemented (Opcode m)" "args_needed (Opcode m) \<le> length (Arguments m)"
    "snapshot_needed (Opcode m) \<le> length (StackSnapshot m)"
    "traced_arity (Opcode m) \<noteq> None \<longrightarrow> rs \<noteq> None \<and> rs \<noteq> Some []"
    by (auto simp: supplied_def)
  show ?thesis
  proof (cases "halt_cases L (Opcode m) tr")
    case (Some t)
    with False show ?thesis by (simp add: AddInstructionWithResult_def)
  next
    case None
    have "succeeds (switch_opcode L m st rs tr)"
      using groups_None[of L "Opcode m" rs tr "Arguments m" st "StackSnapshot m"] None m(1)
        succeeds_groups[OF m assms(2), of L tr]
      by (auto simp: switch_opcode_def split: option.split)
    with False None show ?thesis
      by (auto simp: AddInstructionWithResult_def succeeds_def)
  qed
qed

section \<open>Whole traces\<close>

text \<open>Every entry has what it needs; a contract creation is not the last but one.\<close>

definition trace_supplied :: "evm_instruction_metadata list \<Rightarrow> bool" where
  "trace_supplied ins \<longleftrightarrow>
     list_all (\<lambda>i. supplied (ins ! i) (result_for ins i) \<and>
       (Opcode (ins ! i) = vm_CREATE \<or> Opcode (ins ! i) = vm_CREATE2 \<longrightarrow> i + 2 \<noteq> length ins))
     [0..<length ins]"

lemma trace_suppliedD:
  assumes "trace_supplied ins" and "i < length ins"
  shows "supplied (ins ! i) (result_for ins i)"
    "Opcode (ins ! i) = vm_CREATE \<or> Opcode (ins ! i) = vm_CREATE2 \<Longrightarrow> i + 2 \<noteq> length ins"
  using assms by (auto simp: trace_supplied_def list_all_iff)

lemma trace_step_total:
  assumes "trace_supplied ins" and "i < length ins" and "state_complete st"
  shows "succeeds (trace_step L ins st i tr)"
proof -
  have "result_stack ins i = Inr (result_for ins i)"
    using trace_suppliedD(2)[OF assms(1,2)] assms(2)
    by (auto simp: result_stack_def result_for_def go_index_def)
  moreover have "go_index ins i = Inr (ins ! i)"
    using assms(2) by (simp add: go_index_def)
  ultimately show ?thesis
    using AddInstruction_total[OF trace_suppliedD(1)[OF assms(1,2)] assms(3)]
    by (simp add: trace_step_def)
qed

lemma tracing_total:
  assumes "trace_supplied ins" and "state_complete st"
  shows "\<forall>i\<in>set is. i < length ins \<Longrightarrow> succeeds (tracing.run L ins st is tr)"
proof (induction "is" arbitrary: tr)
  case Nil
  show ?case by simp
next
  case (Cons i "is")
  then have "succeeds (trace_step L ins st i tr)"
    using trace_step_total[OF assms(1) _ assms(2)] by simp
  then obtain t where "trace_step L ins st i tr = Inr t" by (auto simp: succeeds_def)
  with Cons show ?case by simp
qed

lemma ProcessExecution_total:
  assumes "trace_supplied ins" and "state_complete st"
  shows "\<exists>tr' sn. ProcessExecution L ins st tr = Inr (tr', sn)"
proof -
  have "succeeds (tracing.run L ins st [0..<length ins] tr)"
    by (rule tracing_total[OF assms]) simp
  then have "succeeds (ProcessExecution L ins st tr)"
    by (cases "ProcessExecution L ins st tr") (auto dest: ProcessExecution_Inl)
  then show ?thesis by (auto simp: succeeds_def)
qed

section \<open>Errors\<close>

lemma switch_unimplemented:
  assumes "\<not> implemented (Opcode m)"
  shows "switch_opcode L m st rs tr = Inl (Err (''unimplemented opcode: 0x'' @ hex_pad 2 (unat (Opcode m))))"
  by (simp add: switch_opcode_def unimplemented_groups[OF assms])

lemma traced_None:
  "rs = None \<or> rs = Some [] \<Longrightarrow> \<exists>msg. traced L rs n nm tr = Inl (Err (nm @ '' requires result stack but '' @ msg))"
  by (auto simp: traced_def resultFromTraceCall_def)

text \<open>A replayed opcode is handled by the case that replays it.\<close>

lemma switch_traced:
  assumes "traced_arity (Opcode m) = Some n"
  shows "\<exists>nm. switch_opcode L m st rs tr = traced L rs n nm tr"
proof -
  define op where "op = Opcode m"
  have "op \<in> set (map fst [(vm_SDIV, 2::nat), (vm_MOD, 2), (vm_SMOD, 2), (vm_ADDMOD, 3), (vm_MULMOD, 3),
      (vm_EXP, 2), (vm_SIGNEXTEND, 2), (vm_SGT, 2), (vm_BYTE, 2), (vm_SAR, 2), (vm_MLOAD, 1),
      (vm_BALANCE, 1), (vm_BLOCKHASH, 1), (vm_DIFFICULTY, 1), (vm_GASLIMIT, 1), (vm_SELFBALANCE, 0),
      (vm_BASEFEE, 1), (vm_BLOBHASH, 1), (vm_BLOBBASEFEE, 0), (vm_GASPRICE, 0), (vm_PC, 0),
      (vm_MSIZE, 0), (vm_EXTCODEHASH, 1), (vm_CREATE, 3), (vm_CREATE2, 4), (vm_EXTCODESIZE, 1),
      (vm_RETURNDATASIZE, 0), (vm_KECCAK256, 2)])"
    using map_of_None[of _ op] assms unfolding traced_arity_def op_def[symmetric] by fastforce
  then have "\<exists>k nm. traced_arity op = Some k \<and> switch_opcode L m st rs tr = traced L rs k nm tr"
    unfolding switch_opcode_def op_def[symmetric]
    by (simp only: list.map list.set fst_conv insert_iff empty_iff)
      (elim disjE FalseE; simp add: traced_arity_def arith_cases_def push_cases_def stack_cases_def
        env_cases_def code_cases_def data_cases_def call_cases_def word_le_nat_alt; blast)
  with assms show ?thesis by (auto simp: op_def)
qed

end
