(* ===== verification/TranspilerProps.thy ===== *)
theory TranspilerProps
  imports Outcomes
begin

text \<open>
  The properties of the transpiler, each with the concrete run that shows its hypotheses can
  hold: \<open>demo_trace\<close>, a trace with literals, a replayed load, storage and a nested call, run by
  the production configuration and by the test configuration.
\<close>

section \<open>A sample run\<close>

abbreviation entry :: "opcode \<Rightarrow> bytes \<Rightarrow> u256 list \<Rightarrow> evm_instruction_metadata" where
  "entry op args stack \<equiv>
     \<lparr>Opcode = op, Arguments = args, StackSnapshot = stack, Result = None, IsStackRestore = False\<rparr>"

abbreviation restore_entry :: "u256 \<Rightarrow> evm_instruction_metadata" where
  "restore_entry v \<equiv>
     \<lparr>Opcode = vm_STOP, Arguments = [], StackSnapshot = [], Result = Some v, IsStackRestore = True\<rparr>"

definition demo_trace :: "evm_instruction_metadata list" where
  "demo_trace =
     [entry vm_PUSH1 [0x2a] [], entry vm_DUP1 [] [0x2a], entry vm_MLOAD [] [0x2a, 0x2a],
      entry vm_SSTORE [] [0x2a, 0x63], entry vm_PUSH1 [0x63] [], entry vm_SLOAD [] [0x63],
      entry vm_STOP [] [0x2a]]"

definition demo_state :: evm_execution_state where
  "demo_state =
     \<lparr> CallValue = Some 0, CallData = [1, 2, 3], CodeData = [0], Gas = Some 100,
       Address = zero_address, Caller = zero_address, Origin = zero_address,
       Timestamp = Some 1, ChainId = Some 1, Coinbase = zero_address, BlockNumber = Some 7 \<rparr>"

lemma demo_positions: "[0..<length demo_trace] = [0, 1, 2, 3, 4, 5, 6]"
  by (simp add: demo_trace_def upt_rec)

lemma demo_supplied: "trace_supplied demo_trace"
  unfolding trace_supplied_def demo_positions
  by (simp add: demo_trace_def supplied_def implemented_def args_needed_def snapshot_needed_def
      arities other_opcodes_def result_for_def word_le_nat_alt)

lemma demo_complete: "state_complete (Some demo_state)"
  by (simp add: state_complete_def go_sized_def demo_state_def)

lemma demo_runs: "\<exists>tr' sn. ProcessExecution sample_lib demo_trace (Some demo_state) tr = Inr (tr', sn)"
  by (rule ProcessExecution_total[OF demo_supplied demo_complete])

section \<open>Success and failure\<close>

text \<open>
  C6. A trace is transpiled whenever each entry is an implemented opcode that comes with the
  immediate bytes, stack snapshot and replayed result it needs and the execution state is
  complete, whatever the configuration and the state of the transpiler.
\<close>

theorem supplied_trace_transpiles:
  assumes "trace_supplied ins" and "state_complete st"
  shows "\<exists>tr' sn. ProcessExecution L ins st tr = Inr (tr', sn)"
  using assms by (rule ProcessExecution_total)

theorem supplied_trace_transpiles_witness:
  "trace_supplied demo_trace \<and> state_complete (Some demo_state) \<and>
   (\<exists>tr' sn. ProcessExecution sample_lib demo_trace (Some demo_state) NewTranspiler = Inr (tr', sn))"
  using demo_supplied demo_complete
    supplied_trace_transpiles[OF demo_supplied demo_complete, of sample_lib NewTranspiler] by blast

text \<open>
  When a transpilation fails, it fails at one entry: every entry before it was transpiled,
  and the failure is the one that entry gives in the state reached.
\<close>

theorem failure_is_at_an_entry:
  assumes "ProcessExecution L ins st tr = Inl e"
  shows "\<exists>i t sn. i < length ins \<and> process_steps L ins st [0..<i] (tr, []) = Inr (t, sn) \<and>
    process_steps L ins st [i] (t, sn) = Inl e"
proof -
  from tracing.run_fails[OF ProcessExecution_Inl[OF assms]] obtain es1 i es2 t where
    split: "[0..<length ins] = es1 @ i # es2" and run: "tracing.run L ins st es1 tr = Inr t"
    and fail: "trace_step L ins st i t = Inl e"
    by blast
  have len: "length ins = length es1 + Suc (length es2)"
    using arg_cong[OF split, of length] by simp
  have "[0..<length ins] ! length es1 = i"
    unfolding split by simp
  moreover have "[0..<length ins] ! length es1 = length es1"
    using len by (intro nth_upt[of 0, simplified]) simp
  ultimately have i: "i = length es1" "i < length ins" using len by simp_all
  have "es1 = take (length es1) [0..<length ins]" unfolding split by simp
  with i have es1: "es1 = [0..<i]" by (simp add: take_upt)
  obtain sn where sn: "process_steps L ins st [0..<i] (tr, []) = Inr (t, sn)"
    using process_steps_Inr[OF run] es1 by blast
  have "process_steps L ins st [i] (t, sn) = Inl e"
    using fail by (auto simp: trace_step_def bindR_eq_Inl)
  with i(2) sn show ?thesis by blast
qed

theorem failure_is_at_an_entry_witness:
  "\<exists>e. ProcessExecution sample_lib [entry vm_MLOAD [] [0]] None NewTranspiler = Inl e \<and>
    (\<exists>i t sn. i < length [entry vm_MLOAD [] [0]] \<and>
      process_steps sample_lib [entry vm_MLOAD [] [0]] None [0..<i] (NewTranspiler, []) = Inr (t, sn) \<and>
      process_steps sample_lib [entry vm_MLOAD [] [0]] None [i] (t, sn) = Inl e)"
proof -
  have "ProcessExecution sample_lib [entry vm_MLOAD [] [0]] None NewTranspiler =
      Inl (Err ''MLOAD requires result stack but none provided'')"
    by (simp add: ProcessExecution_def upt_rec result_stack_def go_index_def AddInstructionWithResult_def
        halt_cases_def Let_def switch_opcode_def arith_cases_def push_cases_def stack_cases_def
        env_cases_def traced_def resultFromTraceCall_def word_le_nat_alt)
  with failure_is_at_an_entry[OF this] show ?thesis by blast
qed

text \<open>
  An opcode outside the implemented ones is refused with the error that names it, in every
  configuration.
\<close>

theorem unimplemented_is_refused:
  assumes "\<not> implemented (Opcode m)" and "\<not> IsStackRestore m"
  shows "AddInstructionWithResult L m st rs tr =
    Inl (Err (''unimplemented opcode: 0x'' @ hex_pad 2 (unat (Opcode m))))"
  using assms by (simp add: AddInstructionWithResult_def unimplemented_groups switch_unimplemented)

theorem unimplemented_is_refused_witness:
  "AddInstructionWithResult sample_lib (entry 0x0c [] []) None None NewTranspiler =
     Inl (Err ''unimplemented opcode: 0x0c'')"
proof -
  have "\<not> implemented 0x0c"
    by (simp add: implemented_def arities other_opcodes_def word_le_nat_alt)
  then have "AddInstructionWithResult sample_lib (entry 0x0c [] []) None None NewTranspiler =
      Inl (Err (''unimplemented opcode: 0x'' @ hex_pad 2 (unat (0x0c :: opcode))))"
    using unimplemented_is_refused[of "entry 0x0c [] []" sample_lib None None NewTranspiler] by simp
  moreover have "hex_pad 2 12 = ''0c''"
    by (simp add: numeral_2_eq_2 digit_def)
  ultimately show ?thesis by simp
qed

text \<open>
  An opcode whose result is read off the trace gives an error, and no code, when the next
  entry is missing or its stack is empty.
\<close>

theorem missing_result_is_an_error:
  assumes "traced_arity (Opcode m) = Some n" and "\<not> IsStackRestore m" and "rs = None \<or> rs = Some []"
  shows "\<exists>nm msg. AddInstructionWithResult L m st rs tr =
    Inl (Err (nm @ '' requires result stack but '' @ msg))"
proof -
  have "halt_cases L (Opcode m) tr = None"
    using assms(1) by (auto simp: halt_cases_def Let_def arities)
  moreover obtain nm where "switch_opcode L m st rs tr = traced L rs n nm tr"
    using switch_traced[OF assms(1)] by blast
  moreover obtain msg where "traced L rs n nm tr = Inl (Err (nm @ '' requires result stack but '' @ msg))"
    using traced_None[OF assms(3)] by blast
  ultimately show ?thesis
    using assms(2) by (auto simp: AddInstructionWithResult_def)
qed

theorem missing_result_is_an_error_witness:
  "\<exists>nm msg. AddInstructionWithResult sample_lib (entry vm_MLOAD [] [0]) None (Some []) NewTranspiler =
    Inl (Err (nm @ '' requires result stack but '' @ msg))"
  by (rule missing_result_is_an_error[of _ 1]) (simp_all add: arities)

section \<open>What a transpilation keeps\<close>

lemma ProcessExecution_le: "ProcessExecution L ins st tr = Inr (tr', sn) \<Longrightarrow> tr_le tr tr'"
  by (rule tracing.run_le[OF ProcessExecution_Inr])

lemma ProcessExecution_inv:
  assumes "ProcessExecution L ins st tr = Inr (tr', sn)" and "tr_inv L tr"
    and "list_all (mcopy_fits (config tr)) ins"
  shows "tr_inv L tr'"
  using tracing.run_inv[OF _ ProcessExecution_Inr[OF assms(1)]] assms(2,3)
  by (simp add: trace_inv_def)

text \<open>
  Transpiling a trace only appends: the code, the data section and the debug mappings that
  were there stay as a prefix, and the configuration does not change.
\<close>

theorem transpiling_appends:
  assumes "ProcessExecution L ins st tr = Inr (tr', sn)"
  shows "(\<exists>is. instructions tr' = instructions tr @ is) \<and>
    (\<exists>vs. ds_values (dataSection tr') = ds_values (dataSection tr) @ vs) \<and>
    (\<exists>ms. debugMappings tr' = debugMappings tr @ ms) \<and> config tr' = config tr"
  using ProcessExecution_le[OF assms] by (simp add: tr_le_def)

theorem transpiling_appends_witness:
  "\<exists>tr' sn. ProcessExecution sample_lib demo_trace (Some demo_state) NewTestTranspiler = Inr (tr', sn) \<and>
    (\<exists>is. instructions tr' = instructions NewTestTranspiler @ is) \<and> config tr' = config NewTestTranspiler"
  using demo_runs[of NewTestTranspiler] transpiling_appends by blast

text \<open>A memory copy of two bytes, which the configuration of the tests emits.\<close>

definition copy_trace :: "evm_instruction_metadata list" where
  "copy_trace =
     [entry vm_PUSH1 [2] [], entry vm_PUSH1 [0] [2], entry vm_PUSH1 [64] [2, 0], entry vm_MCOPY [] [2, 0, 64],
      entry vm_STOP [] []]"

lemma copy_runs: "\<exists>tr' sn. ProcessExecution sample_lib copy_trace (Some demo_state) tr = Inr (tr', sn)"
proof (rule ProcessExecution_total[OF _ demo_complete])
  have "[0..<length copy_trace] = [0, 1, 2, 3, 4]" by (simp add: copy_trace_def upt_rec)
  then show "trace_supplied copy_trace"
    unfolding trace_supplied_def
    by (simp add: copy_trace_def supplied_def implemented_def args_needed_def snapshot_needed_def
        arities other_opcodes_def result_for_def word_le_nat_alt)
qed

lemma copy_trace_fits: "list_all (mcopy_fits cfg) copy_trace"
  by (simp add: copy_trace_def mcopy_fits_def mcopy_off_def copy_fits_def)

text \<open>
  C7. The invariant of the transpiler is kept by a whole trace whose memory copies, where the
  configuration emits them, stay in the first \<open>2 ^ 32\<close> bytes: the data section stays without
  duplicates and indexed by its map, every label the code or the storage map mentions is in it,
  every instruction is valid assembly, calls go to exported routines, the depth is not negative. A
  copy that reaches beyond is loaded with 64-bit literals, which are not RV32 assembly.
\<close>

theorem invariant_kept:
  assumes "ProcessExecution L ins st tr = Inr (tr', sn)" and "tr_inv L tr"
    and "list_all (mcopy_fits (config tr)) ins"
  shows "tr_inv L tr'"
  by (rule ProcessExecution_inv[OF assms])

theorem invariant_kept_witness:
  "\<exists>tr' sn. ProcessExecution sample_lib copy_trace (Some demo_state) NewTestTranspiler = Inr (tr', sn) \<and>
    tr_inv sample_lib NewTestTranspiler \<and> tr_inv sample_lib tr'"
proof -
  have "tr_inv sample_lib NewTestTranspiler"
    by (simp add: NewTestTranspiler_def tr_inv_new)
  with copy_runs[of NewTestTranspiler] invariant_kept copy_trace_fits show ?thesis by blast
qed

definition links :: "assembly_file \<Rightarrow> bool" where
  "links f \<longleftrightarrow>
     (case decode_all (Instructions f) of None \<Rightarrow> False
      | Some cs \<Rightarrow> list_all (\<lambda>c. case c of
            I_la r l \<Rightarrow> length (filter (\<lambda>d. VarName d = l) (DataSec f)) = 1
          | I_call g \<Rightarrow> g \<in> set lib_globals
          | _ \<Rightarrow> True) cs)"

lemma DataSec_names: "map VarName (DataSec (ToAssembly tr)) = map fst (Iter (dataSection tr))"
  by (simp add: ToAssembly_def comp_def split_beta)

lemma filter_distinct_one:
  "distinct (map f xs) \<Longrightarrow> a \<in> set (map f xs) \<Longrightarrow> length (filter (\<lambda>x. f x = a) xs) = 1"
proof (induction xs)
  case Nil
  then show ?case by simp
next
  case (Cons x xs)
  have "filter (\<lambda>x. f x = a) xs = []" if "a \<notin> f ` set xs"
    using that by (auto simp: filter_empty_conv)
  with Cons show ?case by auto
qed

lemma inv_links:
  assumes "tr_inv L tr"
  shows "links (ToAssembly tr)"
proof -
  have "length (filter (\<lambda>d. VarName d = l) (DataSec (ToAssembly tr))) = 1"
    if "resolve (dataSection tr) l \<noteq> None" for l
  proof (rule filter_distinct_one)
    show "distinct (map VarName (DataSec (ToAssembly tr)))"
      by (simp only: DataSec_names distinct_Iter)
    show "l \<in> set (map VarName (DataSec (ToAssembly tr)))"
      unfolding DataSec_names using that by (auto simp: resolve_def map_of_eq_None_iff)
  qed
  with assms show ?thesis
    by (fastforce simp: links_def tr_inv_def code_ok_def ToAssembly_def list_all_iff
        split: option.splits rv.split)
qed

text \<open>
  C4. The assembly file of a transpiled trace, whose memory copies stay in the first \<open>2 ^ 32\<close> bytes
  where the configuration emits them, can be assembled and linked: every instruction is accepted by the RV32IM assembler, every label it loads an address of is the name of exactly one
  data variable of the file, and every routine it calls is exported by lib.asm.
\<close>

theorem program_links:
  assumes "hex_injective L" and "list_all (mcopy_fits cfg) ins"
    and "ProcessExecution L ins st (NewTranspilerWithConfig cfg) = Inr (tr', sn)"
  shows "links (ToAssembly tr')"
proof (rule inv_links)
  show "tr_inv L tr'"
    using ProcessExecution_inv[OF assms(3) tr_inv_new[OF assms(1)]] assms(2)
    by (simp add: NewTranspilerWithConfig_def)
qed

theorem program_links_witness:
  "\<exists>tr' sn. ProcessExecution sample_lib copy_trace (Some demo_state)
      (NewTranspilerWithConfig (config NewTestTranspiler)) = Inr (tr', sn) \<and> links (ToAssembly tr')"
  using copy_runs[of "NewTranspilerWithConfig (config NewTestTranspiler)"]
    program_links[OF sample_lib_hex copy_trace_fits] by blast

text \<open>
  With snapshots enabled a transpilation returns one stack per entry but the first, the
  stack before that entry, in order; otherwise it returns none.
\<close>

theorem snapshots_follow_the_trace:
  assumes "ProcessExecution L ins st tr = Inr (tr', sn)"
  shows "sn = (if enableSnapshots tr then map StackSnapshot (tl ins) else [])"
proof -
  have "filter (\<lambda>i. 0 < i) [0..<n] = [1..<n]" for n
    by (cases n) (simp_all add: upt_conv_Cons)
  moreover have "map (\<lambda>i. StackSnapshot (ins ! i)) [1..<length ins] = map StackSnapshot (tl ins)"
    by (intro nth_equalityI) (simp_all add: nth_tl)
  ultimately show ?thesis
    using process_steps_snapshots[OF assms[unfolded ProcessExecution_def]] by simp
qed

theorem snapshots_follow_the_trace_witness:
  "\<exists>tr'. ProcessExecution sample_lib demo_trace (Some demo_state) (EnableSnapshots NewTranspiler) =
    Inr (tr', map StackSnapshot (tl demo_trace))"
proof -
  obtain tr' sn where run: "ProcessExecution sample_lib demo_trace (Some demo_state)
      (EnableSnapshots NewTranspiler) = Inr (tr', sn)"
    using demo_runs by blast
  from snapshots_follow_the_trace[OF run] run show ?thesis
    by (simp add: EnableSnapshots_def)
qed

section \<open>Debug mappings and call depth\<close>

lemma trace_step_mapped:
  assumes "trace_step L ins st i tr = Inr tr'"
    and "mapped tr = instructions tr \<and> \<not> DisableDebugMappings (config tr)"
  shows "mapped tr' = instructions tr' \<and> \<not> DisableDebugMappings (config tr')"
proof -
  obtain op rs where step: "AddInstructionWithResult L op st rs tr = Inr tr'"
    using assms(1) by (auto simp: trace_step_def)
  with AddInstruction_mapped[OF step] AddInstruction_le[OF step] assms(2) show ?thesis
    by (auto simp: tr_le_def)
qed

interpretation mapping: fallible_machine "trace_step L ins st"
    "\<lambda>tr. mapped tr = instructions tr \<and> \<not> DisableDebugMappings (config tr)" tr_le for L ins st
proof
  show "mapped tr' = instructions tr' \<and> \<not> DisableDebugMappings (config tr')"
    if "mapped tr = instructions tr \<and> \<not> DisableDebugMappings (config tr)"
      "trace_step L ins st i tr = Inr tr'" for tr i tr'
    by (rule trace_step_mapped[OF that(2,1)])
qed (blast intro: trace_step_le tr_le_trans tr_le_refl)+

text \<open>
  C8. The debug mappings of a transpiled trace, put together in order, are exactly the generated
  code: no instruction is missing from them and none is listed twice.
\<close>

theorem debug_mappings_are_the_code:
  assumes "ProcessExecution L ins st (NewTranspilerWithConfig cfg) = Inr (tr', sn)"
    and "\<not> DisableDebugMappings cfg"
  shows "concat (map RiscVInstructions (GetDebugMappings tr')) = Instructions (ToAssembly tr')"
proof -
  have "mapped (NewTranspilerWithConfig cfg) = instructions (NewTranspilerWithConfig cfg) \<and>
      \<not> DisableDebugMappings (config (NewTranspilerWithConfig cfg))"
    using assms(2) by (simp add: mapped_def NewTranspilerWithConfig_def)
  from mapping.run_inv[OF this ProcessExecution_Inr[OF assms(1)]] show ?thesis
    by (simp add: mapped_def GetDebugMappings_def ToAssembly_def)
qed

theorem debug_mappings_are_the_code_witness:
  "\<exists>tr' sn. ProcessExecution sample_lib demo_trace (Some demo_state)
      (NewTranspilerWithConfig (config NewTranspiler)) = Inr (tr', sn) \<and>
    concat (map RiscVInstructions (GetDebugMappings tr')) = Instructions (ToAssembly tr')"
proof -
  have "\<not> DisableDebugMappings (config NewTranspiler)"
    by (simp add: NewTranspiler_def NewTranspilerWithConfig_def)
  with demo_runs[of "NewTranspilerWithConfig (config NewTranspiler)"] debug_mappings_are_the_code
  show ?thesis by blast
qed

lemma run_depth:
  "tracing.run L ins st is tr = Inr tr' \<Longrightarrow>
   currentDepth tr' = foldl (\<lambda>d m. next_depth m d) (currentDepth tr) (map (\<lambda>i. ins ! i) is)"
proof (induction "is" arbitrary: tr)
  case Nil
  then show ?case by simp
next
  case (Cons i "is")
  from Cons.prems obtain t where t: "trace_step L ins st i tr = Inr t"
    and rest: "tracing.run L ins st is t = Inr tr'" by auto
  from t obtain rs where step: "AddInstructionWithResult L (ins ! i) st rs tr = Inr t"
    by (auto simp: trace_step_def go_index_eq_Inr)
  from Cons.IH[OF rest] AddInstruction_depth[OF step] show ?case by simp
qed

text \<open>
  C9. The call depth after a trace is the count of the four message calls less the returns,
  never taken below zero, whatever the configuration: each call adds one, each return from a
  nested frame removes one if there is one to remove, and no other entry changes it.
\<close>

theorem depth_counts_calls:
  assumes "ProcessExecution L ins st tr = Inr (tr', sn)"
  shows "currentDepth tr' = foldl (\<lambda>d m. next_depth m d) (currentDepth tr) ins"
  using run_depth[OF ProcessExecution_Inr[OF assms]] by (simp add: map_nth)

definition call_trace :: "evm_instruction_metadata list" where
  "call_trace =
     [entry vm_CALL [] [0, 0, 0, 0, 0, 0, 0], entry vm_STATICCALL [] [0, 0, 0, 0, 0, 0],
      restore_entry 1]"

lemma call_runs: "\<exists>tr' sn. ProcessExecution sample_lib call_trace (Some demo_state) tr = Inr (tr', sn)"
proof (rule ProcessExecution_total[OF _ demo_complete])
  have "[0..<length call_trace] = [0, 1, 2]" by (simp add: call_trace_def upt_rec)
  then show "trace_supplied call_trace"
    unfolding trace_supplied_def
    by (simp add: call_trace_def supplied_def implemented_def args_needed_def snapshot_needed_def
        arities other_opcodes_def result_for_def word_le_nat_alt)
qed

theorem depth_counts_calls_witness:
  "\<exists>tr' sn. ProcessExecution sample_lib call_trace (Some demo_state) NewTranspiler = Inr (tr', sn) \<and>
    currentDepth tr' = 1"
proof -
  obtain tr' sn where run: "ProcessExecution sample_lib call_trace (Some demo_state) NewTranspiler = Inr (tr', sn)"
    using call_runs by blast
  have "currentDepth NewTranspiler = 0" by (simp add: NewTranspiler_def NewTranspilerWithConfig_def)
  with depth_counts_calls[OF run] have "currentDepth tr' = 1"
    by (simp add: call_trace_def next_depth_def call_opcodes_def)
  with run show ?thesis by blast
qed

end
