(* ===== verification/Image.thy ===== *)
theory Image
  imports StackCode
begin

text \<open>
  Concrete machines for the sample runs: a memory that holds a given data section from address
  0 on, the labels of that data section, an empty stack above it. \<open>image_low_rel\<close> shows that such
  a machine is a start state of the replay.
\<close>

section \<open>A machine with a loaded data section\<close>

text \<open>The bytes of a list of 256-bit values from address 0 on, little-endian.\<close>

definition data_image :: "u256 list \<Rightarrow> memory" where
  "data_image vs = (\<lambda>a. let k = unat a in
     if k div 32 < length vs then ucast (drop_bit (8 * (k mod 32)) (vs ! (k div 32))) else 0)"

definition image_env :: "nat \<Rightarrow> asm_env" where
  "image_env n =
     \<lparr> label_addr = map_of (map (\<lambda>i. (data_var i, word_of_nat (32 * i))) [0..<n]),
       callee = (\<lambda>f m. None) \<rparr>"

lemma data_image_byte:
  assumes "i < length vs" and "32 * length vs < 2 ^ 32" and "k < 32"
  shows "data_image vs (word_of_nat (32 * i) + word_of_nat k) = ucast (drop_bit (8 * k) (vs ! i))"
proof -
  have "unat (word_of_nat (32 * i + k) :: u32) = 32 * i + k"
    using assms by (intro unat_word_of_nat) simp
  then have "unat (word_of_nat (32 * i) + word_of_nat k :: u32) = 32 * i + k"
    by simp
  with assms show ?thesis by (simp add: data_image_def Let_def)
qed

lemma data_image_holds:
  assumes "i < length vs" and "32 * length vs < 2 ^ 32"
  shows "holds (data_image vs) (word_of_nat (32 * i)) (vs ! i)"
proof -
  let ?a = "word_of_nat (32 * i) :: u32"
  have "rd32 (data_image vs) (?a + word_of_nat (4 * j)) = word_at j (vs ! i)" if "j < 8" for j
  proof -
    have b: "data_image vs (?a + word_of_nat (4 * j) + word_of_nat k) =
        ucast (drop_bit (8 * (4 * j + k)) (vs ! i))" if "k < 4" for k
      using data_image_byte[OF assms, of "4 * j + k"] that \<open>j < 8\<close> by (simp add: add.assoc)
    have "rd32 (data_image vs) (?a + word_of_nat (4 * j)) = ucast (drop_bit (32 * j) (vs ! i))"
      unfolding rd32_def bytes_of_word[symmetric, of "32 * j"]
      using b[of 0] b[of 1] b[of 2] b[of 3] by (simp add: algebra_simps)
    then show ?thesis by (simp add: word_at_def)
  qed
  then show ?thesis by (simp add: holds_def)
qed

lemma image_data_rel:
  assumes "32 * length (ds_values ds) \<le> lo" and "lo < 2 ^ 32"
  shows "data_rel (image_env (length (ds_values ds))) ds lo (data_image (ds_values ds))"
proof -
  let ?n = "length (ds_values ds)"
  have "\<exists>a. label_addr (image_env ?n) (data_var i) = Some a \<and> unat a + 32 \<le> lo \<and>
      holds (data_image (ds_values ds)) a (ds_values ds ! i)" if i: "i < ?n" for i
  proof -
    have "distinct (map fst (map (\<lambda>i. (data_var i, word_of_nat (32 * i) :: u32)) [0..<?n]))"
      by (simp add: distinct_map inj_on_def comp_def)
    then have "label_addr (image_env ?n) (data_var i) = Some (word_of_nat (32 * i))"
      using i by (simp add: image_env_def map_of_eq_Some_iff)
    moreover have "unat (word_of_nat (32 * i) :: u32) = 32 * i"
      using i assms by (intro unat_word_of_nat) simp
    ultimately show ?thesis
      using data_image_holds[of i "ds_values ds"] i assms by simp
  qed
  then show ?thesis by (auto simp: data_rel_def resolve_iff)
qed

definition image_machine :: "nat \<Rightarrow> u256 list \<Rightarrow> mach" where
  "image_machine s vs = \<lparr>regs = (\<lambda>r. if r = SP then word_of_nat s else 0), mem = data_image vs\<rparr>"

text \<open>Above the data everything is zero, so the machine also has a stack of zeros.\<close>

lemma data_image_zero:
  assumes "32 * length vs \<le> unat a" and "unat a + 4 \<le> 2 ^ 32"
  shows "rd32 (data_image vs) a = 0"
proof -
  have "data_image vs (a + word_of_nat k) = 0" if "k < 4" for k
  proof -
    have "unat (a + word_of_nat k) = unat a + k"
      using assms(2) that by (intro unat_add_small) simp
    moreover have "\<not> (unat a + k) div 32 < length vs"
      using assms(1) by (simp add: div_less_iff_less_mult)
    ultimately show ?thesis by (simp add: data_image_def Let_def)
  qed
  from this[of 0] this[of 1] this[of 2] this[of 3] show ?thesis
    by (simp add: rd32_def)
qed

lemma image_low_rel:
  assumes "32 * length (ds_values ds) \<le> lo" and "lo + 32 * cap < 2 ^ 32" and "n \<le> cap"
  shows "low_rel (image_env (length (ds_values ds))) ds lo cap (replicate n 0)
    (image_machine (lo + 32 * (cap - n)) (ds_values ds))"
proof -
  let ?m = "image_machine (lo + 32 * (cap - n)) (ds_values ds)"
  have sp: "get_reg ?m SP = word_of_nat (lo + 32 * (cap - n))"
    by (simp add: image_machine_def get_reg_def)
  have u: "unat (get_reg ?m SP) = lo + 32 * (cap - n)"
    unfolding sp using assms(2,3) by (intro unat_word_of_nat) simp
  have "rd32 (data_image (ds_values ds)) (get_reg ?m SP + word_of_nat (32 * i)) = 0" if i: "i < n" for i
  proof -
    have "unat (get_reg ?m SP + word_of_nat (32 * i)) = lo + 32 * (cap - n) + 32 * i"
      using u assms(2,3) i by (subst unat_add_small) simp_all
    with assms i show ?thesis by (intro data_image_zero) simp_all
  qed
  moreover have "mem ?m = data_image (ds_values ds)" by (simp add: image_machine_def)
  ultimately show ?thesis
    using image_data_rel[OF assms(1)] assms(2,3) u by (simp add: low_rel_def)
qed

end
