(* ===== verification/ReplayProps.thy ===== *)
theory ReplayProps
  imports TranspilerProps Image
begin

text \<open>
  The properties of the generated program as a machine run, each with a concrete run: the
  replay of a whole trace, the effect of one opcode on the stack pointer against the EVM's own
  arities, replayed results at full width, immediates, storage, call frames.
\<close>

section \<open>The program of a trace\<close>

text \<open>A short trace: a literal, a replayed load, another literal, an exchange.\<close>

definition replay_trace :: "evm_instruction_metadata list" where
  "replay_trace =
     [entry vm_PUSH1 [0x2a] [], entry vm_MLOAD [] [0x2a], entry vm_PUSH1 [7] [0x63],
      entry vm_SWAP1 [] [0x63, 7], entry vm_STOP [] [7, 0x63]]"

lemma replay_positions: "[0..<length replay_trace] = [0, 1, 2, 3, 4]"
  by (simp add: replay_trace_def upt_rec)

lemma replay_runs: "\<exists>tr' sn. ProcessExecution sample_lib replay_trace (Some demo_state) tr = Inr (tr', sn)"
proof (rule ProcessExecution_total[OF _ demo_complete])
  show "trace_supplied replay_trace"
    unfolding trace_supplied_def replay_positions
    by (simp add: replay_trace_def supplied_def implemented_def args_needed_def snapshot_needed_def
        arities other_opcodes_def result_for_def word_le_nat_alt)
qed

lemma replay_data:
  assumes "ProcessExecution sample_lib replay_trace (Some demo_state)
    (NewTranspilerWithConfig (config NewTranspiler)) = Inr (tr', sn)"
  shows "ds_values (dataSection tr') = [0x63]"
  using assms unfolding ProcessExecution_def replay_positions
  by (simp add: replay_trace_def result_stack_def go_index_def AddInstructionWithResult_def halt_cases_def
      switch_opcode_def arith_cases_def push_cases_def stack_cases_def env_cases_def push_literal_def
      PUSH1_value_def traced_def resultFromTraceCall_def word_le_nat_alt)
    (auto simp: Let_def storeDebugInfo_def NewTranspilerWithConfig_def NewTranspiler_def NewDataSection_def
      Add_def split: if_splits)

lemma production_NewTranspiler: "production (config NewTranspiler)"
  by (simp add: production_def NewTranspiler_def NewTranspilerWithConfig_def)

lemma replay_low_ops:
  "low_ops 1024 (trace_plan sample_lib replay_trace (Some demo_state) [0..<length replay_trace] fresh) [] =
   Some [0x63, 7]"
  unfolding replay_positions
  by (simp add: replay_trace_def plan_def body_plan_def arities result_for_def word_at_def word_le_nat_alt
      Let_def)

text \<open>
  C1. In the production configuration the assembled program of a trace replays it. Started with
  the data section loaded below the stack and an empty stack with room for \<open>cap\<close> slots, the
  program runs to its end without a failing instruction, and the low words of the stack it leaves
  are those the plan of the trace computes: literals and replayed values pushed, arguments popped,
  slots duplicated and exchanged, a zero for each opcode the configuration replaces.
\<close>

theorem program_replays_the_trace:
  assumes "ProcessExecution L ins st (NewTranspilerWithConfig cfg) = Inr (tr', sn)"
    and "hex_injective L" and "production cfg" and "go_sized st"
    and "low_ops cap (trace_plan L ins st [0..<length ins] fresh) [] = Some ws"
    and "low_rel env (dataSection tr') lo cap [] m"
  shows "\<exists>m'. run_asm env (Instructions (ToAssembly tr')) m = Some m' \<and>
    low_rel env (dataSection tr') lo cap ws m'"
proof -
  have inv: "tr_inv L (NewTranspilerWithConfig cfg)" by (rule tr_inv_new[OF assms(2)])
  then have ok: "pool_ok L (dataSection (NewTranspilerWithConfig cfg))" by (simp add: tr_inv_def)
  have "production (config (NewTranspilerWithConfig cfg))"
    using assms(3) by (simp add: NewTranspilerWithConfig_def)
  from process_emits[OF assms(1) inv this assms(4)]
  have "emits_code L (NewTranspilerWithConfig cfg) tr' (trace_plan L ins st [0..<length ins] fresh)"
    by (simp add: replay_of_new)
  from emitted_runs[OF this ok assms(5,6)] show ?thesis
    by (simp add: NewTranspilerWithConfig_def ToAssembly_def)
qed

theorem program_replays_the_trace_witness:
  "\<exists>tr' sn m'. ProcessExecution sample_lib replay_trace (Some demo_state)
      (NewTranspilerWithConfig (config NewTranspiler)) = Inr (tr', sn) \<and>
    run_asm (image_env 1) (Instructions (ToAssembly tr')) (image_machine (0x1000 + 32 * 1024) [0x63]) = Some m' \<and>
    low_rel (image_env 1) (dataSection tr') 0x1000 1024 [0x63, 7] m'"
proof -
  obtain tr' sn where run: "ProcessExecution sample_lib replay_trace (Some demo_state)
      (NewTranspilerWithConfig (config NewTranspiler)) = Inr (tr', sn)"
    using replay_runs by blast
  have start: "low_rel (image_env 1) (dataSection tr') 0x1000 1024 [] (image_machine (0x1000 + 32 * 1024) [0x63])"
    using image_low_rel[of "dataSection tr'" "0x1000" 1024 0] replay_data[OF run] by simp
  have "go_sized (Some demo_state)" by (simp add: go_sized_def demo_state_def)
  from program_replays_the_trace[OF run sample_lib_hex production_NewTranspiler this replay_low_ops start] run
  show ?thesis by blast
qed

section \<open>One opcode and the stack pointer\<close>

fun table_get :: "(opcode \<times> int) list \<Rightarrow> opcode \<Rightarrow> int" where
  "table_get [] op = 0"
| "table_get (kv # kvs) op = (if op = fst kv then snd kv else table_get kvs op)"

text \<open>
  The growth of the EVM stack by each opcode (pushes less pops) as the EVM defines it, up to the
  next entry of the trace: for a message call that is the first opcode of the callee, so the call
  counts what it pops only, 7 slots for CALL and CALLCODE and 6 for the other two. The success flag
  it pushes, the missing one of the EVM's net effect, counts where the call returns, at the restore
  entry.
\<close>

definition evm_growth :: "opcode \<Rightarrow> int" where
  "evm_growth op =
     (if vm_PUSH0 \<le> op \<and> op \<le> vm_DUP16 then 1
      else if vm_SWAP1 \<le> op \<and> op \<le> vm_SWAP16 then 0
      else table_get
        [(vm_STOP, 0), (vm_ADD, -1), (vm_MUL, -1), (vm_SUB, -1), (vm_DIV, -1), (vm_SDIV, -1), (vm_MOD, -1),
         (vm_SMOD, -1), (vm_ADDMOD, -2), (vm_MULMOD, -2), (vm_EXP, -1), (vm_SIGNEXTEND, -1), (vm_LT, -1),
         (vm_GT, -1), (vm_SLT, -1), (vm_SGT, -1), (vm_EQ, -1), (vm_ISZERO, 0), (vm_AND, -1), (vm_OR, -1),
         (vm_XOR, -1), (vm_NOT, 0), (vm_BYTE, -1), (vm_SHL, -1), (vm_SHR, -1), (vm_SAR, -1),
         (vm_KECCAK256, -1), (vm_ADDRESS, 1), (vm_BALANCE, 0), (vm_ORIGIN, 1), (vm_CALLER, 1),
         (vm_CALLVALUE, 1), (vm_CALLDATALOAD, 0), (vm_CALLDATASIZE, 1), (vm_CALLDATACOPY, -3),
         (vm_CODESIZE, 1), (vm_CODECOPY, -3), (vm_GASPRICE, 1), (vm_EXTCODESIZE, 0), (vm_EXTCODECOPY, -4),
         (vm_RETURNDATASIZE, 1), (vm_RETURNDATACOPY, -3), (vm_EXTCODEHASH, 0), (vm_BLOCKHASH, 0),
         (vm_COINBASE, 1), (vm_TIMESTAMP, 1), (vm_NUMBER, 1), (vm_DIFFICULTY, 1), (vm_GASLIMIT, 1),
         (vm_CHAINID, 1), (vm_SELFBALANCE, 1), (vm_BASEFEE, 1), (vm_BLOBHASH, 0), (vm_BLOBBASEFEE, 1),
         (vm_POP, -1), (vm_MLOAD, 0), (vm_MSTORE, -2), (vm_MSTORE8, -2), (vm_SLOAD, 0), (vm_SSTORE, -2),
         (vm_JUMP, -1), (vm_JUMPI, -2), (vm_PC, 1), (vm_MSIZE, 1), (vm_GAS, 1), (vm_JUMPDEST, 0),
         (vm_TLOAD, 0), (vm_TSTORE, -2), (vm_MCOPY, -3), (vm_LOG0, -2), (vm_LOG1, -3), (vm_LOG2, -4),
         (vm_LOG3, -5), (vm_LOG4, -6), (vm_CREATE, -2), (vm_CALL, -7), (vm_CALLCODE, -7), (vm_RETURN, -2),
         (vm_DELEGATECALL, -6), (vm_CREATE2, -3), (vm_STATICCALL, -6), (vm_REVERT, -2), (vm_INVALID, 0),
         (vm_SELFDESTRUCT, -1)] op)"

fun op_growth :: "stack_op \<Rightarrow> int" where
  "op_growth Pop = -1"
| "op_growth (PushWord w) = 1"
| "op_growth (PushValue v) = 1"
| "op_growth (Dup k) = 1"
| "op_growth (Swap k) = 0"
| "op_growth Mark = 0"

definition growth :: "stack_op list \<Rightarrow> int" where
  "growth p = sum_list (map op_growth p)"

lemma growth_simps [simp]:
  "growth [] = 0" "growth (i # p) = op_growth i + growth p" "growth (p @ q) = growth p + growth q"
  "growth (replicate n Pop) = - int n"
  by (simp_all add: growth_def sum_list_replicate)

lemma low_op_growth: "low_op cap i ws = Some ws' \<Longrightarrow> int (length ws') = int (length ws) + op_growth i"
  by (cases i) (auto split: list.splits if_splits)

lemma low_ops_growth: "low_ops cap p ws = Some ws' \<Longrightarrow> int (length ws') = int (length ws) + growth p"
  by (induction p arbitrary: ws) (fastforce dest: low_op_growth split: option.splits)+

text \<open>The opcodes for which the code pops a slot although the EVM pops none.\<close>

definition overpopped :: "opcode list" where
  "overpopped = [vm_DIFFICULTY, vm_GASLIMIT, vm_BASEFEE]"

lemma map_of_all: "map_of kvs k = Some v \<Longrightarrow> list_all (\<lambda>kv. P (fst kv) (snd kv)) kvs \<Longrightarrow> P k v"
  by (drule map_of_SomeD) (auto simp: list_all_iff)

lemma arity_growth:
  "dummy_arity op = Some n \<Longrightarrow> evm_growth op = 1 - int n"
  "pop_arity op = Some n \<Longrightarrow> evm_growth op = - int n"
  "traced_arity op = Some n \<Longrightarrow> evm_growth op = (if op \<in> set overpopped then 2 else 1) - int n"
  unfolding arities
  by (erule map_of_all[where P = "\<lambda>op n. evm_growth op = 1 - int n"],
      simp add: evm_growth_def word_le_nat_alt)
    (erule map_of_all[where P = "\<lambda>op n. evm_growth op = - int n"],
      simp add: evm_growth_def word_le_nat_alt,
     erule map_of_all[where P = "\<lambda>op n. evm_growth op = (if op \<in> set overpopped then 2 else 1) - int n"],
      simp add: evm_growth_def overpopped_def word_le_nat_alt)

lemma evm_growth_ranges:
  "vm_PUSH0 \<le> op \<Longrightarrow> op \<le> vm_DUP16 \<Longrightarrow> evm_growth op = 1"
  "vm_SWAP1 \<le> op \<Longrightarrow> op \<le> vm_SWAP16 \<Longrightarrow> evm_growth op = 0"
proof -
  show "vm_PUSH0 \<le> op \<Longrightarrow> op \<le> vm_DUP16 \<Longrightarrow> evm_growth op = 1"
    unfolding evm_growth_def by (simp only: if_True simp_thms)
  assume swap: "vm_SWAP1 \<le> op" "op \<le> vm_SWAP16"
  then have "\<not> op \<le> vm_DUP16" by (simp add: word_le_nat_alt)
  with swap show "evm_growth op = 0"
    unfolding evm_growth_def by (simp only: if_True if_False simp_thms)
qed

lemma range_growth:
  assumes "vm_PUSH0 \<le> Opcode m" "Opcode m \<le> vm_SWAP16"
  shows "growth (body_plan L m st rs r) = evm_growth (Opcode m)"
proof (cases "Opcode m \<le> vm_DUP16")
  case True
  then have "Opcode m \<le> vm_PUSH1 + 3 \<or> vm_PUSH5 \<le> Opcode m \<and> Opcode m \<le> vm_PUSH32 \<or>
      vm_DUP1 \<le> Opcode m"
    using assms(1) by (simp add: word_le_nat_alt) linarith
  with assms True have "growth (body_plan L m st rs r) = 1"
    unfolding body_plan_def Let_def arities_range[OF assms] option.case by auto
  with evm_growth_ranges(1)[OF assms(1) True] show ?thesis by simp
next
  case False
  then have swap: "vm_SWAP1 \<le> Opcode m" by (simp add: word_le_nat_alt)
  then have "\<not> Opcode m \<le> vm_PUSH1 + 3" "\<not> Opcode m \<le> vm_PUSH32"
    by (simp_all add: word_le_nat_alt)
  with False swap assms(2) have "growth (body_plan L m st rs r) = 0"
    unfolding body_plan_def Let_def arities_range[OF assms] option.case by simp
  with evm_growth_ranges(2)[OF swap assms(2)] show ?thesis by simp
qed

lemma other_growth:
  assumes "op \<in> set other_opcodes" and "Opcode m = op" and "op \<notin> {vm_STOP, vm_RETURN, vm_REVERT, vm_INVALID}"
  shows "growth (body_plan L m st rs r) = evm_growth op"
  using assms unfolding other_opcodes_def
  by (simp only: list.set insert_iff empty_iff) (elim disjE FalseE;
      simp add: body_plan_def arities evm_growth_def word_le_nat_alt Let_def)

lemma body_growth:
  assumes "implemented (Opcode m)" and "Opcode m \<notin> {vm_STOP, vm_RETURN, vm_REVERT, vm_INVALID}"
    and "Opcode m \<notin> set overpopped"
  shows "growth (body_plan L m st rs r) = evm_growth (Opcode m)"
proof (cases "dummy_arity (Opcode m)")
  case (Some n)
  then show ?thesis by (simp add: body_plan_def arity_growth(1))
next
  case d: None
  show ?thesis
  proof (cases "traced_arity (Opcode m)")
    case (Some n)
    with d assms(3) show ?thesis by (simp add: body_plan_def arity_growth(3))
  next
    case t: None
    show ?thesis
    proof (cases "pop_arity (Opcode m)")
      case (Some n)
      with d t show ?thesis by (simp add: body_plan_def arity_growth(2))
    next
      case None
      with d t assms(1,2) range_growth[of m L st rs r] other_growth[OF _ refl, of m L st rs r] show ?thesis
        by (auto simp: implemented_def)
    qed
  qed
qed

lemma plan_growth:
  assumes "implemented (Opcode m)" and "\<not> IsStackRestore m" and "Opcode m \<notin> set overpopped"
  shows "growth (plan L m st rs r) = evm_growth (Opcode m)"
proof (cases "Opcode m \<in> {vm_STOP, vm_RETURN, vm_REVERT, vm_INVALID}")
  case True
  then show ?thesis
    using assms(2) by (elim insertE emptyE) (simp_all add: plan_def evm_growth_def word_le_nat_alt)
next
  case False
  with assms body_growth[of m L st rs r] show ?thesis
    by (auto simp: plan_def Let_def)
qed

text \<open>The code of one entry, run on a machine whose stack the plan does not under- or overflow.\<close>

lemma entry_runs:
  assumes "AddInstructionWithResult L m st rs tr = Inr tr'" and "tr_inv L tr"
    and "production (config tr)" and "go_sized st"
    and "low_ops cap (plan L m st rs (replay_of tr)) ws = Some ws'"
    and "low_rel env (dataSection tr') lo cap ws mc"
  shows "\<exists>mc'. run_asm env (drop (length (instructions tr)) (instructions tr')) mc = Some mc' \<and>
    low_rel env (dataSection tr') lo cap ws' mc'"
proof -
  have "emits_code L tr tr' (plan L m st rs (replay_of tr))"
    using step_refines[OF assms(2-4,1)] by (simp add: refines_step_def)
  moreover have "pool_ok L (dataSection tr)" using assms(2) by (simp add: tr_inv_def)
  ultimately show ?thesis using assms(5,6) by (rule emitted_runs)
qed

lemma low_rel_pointer:
  assumes "low_rel env ds lo cap ws m" and "low_rel env ds lo cap ws' m'"
    and "int (length ws') = int (length ws) + g"
  shows "int (unat (get_reg m' SP)) = int (unat (get_reg m SP)) - 32 * g"
  using low_relD(1)[OF assms(1)] low_relD(1)[OF assms(2)] assms(3) by linarith

text \<open>
  C5. In the production configuration the code of one opcode moves the stack pointer by exactly
  the slots the EVM pushes less those it pops, for every implemented opcode except DIFFICULTY,
  GASLIMIT and BASEFEE. A message call counts with the slots it pops; its flag is pushed at the
  entry of its return, which the statement leaves out.
\<close>

theorem stack_pointer_follows_the_evm:
  assumes "AddInstructionWithResult L m st rs tr = Inr tr'" and "\<not> IsStackRestore m"
    and "implemented (Opcode m)" and "Opcode m \<notin> set overpopped"
    and "tr_inv L tr" and "production (config tr)" and "go_sized st"
    and "low_ops cap (plan L m st rs (replay_of tr)) ws = Some ws'"
    and "low_rel env (dataSection tr') lo cap ws mc"
  shows "\<exists>mc'. run_asm env (drop (length (instructions tr)) (instructions tr')) mc = Some mc' \<and>
    int (unat (get_reg mc' SP)) = int (unat (get_reg mc SP)) - 32 * evm_growth (Opcode m)"
proof -
  from entry_runs[OF assms(1,5-9)] obtain mc' where
    run: "run_asm env (drop (length (instructions tr)) (instructions tr')) mc = Some mc'"
    and rel: "low_rel env (dataSection tr') lo cap ws' mc'"
    by blast
  have "int (length ws') = int (length ws) + evm_growth (Opcode m)"
    using low_ops_growth[OF assms(8)] plan_growth[OF assms(3,2,4)] by simp
  from low_rel_pointer[OF assms(9) rel this] run show ?thesis by blast
qed

text \<open>One entry transpiled by the production transpiler.\<close>

abbreviation production_start :: transpiler where
  "production_start \<equiv> NewTranspilerWithConfig (config NewTranspiler)"

lemma production_start_simps:
  "production (config production_start)" "tr_inv sample_lib production_start" "go_sized None"
  "replay_of production_start = fresh" "instructions production_start = []"
  "dataSection production_start = NewDataSection"
  using production_NewTranspiler tr_inv_new[OF sample_lib_hex]
  by (simp_all add: replay_of_new go_sized_def) (simp_all add: NewTranspilerWithConfig_def)

lemma push_example:
  "\<exists>tr'. AddInstructionWithResult sample_lib (entry vm_PUSH1 [0x2a] []) None None production_start = Inr tr' \<and>
    dataSection tr' = NewDataSection"
  by (simp add: AddInstructionWithResult_def halt_cases_def switch_opcode_def arith_cases_def push_cases_def
      push_literal_def PUSH1_value_def go_index_def storeDebugInfo_def production_start_simps word_le_nat_alt)

theorem stack_pointer_follows_the_evm_witness:
  "\<exists>tr' mc'. AddInstructionWithResult sample_lib (entry vm_PUSH1 [0x2a] []) None None production_start = Inr tr' \<and>
    run_asm (image_env 0) (instructions tr') (image_machine (0x1000 + 32 * 8) []) = Some mc' \<and>
    int (unat (get_reg mc' SP)) = int (unat (get_reg (image_machine (0x1000 + 32 * 8) []) SP)) - 32"
proof -
  obtain tr' where add: "AddInstructionWithResult sample_lib (entry vm_PUSH1 [0x2a] []) None None
      production_start = Inr tr'" and ds: "dataSection tr' = NewDataSection"
    using push_example by blast
  have start: "low_rel (image_env 0) (dataSection tr') 0x1000 8 [] (image_machine (0x1000 + 32 * 8) [])"
    using image_low_rel[of NewDataSection "0x1000" 8 0] by (simp add: ds NewDataSection_def)
  have plan: "low_ops 8 (plan sample_lib (entry vm_PUSH1 [0x2a] []) None None (replay_of production_start)) []
      = Some [0x2a]"
    by (simp add: plan_def body_plan_def arities word_le_nat_alt)
  have op: "implemented vm_PUSH1" "vm_PUSH1 \<notin> set overpopped" "evm_growth vm_PUSH1 = 1"
    by (simp_all add: implemented_def overpopped_def evm_growth_ranges word_le_nat_alt)
  from stack_pointer_follows_the_evm[OF add _ _ _ production_start_simps(2,1,3) plan start] op add
  show ?thesis by (simp add: production_start_simps)
qed

text \<open>
  C14. DIFFICULTY, GASLIMIT and BASEFEE push one value in the EVM and pop none, but their code
  pops a slot first, so a caller's value is lost and the stack pointer does not move.
\<close>

theorem overpopped_opcodes_lose_a_slot:
  assumes "AddInstructionWithResult L m st rs tr = Inr tr'" and "\<not> IsStackRestore m"
    and "Opcode m \<in> set overpopped"
    and "tr_inv L tr" and "production (config tr)" and "go_sized st"
    and "low_ops cap (plan L m st rs (replay_of tr)) ws = Some ws'"
    and "low_rel env (dataSection tr') lo cap ws mc"
  shows "evm_growth (Opcode m) = 1 \<and>
    (\<exists>mc'. run_asm env (drop (length (instructions tr)) (instructions tr')) mc = Some mc' \<and>
      get_reg mc' SP = get_reg mc SP)"
proof -
  from entry_runs[OF assms(1,4-8)] obtain mc' where
    run: "run_asm env (drop (length (instructions tr)) (instructions tr')) mc = Some mc'"
    and rel: "low_rel env (dataSection tr') lo cap ws' mc'"
    by blast
  have op: "dummy_arity (Opcode m) = None" "traced_arity (Opcode m) = Some 1"
    "Opcode m \<notin> {vm_STOP, vm_RETURN, vm_REVERT, vm_INVALID}" "evm_growth (Opcode m) = 1"
    using assms(3) unfolding overpopped_def list.set
    by (elim insertE emptyE; simp add: arities evm_growth_def word_le_nat_alt)+
  then have "growth (plan L m st rs (replay_of tr)) = 0"
    using assms(2) by (simp add: plan_def body_plan_def Let_def)
  with low_ops_growth[OF assms(7)] have "int (length ws') = int (length ws) + 0" by simp
  from low_rel_pointer[OF assms(8) rel this] have "get_reg mc' SP = get_reg mc SP"
    by (simp add: word_uint_eq_iff)
  with run op(4) show ?thesis by blast
qed

lemma basefee_example:
  "\<exists>tr'. AddInstructionWithResult sample_lib (entry vm_BASEFEE [] [0x2a]) None (Some [0x2a, 7])
      production_start = Inr tr' \<and> ds_values (dataSection tr') = [7]"
  by (simp add: AddInstructionWithResult_def halt_cases_def switch_opcode_def arith_cases_def push_cases_def
      stack_cases_def env_cases_def traced_def resultFromTraceCall_def storeDebugInfo_def
      production_start_simps NewDataSection_def Add_def word_le_nat_alt Let_def)

theorem overpopped_opcodes_lose_a_slot_witness:
  "\<exists>tr' mc'. AddInstructionWithResult sample_lib (entry vm_BASEFEE [] [0x2a]) None (Some [0x2a, 7])
      production_start = Inr tr' \<and>
    run_asm (image_env 1) (instructions tr') (image_machine (0x1000 + 32 * 7) [7]) = Some mc' \<and>
    get_reg mc' SP = get_reg (image_machine (0x1000 + 32 * 7) [7]) SP"
proof -
  obtain tr' where add: "AddInstructionWithResult sample_lib (entry vm_BASEFEE [] [0x2a]) None
      (Some [0x2a, 7]) production_start = Inr tr'" and ds: "ds_values (dataSection tr') = [7]"
    using basefee_example by blast
  have start: "low_rel (image_env 1) (dataSection tr') 0x1000 8 [0] (image_machine (0x1000 + 32 * 7) [7])"
    using image_low_rel[of "dataSection tr'" "0x1000" 8 1] by (simp add: ds)
  have plan: "low_ops 8 (plan sample_lib (entry vm_BASEFEE [] [0x2a]) None (Some [0x2a, 7])
      (replay_of production_start)) [0] = Some [7]"
    by (simp add: plan_def body_plan_def arities word_at_def)
  have "vm_BASEFEE \<in> set overpopped" by (simp add: overpopped_def)
  with overpopped_opcodes_lose_a_slot[OF add _ _ production_start_simps(2,1,3) plan start] add
  show ?thesis by (simp add: production_start_simps)
qed

end
