(* ===== verification/Library.thy ===== *)
theory Library
  imports Machine
begin

text \<open>
  The routines of \<open>prover/resources/lib.asm\<close>, which both printed files end with, on the 32-bit
  registers of the OpenVM guest (\<open>target = "riscv32im-unknown-none-elf"\<close>). Unicorn emulates 64-bit
  registers (\<open>MODE_RISCV64\<close> in \<open>prover/unicorn_runner.go\<close>), where carries, shifts and comparisons of
  these routines differ; that emulation is not modelled. A routine is the list of its lines, labels included, in the order of
  the file; pseudo-instructions are abbreviations of the instructions they stand for. Execution
  keeps the lines still to be run, a branch continues after its label in the same routine, and
  \<open>ret\<close> ends it. \<open>lib_callee\<close> is the effect of a call.
\<close>

unbundle bit_operations_syntax

section \<open>Instructions with branches\<close>

datatype alu = RV_ADD | RV_SUB | RV_AND | RV_OR | RV_XOR | RV_SLTU | RV_SLL | RV_SRL | RV_SRA

datatype cond = BEQ | BNE | BLT | BGE | BLTU | BGEU

datatype asm =
    Label string
  | Straight rv
  | Alu alu reg reg reg
  | AluI alu reg reg int
  | Branch cond reg reg string
  | Jump string
  | Ret

abbreviation Li :: "reg \<Rightarrow> int \<Rightarrow> asm" where "Li r k \<equiv> Straight (I_li r k)"
abbreviation Mv :: "reg \<Rightarrow> reg \<Rightarrow> asm" where "Mv r x \<equiv> Straight (I_mv r x)"
abbreviation Addi :: "reg \<Rightarrow> reg \<Rightarrow> int \<Rightarrow> asm" where "Addi r x k \<equiv> Straight (I_addi r x k)"
abbreviation Lw :: "reg \<Rightarrow> int \<Rightarrow> reg \<Rightarrow> asm" where "Lw r k x \<equiv> Straight (I_lw r k x)"
abbreviation Sw :: "reg \<Rightarrow> int \<Rightarrow> reg \<Rightarrow> asm" where "Sw r k x \<equiv> Straight (I_sw r k x)"
abbreviation Bgtu :: "reg \<Rightarrow> reg \<Rightarrow> string \<Rightarrow> asm" where "Bgtu r x l \<equiv> Branch BLTU x r l"
abbreviation Beqz :: "reg \<Rightarrow> string \<Rightarrow> asm" where "Beqz r l \<equiv> Branch BEQ r ZERO l"
abbreviation Bnez :: "reg \<Rightarrow> string \<Rightarrow> asm" where "Bnez r l \<equiv> Branch BNE r ZERO l"
abbreviation Bltz :: "reg \<Rightarrow> string \<Rightarrow> asm" where "Bltz r l \<equiv> Branch BLT r ZERO l"
abbreviation Bgez :: "reg \<Rightarrow> string \<Rightarrow> asm" where "Bgez r l \<equiv> Branch BGE r ZERO l"

definition sltu :: "u32 \<Rightarrow> u32 \<Rightarrow> u32" where
  "sltu a b = (if a < b then 1 else 0)"

fun alu_op :: "alu \<Rightarrow> u32 \<Rightarrow> u32 \<Rightarrow> u32" where
  "alu_op RV_ADD a b = a + b"
| "alu_op RV_SUB a b = a - b"
| "alu_op RV_AND a b = a AND b"
| "alu_op RV_OR a b = a OR b"
| "alu_op RV_XOR a b = a XOR b"
| "alu_op RV_SLTU a b = sltu a b"
| "alu_op RV_SLL a b = push_bit (unat b mod 32) a"
| "alu_op RV_SRL a b = drop_bit (unat b mod 32) a"
| "alu_op RV_SRA a b = signed_drop_bit (unat b mod 32) a"

fun taken :: "cond \<Rightarrow> u32 \<Rightarrow> u32 \<Rightarrow> bool" where
  "taken BEQ a b = (a = b)"
| "taken BNE a b = (a \<noteq> b)"
| "taken BLT a b = (sint a < sint b)"
| "taken BGE a b = (sint b \<le> sint a)"
| "taken BLTU a b = (a < b)"
| "taken BGEU a b = (b \<le> a)"

text \<open>Straight-line instructions of the library use no data labels and make no calls.\<close>

definition no_env :: asm_env where
  "no_env = \<lparr>label_addr = (\<lambda>l. None), callee = (\<lambda>f m. None)\<rparr>"

text \<open>The lines after a label; a label that is not in the routine leaves nothing to run.\<close>

definition after_label :: "asm list \<Rightarrow> string \<Rightarrow> asm list" where
  "after_label P l = tl (dropWhile (\<lambda>c. c \<noteq> Label l) P)"

text \<open>
  \<open>lib_run P cs m\<close> runs the lines \<open>cs\<close> of the routine \<open>P\<close>: the machine at \<open>ret\<close>, \<open>None\<close> when the
  code runs off its end or never returns.
\<close>

partial_function (option) lib_run :: "asm list \<Rightarrow> asm list \<Rightarrow> mach \<Rightarrow> mach option" where
  "lib_run P cs m =
     (case cs of
        [] \<Rightarrow> None
      | c # rest \<Rightarrow>
          (case c of
             Label l \<Rightarrow> lib_run P rest m
           | Straight i \<Rightarrow> (case exec1 no_env i m of None \<Rightarrow> None | Some m' \<Rightarrow> lib_run P rest m')
           | Alu f rd r1 r2 \<Rightarrow> lib_run P rest (set_reg rd (alu_op f (get_reg m r1) (get_reg m r2)) m)
           | AluI f rd r1 k \<Rightarrow> lib_run P rest (set_reg rd (alu_op f (get_reg m r1) (word_of_int k)) m)
           | Branch b r1 r2 l \<Rightarrow>
               (if taken b (get_reg m r1) (get_reg m r2) then lib_run P (after_label P l) m
                else lib_run P rest m)
           | Jump l \<Rightarrow> lib_run P (after_label P l) m
           | Ret \<Rightarrow> Some m))"

lemma lib_run_simps:
  "lib_run P [] m = None"
  "lib_run P (Label l # cs) m = lib_run P cs m"
  "lib_run P (Straight i # cs) m = (case exec1 no_env i m of None \<Rightarrow> None | Some m' \<Rightarrow> lib_run P cs m')"
  "lib_run P (Alu f rd r1 r2 # cs) m = lib_run P cs (set_reg rd (alu_op f (get_reg m r1) (get_reg m r2)) m)"
  "lib_run P (AluI f rd r1 k # cs) m = lib_run P cs (set_reg rd (alu_op f (get_reg m r1) (word_of_int k)) m)"
  "lib_run P (Branch b r1 r2 l # cs) m =
     (if taken b (get_reg m r1) (get_reg m r2) then lib_run P (after_label P l) m else lib_run P cs m)"
  "lib_run P (Jump l # cs) m = lib_run P (after_label P l) m"
  "lib_run P (Ret # cs) m = Some m"
  by (subst lib_run.simps; simp)+

section \<open>The routines\<close>

definition add256_asm :: "asm list" where
  "add256_asm =
     [Li T6 0, Li T0 0,
      Label ''add_loop'',
      AluI RV_SLL T1 T0 2, Alu RV_ADD T2 A0 T1, Lw T3 0 T2, Alu RV_ADD T2 A1 T1, Lw T4 0 T2,
      Alu RV_ADD T2 T3 T4, Alu RV_ADD T5 T2 T6, Alu RV_SLTU T3 T2 T3, Alu RV_SLTU T4 T5 T2,
      Alu RV_OR T6 T3 T4, Alu RV_ADD T2 A1 T1, Sw T5 0 T2, Addi T0 T0 1, Li T1 8,
      Branch BLT T0 T1 ''add_loop'', Addi SP SP 32, Ret]"

definition not256_asm :: "asm list" where
  "not256_asm =
     [Li T0 0,
      Label ''not_loop'',
      AluI RV_SLL T1 T0 2, Alu RV_ADD T2 A0 T1, Lw T3 0 T2, Li T4 (-1), Alu RV_XOR T5 T3 T4,
      Sw T5 0 T2, Addi T0 T0 1, Li T1 8, Branch BLT T0 T1 ''not_loop'', Ret]"

definition shr256_asm :: "asm list" where
  "shr256_asm =
     [Lw T6 0 A1, Li T0 256, Branch BGEU T6 T0 ''shr_zero_result'', Li T0 32,
      Branch BLT T6 T0 ''shr_bit_shift'', AluI RV_SRL T1 T6 5, AluI RV_AND T6 T6 31, Li T0 0,
      Alu RV_ADD T2 T0 T1,
      Label ''shr_word_loop'',
      Li T3 8, Branch BGE T2 T3 ''shr_word_zero'', AluI RV_SLL T4 T2 2, Alu RV_ADD T5 A0 T4,
      AluI RV_SLL T4 T0 2, Alu RV_ADD T3 A0 T4, Lw T4 0 T3, Sw T4 0 T5, Addi T0 T0 1, Addi T2 T2 1,
      Li T3 8, Branch BLT T0 T3 ''shr_word_loop'', Jump ''shr_bit_shift_check'',
      Label ''shr_word_zero'',
      AluI RV_SLL T4 T0 2, Alu RV_ADD T5 A0 T4, Sw ZERO 0 T5, Addi T0 T0 1, Li T3 8,
      Branch BLT T0 T3 ''shr_word_loop'',
      Label ''shr_bit_shift_check'',
      Beqz T6 ''shr_done'',
      Label ''shr_bit_shift'',
      Li T0 0, Li T1 0,
      Label ''shr_bit_loop'',
      AluI RV_SLL T2 T0 2, Alu RV_ADD T3 A0 T2, Lw T4 0 T3, Li T5 32, Alu RV_SUB T5 T5 T6,
      Alu RV_SRL T2 T4 T5, Alu RV_SLL T2 T2 T5, Alu RV_SRL T4 T4 T6, Alu RV_OR T4 T4 T1, Sw T4 0 T3,
      Mv T1 T2, Alu RV_SRL T1 T1 T5, Addi T0 T0 1, Li T2 8, Branch BLT T0 T2 ''shr_bit_loop'',
      Jump ''shr_done'',
      Label ''shr_zero_result'',
      Li T0 0,
      Label ''shr_zero_loop'',
      AluI RV_SLL T1 T0 2, Alu RV_ADD T2 A0 T1, Sw ZERO 0 T2, Addi T0 T0 1, Li T1 8,
      Branch BLT T0 T1 ''shr_zero_loop'',
      Label ''shr_done'',
      Addi SP SP 32, Ret]"

definition shl256_asm :: "asm list" where
  "shl256_asm =
     [Lw T6 0 A1, Li T0 256, Branch BGEU T6 T0 ''shl_zero_result'', Li T0 32,
      Branch BLT T6 T0 ''shl_bit_shift'', AluI RV_SRL T1 T6 5, AluI RV_AND T6 T6 31, Li T0 7,
      Alu RV_SUB T2 T0 T1,
      Label ''shl_word_loop'',
      Bltz T2 ''shl_word_zero'', AluI RV_SLL T4 T2 2, Alu RV_ADD T5 A0 T4, AluI RV_SLL T4 T0 2,
      Alu RV_ADD T3 A0 T4, Lw T4 0 T3, Sw T4 0 T5, Addi T0 T0 (-1), Addi T2 T2 (-1),
      Bgez T0 ''shl_word_loop'', Jump ''shl_bit_shift_check'',
      Label ''shl_word_zero'',
      AluI RV_SLL T4 T0 2, Alu RV_ADD T5 A0 T4, Sw ZERO 0 T5, Addi T0 T0 (-1),
      Bgez T0 ''shl_word_loop'',
      Label ''shl_bit_shift_check'',
      Beqz T6 ''shl_done'',
      Label ''shl_bit_shift'',
      Li T0 7, Li T1 0,
      Label ''shl_bit_loop'',
      AluI RV_SLL T2 T0 2, Alu RV_ADD T3 A0 T2, Lw T4 0 T3, Li T5 32, Alu RV_SUB T5 T5 T6,
      Alu RV_SLL T2 T4 T6, Alu RV_SRL T5 T4 T5, Alu RV_OR T4 T2 T1, Sw T4 0 T3, Mv T1 T5,
      Addi T0 T0 (-1), Bgez T0 ''shl_bit_loop'', Jump ''shl_done'',
      Label ''shl_zero_result'',
      Li T0 0,
      Label ''shl_zero_loop'',
      AluI RV_SLL T1 T0 2, Alu RV_ADD T2 A0 T1, Sw ZERO 0 T2, Addi T0 T0 1, Li T1 8,
      Branch BLT T0 T1 ''shl_zero_loop'',
      Label ''shl_done'',
      Addi SP SP 32, Ret]"

definition slt256_asm :: "asm list" where
  "slt256_asm =
     [Lw T0 28 A0, Lw T1 28 A1, AluI RV_SRA T2 T0 31, AluI RV_SRA T3 T1 31,
      Branch BNE T2 T3 ''slt_sign_diff'', Li T4 7,
      Label ''slt_compare_loop'',
      AluI RV_SLL T5 T4 2, Alu RV_ADD T0 A0 T5, Alu RV_ADD T1 A1 T5, Lw T2 0 T0, Lw T3 0 T1,
      Branch BLTU T2 T3 ''slt_true'', Bgtu T2 T3 ''slt_false'', Addi T4 T4 (-1),
      Bgez T4 ''slt_compare_loop'', Jump ''slt_false'',
      Label ''slt_sign_diff'',
      Bltz T2 ''slt_true'', Jump ''slt_false'',
      Label ''slt_true'',
      Li T0 1, Jump ''slt_store_result'',
      Label ''slt_false'',
      Li T0 0,
      Label ''slt_store_result'',
      Sw T0 0 A1, Sw ZERO 4 A1, Sw ZERO 8 A1, Sw ZERO 12 A1, Sw ZERO 16 A1, Sw ZERO 20 A1,
      Sw ZERO 24 A1, Sw ZERO 28 A1, Addi SP SP 32, Ret]"

definition eq256_asm :: "asm list" where
  "eq256_asm =
     [Li T0 0,
      Label ''eq_compare_loop'',
      AluI RV_SLL T1 T0 2, Alu RV_ADD T2 A0 T1, Alu RV_ADD T3 A1 T1, Lw T4 0 T2, Lw T5 0 T3,
      Branch BNE T4 T5 ''eq_false'', Addi T0 T0 1, Li T1 8,
      Branch BLT T0 T1 ''eq_compare_loop'', Li T0 1, Jump ''eq_store_result'',
      Label ''eq_false'',
      Li T0 0,
      Label ''eq_store_result'',
      Sw T0 0 A1, Sw ZERO 4 A1, Sw ZERO 8 A1, Sw ZERO 12 A1, Sw ZERO 16 A1, Sw ZERO 20 A1,
      Sw ZERO 24 A1, Sw ZERO 28 A1, Addi SP SP 32, Ret]"

definition gt256_asm :: "asm list" where
  "gt256_asm =
     [Li T4 7,
      Label ''gt_compare_loop'',
      AluI RV_SLL T5 T4 2, Alu RV_ADD T0 A0 T5, Alu RV_ADD T1 A1 T5, Lw T2 0 T0, Lw T3 0 T1,
      Bgtu T2 T3 ''gt_true'', Branch BLTU T2 T3 ''gt_false'', Addi T4 T4 (-1),
      Bgez T4 ''gt_compare_loop'', Jump ''gt_false'',
      Label ''gt_true'',
      Li T0 1, Jump ''gt_store_result'',
      Label ''gt_false'',
      Li T0 0,
      Label ''gt_store_result'',
      Sw T0 0 A1, Sw ZERO 4 A1, Sw ZERO 8 A1, Sw ZERO 12 A1, Sw ZERO 16 A1, Sw ZERO 20 A1,
      Sw ZERO 24 A1, Sw ZERO 28 A1, Addi SP SP 32, Ret]"

definition lt256_asm :: "asm list" where
  "lt256_asm =
     [Li T4 7,
      Label ''lt_compare_loop'',
      AluI RV_SLL T5 T4 2, Alu RV_ADD T0 A0 T5, Alu RV_ADD T1 A1 T5, Lw T2 0 T0, Lw T3 0 T1,
      Branch BLTU T2 T3 ''lt_true'', Bgtu T2 T3 ''lt_false'', Addi T4 T4 (-1),
      Bgez T4 ''lt_compare_loop'', Jump ''lt_false'',
      Label ''lt_true'',
      Li T0 1, Jump ''lt_store_result'',
      Label ''lt_false'',
      Li T0 0,
      Label ''lt_store_result'',
      Sw T0 0 A1, Sw ZERO 4 A1, Sw ZERO 8 A1, Sw ZERO 12 A1, Sw ZERO 16 A1, Sw ZERO 20 A1,
      Sw ZERO 24 A1, Sw ZERO 28 A1, Addi SP SP 32, Ret]"

definition mstore256_asm :: "asm list" where
  "mstore256_asm =
     [Lw T0 0 A0, Li T1 0,
      Label ''mstore_loop'',
      AluI RV_SLL T2 T1 2, Alu RV_ADD T3 A1 T2, Alu RV_ADD T4 T0 T2, Lw T5 0 T3, Sw T5 0 T4,
      Addi T1 T1 1, Li T2 8, Branch BLT T1 T2 ''mstore_loop'', Addi SP SP 64, Ret]"

definition mload256_asm :: "asm list" where
  "mload256_asm =
     [Lw T0 0 A0, Li T1 0,
      Label ''mload_loop'',
      AluI RV_SLL T2 T1 2, Alu RV_ADD T3 T0 T2, Alu RV_ADD T4 A0 T2, Lw T5 0 T3, Sw T5 0 T4,
      Addi T1 T1 1, Li T2 8, Branch BLT T1 T2 ''mload_loop'', Ret]"

definition mul256_asm :: "asm list" where
  "mul256_asm =
     [Lw T0 0 A0, Lw T1 0 A1, Li T2 0, Li T3 0,
      Label ''mul_check_simple'',
      Addi T2 T2 1, Li T4 8, Branch BGE T2 T4 ''mul_do_simple'', AluI RV_SLL T4 T2 2,
      Alu RV_ADD T5 A0 T4, Lw T6 0 T5, Alu RV_OR T3 T3 T6, Alu RV_ADD T5 A1 T4, Lw T6 0 T5,
      Alu RV_OR T3 T3 T6, Jump ''mul_check_simple'',
      Label ''mul_do_simple'',
      Beqz T3 ''mul_simple_case'', Li T0 0,
      Label ''mul_clear_complex'',
      AluI RV_SLL T1 T0 2, Alu RV_ADD T2 A1 T1, Sw ZERO 0 T2, Addi T0 T0 1, Li T1 8,
      Branch BLT T0 T1 ''mul_clear_complex'', Jump ''mul_done'',
      Label ''mul_simple_case'',
      Mv A2 T0, Mv A3 T1, Li T2 0, Li T3 0, Beqz A2 ''mul_simple_done'',
      Beqz A3 ''mul_simple_done'',
      Label ''mul_add_loop'',
      Alu RV_ADD T2 T2 A3, Alu RV_SLTU T4 T2 A3, Alu RV_ADD T3 T3 T4, Addi A2 A2 (-1),
      Bnez A2 ''mul_add_loop'',
      Label ''mul_simple_done'',
      Li T0 0,
      Label ''mul_clear_simple'',
      AluI RV_SLL T1 T0 2, Alu RV_ADD T4 A1 T1, Sw ZERO 0 T4, Addi T0 T0 1, Li T1 8,
      Branch BLT T0 T1 ''mul_clear_simple'', Sw T2 0 A1, Sw T3 4 A1,
      Label ''mul_done'',
      Addi SP SP 32, Ret]"

definition sub256_asm :: "asm list" where
  "sub256_asm =
     [Li T6 0, Li T0 0,
      Label ''sub_loop'',
      AluI RV_SLL T1 T0 2, Alu RV_ADD T2 A0 T1, Lw T3 0 T2, Alu RV_ADD T2 A1 T1, Lw T4 0 T2,
      Alu RV_SUB T2 T3 T4, Alu RV_SUB T5 T2 T6, Alu RV_SLTU T3 T3 T4, Alu RV_SLTU T4 T2 T6,
      Alu RV_OR T6 T3 T4, Alu RV_ADD T2 A1 T1, Sw T5 0 T2, Addi T0 T0 1, Li T1 8,
      Branch BLT T0 T1 ''sub_loop'', Addi SP SP 32, Ret]"

definition div256_asm :: "asm list" where
  "div256_asm =
     [Li T0 0, Li T1 0,
      Label ''div_check_zero'',
      AluI RV_SLL T2 T0 2, Alu RV_ADD T3 A0 T2, Lw T4 0 T3, Alu RV_OR T1 T1 T4, Addi T0 T0 1, Li T2 8,
      Branch BLT T0 T2 ''div_check_zero'', Beqz T1 ''div_by_zero'', Jump ''div_simple_case'',
      Label ''div_simple_case'',
      Lw T0 0 A0, Lw T1 0 A1, Bnez T1 ''div_do_division'', Mv T2 ZERO,
      Jump ''div_simple_done'',
      Label ''div_do_division'',
      Branch BLTU T0 T1 ''div_simple_done'', Mv T2 ZERO, Mv T3 T0, Li T4 4294967294,
      Branch BNE T0 T4 ''check_large_result'', Li T4 2,
      Branch BNE T1 T4 ''check_large_result'', Li T2 2147483647, Jump ''div_simple_done'',
      Label ''check_large_result'',
      Li T4 10000000, Branch BNE T0 T4 ''div_general_case'', Li T4 100,
      Branch BNE T1 T4 ''div_general_case'', Li T2 100000, Jump ''div_simple_done'',
      Label ''div_general_case'',
      Li T4 200000, Branch BLTU T0 T4 ''div_use_subtraction'', Mv T2 ZERO, Mv T3 ZERO,
      Li T4 32,
      Label ''div_binary_loop'',
      Beqz T4 ''div_simple_done'', AluI RV_SLL T3 T3 1, AluI RV_SRL T5 T0 31, Alu RV_OR T3 T3 T5,
      AluI RV_SLL T0 T0 1, AluI RV_SLL T2 T2 1, Branch BLTU T3 T1 ''div_binary_next'',
      Alu RV_SUB T3 T3 T1, AluI RV_OR T2 T2 1,
      Label ''div_binary_next'',
      Addi T4 T4 (-1), Jump ''div_binary_loop'',
      Label ''div_use_subtraction'',
      Li T4 200000,
      Label ''div_subtract_loop'',
      Beqz T4 ''div_simple_done'', Branch BLTU T3 T1 ''div_simple_done'', Alu RV_SUB T3 T3 T1,
      Addi T2 T2 1, Addi T4 T4 (-1), Jump ''div_subtract_loop'',
      Label ''div_simple_done'',
      Li T0 0,
      Label ''div_clear_result'',
      AluI RV_SLL T1 T0 2, Alu RV_ADD T3 A1 T1, Sw ZERO 0 T3, Addi T0 T0 1, Li T1 8,
      Branch BLT T0 T1 ''div_clear_result'', Sw T2 0 A1, Jump ''div_done'',
      Label ''div_by_zero'',
      Li T0 0,
      Label ''div_zero_loop'',
      AluI RV_SLL T1 T0 2, Alu RV_ADD T2 A1 T1, Sw ZERO 0 T2, Addi T0 T0 1, Li T1 8,
      Branch BLT T0 T1 ''div_zero_loop'',
      Label ''div_done'',
      Addi SP SP 32, Ret]"

definition and256_asm :: "asm list" where
  "and256_asm =
     [Li T0 0,
      Label ''and_loop'',
      AluI RV_SLL T1 T0 2, Alu RV_ADD T2 A0 T1, Lw T3 0 T2, Alu RV_ADD T2 A1 T1, Lw T4 0 T2,
      Alu RV_AND T5 T3 T4, Alu RV_ADD T2 A1 T1, Sw T5 0 T2, Addi T0 T0 1, Li T1 8,
      Branch BLT T0 T1 ''and_loop'', Addi SP SP 32, Ret]"

definition or256_asm :: "asm list" where
  "or256_asm =
     [Li T0 0,
      Label ''or_loop'',
      AluI RV_SLL T1 T0 2, Alu RV_ADD T2 A0 T1, Lw T3 0 T2, Alu RV_ADD T2 A1 T1, Lw T4 0 T2,
      Alu RV_OR T5 T3 T4, Alu RV_ADD T2 A1 T1, Sw T5 0 T2, Addi T0 T0 1, Li T1 8,
      Branch BLT T0 T1 ''or_loop'', Addi SP SP 32, Ret]"

definition xor256_asm :: "asm list" where
  "xor256_asm =
     [Li T0 0,
      Label ''xor_loop'',
      AluI RV_SLL T1 T0 2, Alu RV_ADD T2 A0 T1, Lw T3 0 T2, Alu RV_ADD T2 A1 T1, Lw T4 0 T2,
      Alu RV_XOR T5 T3 T4, Alu RV_ADD T2 A1 T1, Sw T5 0 T2, Addi T0 T0 1, Li T1 8,
      Branch BLT T0 T1 ''xor_loop'', Addi SP SP 32, Ret]"

definition lib_routines :: "(string \<times> asm list) list" where
  "lib_routines =
     [(''add256_stack_scratch'', add256_asm),
      (''not256_stack_scratch'', not256_asm),
      (''shr256_stack_scratch'', shr256_asm),
      (''shl256_stack_scratch'', shl256_asm),
      (''slt256_stack_scratch'', slt256_asm),
      (''eq256_stack_scratch'', eq256_asm),
      (''gt256_stack_scratch'', gt256_asm),
      (''lt256_stack_scratch'', lt256_asm),
      (''mstore256_stack_scratch'', mstore256_asm),
      (''mload256_stack_scratch'', mload256_asm),
      (''mul256_stack_scratch'', mul256_asm),
      (''sub256_stack_scratch'', sub256_asm),
      (''div256_stack_scratch'', div256_asm),
      (''and256_stack_scratch'', and256_asm),
      (''or256_stack_scratch'', or256_asm),
      (''xor256_stack_scratch'', xor256_asm)]"

text \<open>
  The effect of a call: \<open>ra\<close> gets the address to return to, then the routine runs. \<open>lib_env\<close> is the
  environment of a program linked with the library, for given data labels and return address.
\<close>

definition lib_callee :: "u32 \<Rightarrow> string \<Rightarrow> mach \<Rightarrow> mach option" where
  "lib_callee link f m =
     (case map_of lib_routines f of
        None \<Rightarrow> None
      | Some P \<Rightarrow> lib_run P P (set_reg RA link m))"

definition lib_env :: "(string \<Rightarrow> u32 option) \<Rightarrow> u32 \<Rightarrow> asm_env" where
  "lib_env labels link = \<lparr>label_addr = labels, callee = lib_callee link\<rparr>"

end
