(* ===== verification/LibLoops.thy ===== *)
theory LibLoops
  imports Library StackCode
begin

text \<open>
  The loops of the library routines. \<open>word_loop\<close> is the shape of every loop that walks the eight
  words of one or two operands and stores one word per turn: bitwise operations, addition and
  subtraction with their carry, the copies of \<open>mstore\<close> and \<open>mload\<close>, the loops that clear a
  result. \<open>word_scan\<close> is the shape of the loops that only look: the comparisons. Each loop of the
  code is an interpretation; the lemmas give the machine at the exit of the loop.
\<close>

unbundle bit_operations_syntax

section \<open>Indices and addresses\<close>

named_theorems asm_simps "symbolic execution of library code"

declare lib_run_simps [asm_simps] mach_simps [asm_simps]

lemma zero_reg [asm_simps]: "get_reg m ZERO = 0"
  by (simp add: get_reg_def)

lemma idx_shift [asm_simps]: "push_bit 2 (w :: u32) = 4 * w"
  by (simp add: push_bit_eq_mult)

lemma idx_sint: "i < 2 ^ 31 \<Longrightarrow> sint (word_of_nat i :: u32) = int i"
  by (simp add: signed_of_nat signed_take_bit_int_eq_self)

lemma idx_up [asm_simps]: "i < 8 \<Longrightarrow> sint (1 + word_of_nat i :: u32) < 8 \<longleftrightarrow> i < 7"
  using idx_sint[of "Suc i"] by simp

text \<open>The slots of eight words at two addresses, equal or disjoint.\<close>

definition apart :: "u32 \<Rightarrow> u32 \<Rightarrow> bool" where
  "apart a b \<longleftrightarrow> (\<forall>i<8. \<forall>j<8. far (a + word_of_nat (4 * i)) (b + word_of_nat (4 * j)))"

lemma apart_sym: "apart a b \<longleftrightarrow> apart b a"
  by (auto simp: apart_def far_sym)

lemma apart_next: "apart a (a + 32)"
proof -
  have "far (a + word_of_nat (4 * i)) (a + 32 + word_of_nat (4 * j))" if "i < 8" "j < 8" for i j
    using far_of_nat[of "4 * i" "32 + 4 * j" a] that by (simp add: add.assoc)
  then show ?thesis by (simp add: apart_def)
qed

lemma far_words: "i < 8 \<Longrightarrow> j < 8 \<Longrightarrow> i \<noteq> j \<Longrightarrow> far (a + word_of_nat (4 * i)) (a + word_of_nat (4 * j))"
  using far_of_nat[of "4 * i" "4 * j" a] far_of_nat[of "4 * j" "4 * i" a]
  by (cases "i < j") (simp_all add: far_sym)

definition outside :: "u32 \<Rightarrow> u32 \<Rightarrow> bool" where
  "outside d a \<longleftrightarrow> (\<forall>j<8. far (d + word_of_nat (4 * j)) a)"

lemma apart_outside: "apart d a \<Longrightarrow> i < 8 \<Longrightarrow> outside d (a + word_of_nat (4 * i))"
  by (simp add: apart_def outside_def)

section \<open>Loops that store one word per turn\<close>

text \<open>
  At the label \<open>l\<close>, in turn \<open>k\<close>, the loop reads the words at index \<open>order k\<close> of the slots at the
  registers \<open>srcs\<close>, stores \<open>f\<close> of them and of the accumulator at that index of \<open>dst\<close> and updates
  the accumulator by \<open>g\<close>; after eight turns it leaves for \<open>exit\<close>. \<open>ok\<close> is what it needs of the
  registers it only reads.
\<close>

definition words_at :: "reg list \<Rightarrow> nat \<Rightarrow> mach \<Rightarrow> u32 list" where
  "words_at srcs i m = map (\<lambda>r. rd32 (mem m) (get_reg m r + word_of_nat (4 * i))) srcs"

definition same_regs :: "reg set \<Rightarrow> mach \<Rightarrow> mach \<Rightarrow> bool" where
  "same_regs R m m' \<longleftrightarrow> (\<forall>r\<in>R. get_reg m' r = get_reg m r)"

lemma same_regs_refl [simp]: "same_regs R m m"
  by (simp add: same_regs_def)

lemma same_regs_trans: "same_regs R a b \<Longrightarrow> same_regs R b c \<Longrightarrow> same_regs R a c"
  by (simp add: same_regs_def)

fun accs :: "(u32 list \<Rightarrow> u32 \<Rightarrow> u32) \<Rightarrow> (nat \<Rightarrow> u32 list) \<Rightarrow> u32 \<Rightarrow> nat \<Rightarrow> u32" where
  "accs g ws c 0 = c"
| "accs g ws c (Suc k) = g (ws k) (accs g ws c k)"

locale ordered_loop =
  fixes P :: "asm list" and l :: string and body exit :: "asm list"
    and idx lim acc dst :: reg and bc :: cond and srcs :: "reg list" and kept :: "reg set"
    and f g :: "u32 list \<Rightarrow> u32 \<Rightarrow> u32" and order :: "nat \<Rightarrow> nat" and ok :: "mach \<Rightarrow> bool"
  assumes at_label: "after_label P l = body @ Branch bc idx lim l # exit"
    and keeps: "insert dst (set srcs) \<subseteq> kept"
    and order_small: "k < 8 \<Longrightarrow> order k < 8"
    and order_inj: "i < 8 \<Longrightarrow> j < 8 \<Longrightarrow> order i = order j \<Longrightarrow> i = j"
    and ok_kept: "ok m \<Longrightarrow> same_regs kept m m' \<Longrightarrow> ok m'"
    and ordered_turn: "get_reg m idx = word_of_nat (order k) \<Longrightarrow> k < 8 \<Longrightarrow> ok m \<Longrightarrow>
      \<exists>m'. (\<forall>rest. lib_run P (body @ rest) m = lib_run P rest m') \<and>
        (taken bc (get_reg m' idx) (get_reg m' lim) \<longleftrightarrow> k < 7) \<and>
        mem m' = wr32 (mem m) (get_reg m dst + word_of_nat (4 * order k)) (f (words_at srcs (order k) m) (get_reg m acc)) \<and>
        get_reg m' acc = g (words_at srcs (order k) m) (get_reg m acc) \<and>
        (k < 7 \<longrightarrow> get_reg m' idx = word_of_nat (order (Suc k))) \<and> same_regs kept m m'"
begin

lemma turns:
  assumes start: "get_reg m idx = word_of_nat (order 0)" "ok m"
    and sep: "\<And>r. r \<in> set srcs \<Longrightarrow> get_reg m r = get_reg m dst \<or> apart (get_reg m r) (get_reg m dst)"
    and k: "k \<le> 8"
  shows "\<exists>m'. lib_run P (after_label P l) m = lib_run P (if k < 8 then after_label P l else exit) m' \<and>
    (k < 8 \<longrightarrow> get_reg m' idx = word_of_nat (order k)) \<and>
    get_reg m' acc = accs g (\<lambda>i. words_at srcs (order i) m) (get_reg m acc) k \<and>
    (\<forall>j<k. rd32 (mem m') (get_reg m dst + word_of_nat (4 * order j)) =
       f (words_at srcs (order j) m) (accs g (\<lambda>i. words_at srcs (order i) m) (get_reg m acc) j)) \<and>
    (\<forall>j<8. k \<le> j \<longrightarrow> rd32 (mem m') (get_reg m dst + word_of_nat (4 * order j)) =
       rd32 (mem m) (get_reg m dst + word_of_nat (4 * order j))) \<and>
    (\<forall>a. outside (get_reg m dst) a \<longrightarrow> rd32 (mem m') a = rd32 (mem m) a) \<and>
    same_regs kept m m'"
  using k
proof (induction k)
  case 0
  with start show ?case by (intro exI[of _ m]) simp
next
  case (Suc k)
  let ?d = "get_reg m dst" and ?k = "order k"
  let ?acc = "accs g (\<lambda>i. words_at srcs (order i) m) (get_reg m acc)"
  have k8: "k < 8" using Suc.prems by simp
  from Suc k8 obtain m1 where m1: "lib_run P (after_label P l) m = lib_run P (after_label P l) m1"
    "get_reg m1 idx = word_of_nat ?k" "get_reg m1 acc = ?acc k"
    and stored: "\<forall>j<k. rd32 (mem m1) (?d + word_of_nat (4 * order j)) = f (words_at srcs (order j) m) (?acc j)"
    and rest: "\<forall>j<8. k \<le> j \<longrightarrow> rd32 (mem m1) (?d + word_of_nat (4 * order j)) =
      rd32 (mem m) (?d + word_of_nat (4 * order j))"
    and out: "\<forall>a. outside ?d a \<longrightarrow> rd32 (mem m1) a = rd32 (mem m) a" and regs: "same_regs kept m m1"
    by auto
  have dst: "get_reg m1 dst = ?d" and src: "r \<in> set srcs \<Longrightarrow> get_reg m1 r = get_reg m r" for r
    using regs keeps by (auto simp: same_regs_def)
  note k' = order_small[OF k8]
  have "rd32 (mem m1) (get_reg m1 r + word_of_nat (4 * ?k)) = rd32 (mem m) (get_reg m r + word_of_nat (4 * ?k))"
    if r: "r \<in> set srcs" for r
    using sep[OF r]
  proof
    assume "get_reg m r = ?d"
    with rest k8 src[OF r] show ?thesis by simp
  next
    assume "apart (get_reg m r) ?d"
    then have "outside ?d (get_reg m r + word_of_nat (4 * ?k))"
      using k' by (intro apart_outside) (simp_all add: apart_sym)
    with out src[OF r] show ?thesis by simp
  qed
  then have ws: "words_at srcs ?k m1 = words_at srcs ?k m"
    by (simp add: words_at_def)
  from ordered_turn[OF m1(2) k8 ok_kept[OF start(2) regs]] obtain m2 where
    m2: "\<And>rest. lib_run P (body @ rest) m1 = lib_run P rest m2"
      "taken bc (get_reg m2 idx) (get_reg m2 lim) \<longleftrightarrow> k < 7"
      "mem m2 = wr32 (mem m1) (?d + word_of_nat (4 * ?k)) (f (words_at srcs ?k m) (?acc k))"
      "get_reg m2 acc = ?acc (Suc k)" "k < 7 \<longrightarrow> get_reg m2 idx = word_of_nat (order (Suc k))" "same_regs kept m1 m2"
    unfolding dst ws m1(3) by auto
  have far: "far (?d + word_of_nat (4 * ?k)) (?d + word_of_nat (4 * order j))" if "j < 8" "j \<noteq> k" for j
    using that k8 order_inj[of k j] order_small[OF that(1)] by (intro far_words k') auto
  have "rd32 (mem m2) (?d + word_of_nat (4 * order j)) = f (words_at srcs (order j) m) (?acc j)" if "j < Suc k" for j
    using that stored k8 far[of j] unfolding m2(3)
    by (cases "j = k") (simp_all add: rd32_wr32 rd32_wr32_far)
  moreover have "rd32 (mem m2) (?d + word_of_nat (4 * order j)) = rd32 (mem m) (?d + word_of_nat (4 * order j))"
    if "j < 8" "Suc k \<le> j" for j
    using that rest far[of j] unfolding m2(3) by (simp add: rd32_wr32_far)
  moreover have "rd32 (mem m2) a = rd32 (mem m) a" if "outside ?d a" for a
    using that out k' unfolding m2(3) by (simp add: outside_def rd32_wr32_far)
  moreover have "lib_run P (after_label P l) m = lib_run P (if Suc k < 8 then after_label P l else exit) m2"
    using m1(1) m2(1)[of "Branch bc idx lim l # exit"] m2(2) k8
    by (simp add: at_label lib_run_simps)
  ultimately show ?case
    using m2(4,5) same_regs_trans[OF regs m2(6)] by (intro exI[of _ m2]) simp
qed

text \<open>The machine at the exit of the loop.\<close>

lemma ordered_exit:
  assumes "get_reg m idx = word_of_nat (order 0)" "ok m"
    and "\<And>r. r \<in> set srcs \<Longrightarrow> get_reg m r = get_reg m dst \<or> apart (get_reg m r) (get_reg m dst)"
  shows "\<exists>m'. lib_run P (after_label P l) m = lib_run P exit m' \<and>
    (\<forall>j<8. rd32 (mem m') (get_reg m dst + word_of_nat (4 * order j)) =
       f (words_at srcs (order j) m) (accs g (\<lambda>i. words_at srcs (order i) m) (get_reg m acc) j)) \<and>
    (\<forall>a. outside (get_reg m dst) a \<longrightarrow> rd32 (mem m') a = rd32 (mem m) a) \<and>
    same_regs kept m m'"
  using turns[of m 8] assms by auto

end

text \<open>The common case: upwards, with the bound in \<open>lim\<close>, in every state.\<close>

locale word_loop =
  fixes P :: "asm list" and l :: string and body exit :: "asm list"
    and idx lim acc dst :: reg and srcs :: "reg list" and kept :: "reg set"
    and f g :: "u32 list \<Rightarrow> u32 \<Rightarrow> u32"
  assumes label: "after_label P l = body @ Branch BLT idx lim l # exit"
    and used_kept: "insert dst (set srcs) \<subseteq> kept"
    and turn: "get_reg m idx = word_of_nat i \<Longrightarrow> i < 8 \<Longrightarrow>
      \<exists>m'. (\<forall>rest. lib_run P (body @ rest) m = lib_run P rest m') \<and> get_reg m' lim = 8 \<and>
        mem m' = wr32 (mem m) (get_reg m dst + word_of_nat (4 * i)) (f (words_at srcs i m) (get_reg m acc)) \<and>
        get_reg m' acc = g (words_at srcs i m) (get_reg m acc) \<and>
        get_reg m' idx = word_of_nat (Suc i) \<and> same_regs kept m m'"

sublocale word_loop \<subseteq> ordered_loop P l body exit idx lim acc dst BLT srcs kept f g "\<lambda>k. k" "\<lambda>m. True"
proof (unfold_locales, rule label, rule used_kept, simp, simp, simp)
  fix m k
  assume "get_reg m idx = word_of_nat k" "k < 8"
  from turn[OF this] obtain m' where
    "\<forall>rest. lib_run P (body @ rest) m = lib_run P rest m'" "get_reg m' lim = 8"
    "mem m' = wr32 (mem m) (get_reg m dst + word_of_nat (4 * k)) (f (words_at srcs k m) (get_reg m acc))"
    "get_reg m' acc = g (words_at srcs k m) (get_reg m acc)" "get_reg m' idx = word_of_nat (Suc k)" "same_regs kept m m'"
    by blast
  with \<open>k < 8\<close> show "\<exists>m'. (\<forall>rest. lib_run P (body @ rest) m = lib_run P rest m') \<and>
        (taken BLT (get_reg m' idx) (get_reg m' lim) \<longleftrightarrow> k < 7) \<and>
        mem m' = wr32 (mem m) (get_reg m dst + word_of_nat (4 * k)) (f (words_at srcs k m) (get_reg m acc)) \<and>
        get_reg m' acc = g (words_at srcs k m) (get_reg m acc) \<and>
        (k < 7 \<longrightarrow> get_reg m' idx = word_of_nat (Suc k)) \<and> same_regs kept m m'"
    by (intro exI[of _ m']) (simp add: idx_up)
qed

context word_loop
begin

lemma loop:
  assumes "get_reg m idx = 0"
    and "\<And>r. r \<in> set srcs \<Longrightarrow> get_reg m r = get_reg m dst \<or> apart (get_reg m r) (get_reg m dst)"
  shows "\<exists>m'. lib_run P (after_label P l) m = lib_run P exit m' \<and>
    (\<forall>j<8. rd32 (mem m') (get_reg m dst + word_of_nat (4 * j)) =
       f (words_at srcs j m) (accs g (\<lambda>i. words_at srcs i m) (get_reg m acc) j)) \<and>
    (\<forall>a. outside (get_reg m dst) a \<longrightarrow> rd32 (mem m') a = rd32 (mem m) a) \<and>
    same_regs kept m m'"
  using ordered_exit[of m] assms by simp

end

section \<open>Loops that look for a difference\<close>

text \<open>
  The words of two slots are compared one by one, at the indices \<open>order 0, order 1, \<dots>\<close>; the first
  comparison of \<open>tests\<close> that holds leaves for its label, and a loop that ends without one leaves
  for \<open>exit\<close>.
\<close>

fun decide :: "(cond \<times> bool \<times> string) list \<Rightarrow> u32 \<Rightarrow> u32 \<Rightarrow> string option" where
  "decide [] x y = None"
| "decide ((c, swap, l) # ts) x y =
     (if (if swap then taken c y x else taken c x y) then Some l else decide ts x y)"

fun test_code :: "reg \<Rightarrow> reg \<Rightarrow> (cond \<times> bool \<times> string) list \<Rightarrow> asm list" where
  "test_code rx ry [] = []"
| "test_code rx ry ((c, swap, l) # ts) =
     (if swap then Branch c ry rx l else Branch c rx ry l) # test_code rx ry ts"

lemma run_tests:
  "lib_run P (test_code rx ry ts @ rest) m =
   lib_run P (case decide ts (get_reg m rx) (get_reg m ry) of Some l \<Rightarrow> after_label P l | None \<Rightarrow> rest) m"
  by (induction rx ry ts rule: test_code.induct) (auto simp: lib_run_simps)

fun verdict :: "(nat \<Rightarrow> 'a option) \<Rightarrow> nat \<Rightarrow> nat \<Rightarrow> 'a option" where
  "verdict d 0 k = None"
| "verdict d (Suc n) k = (case d k of Some x \<Rightarrow> Some x | None \<Rightarrow> verdict d n (Suc k))"

locale word_scan =
  fixes P :: "asm list" and l :: string and body adv exit :: "asm list"
    and idx lim rx ry :: reg and bc :: cond and tests :: "(cond \<times> bool \<times> string) list"
    and order :: "nat \<Rightarrow> nat" and kept :: "reg set"
  assumes at_label: "after_label P l = body @ test_code rx ry tests @ adv @ Branch bc idx lim l # exit"
    and keeps: "{A0, A1} \<subseteq> kept"
    and look: "get_reg m idx = word_of_nat i \<Longrightarrow> i < 8 \<Longrightarrow>
      \<exists>m'. (\<forall>rest. lib_run P (body @ rest) m = lib_run P rest m') \<and>
        get_reg m' rx = rd32 (mem m) (get_reg m A0 + word_of_nat (4 * i)) \<and>
        get_reg m' ry = rd32 (mem m) (get_reg m A1 + word_of_nat (4 * i)) \<and>
        get_reg m' idx = get_reg m idx \<and> mem m' = mem m \<and> same_regs kept m m'"
    and order_small: "k < 8 \<Longrightarrow> order k < 8"
    and advance: "get_reg m idx = word_of_nat (order k) \<Longrightarrow> k < 8 \<Longrightarrow>
      \<exists>m'. (\<forall>rest. lib_run P (adv @ rest) m = lib_run P rest m') \<and>
        (taken bc (get_reg m' idx) (get_reg m' lim) \<longleftrightarrow> k < 7) \<and>
        (k < 7 \<longrightarrow> get_reg m' idx = word_of_nat (order (Suc k))) \<and> mem m' = mem m \<and> same_regs kept m m'"
begin

lemma scans:
  assumes "get_reg m idx = word_of_nat (order k)" and "k + Suc n = 8"
  shows "\<exists>m'. lib_run P (after_label P l) m =
      lib_run P (case verdict (\<lambda>k. decide tests (rd32 (mem m) (get_reg m A0 + word_of_nat (4 * order k)))
                   (rd32 (mem m) (get_reg m A1 + word_of_nat (4 * order k)))) (Suc n) k of
                 Some t \<Rightarrow> after_label P t | None \<Rightarrow> exit) m' \<and>
    mem m' = mem m \<and> same_regs kept m m'"
  using assms
proof (induction n arbitrary: k m)
  case less: 0
  from look[OF less(1)] order_small[of k] less(2) obtain m1 where
    m1: "\<And>rest. lib_run P (body @ rest) m = lib_run P rest m1"
      "get_reg m1 rx = rd32 (mem m) (get_reg m A0 + word_of_nat (4 * order k))"
      "get_reg m1 ry = rd32 (mem m) (get_reg m A1 + word_of_nat (4 * order k))"
      "get_reg m1 idx = word_of_nat (order k)" "mem m1 = mem m" "same_regs kept m m1"
    using less(1) by auto
  from advance[OF m1(4)] less(2) obtain m2 where
    m2: "\<And>rest. lib_run P (adv @ rest) m1 = lib_run P rest m2"
      "\<not> taken bc (get_reg m2 idx) (get_reg m2 lim)" "mem m2 = mem m1" "same_regs kept m1 m2"
    by auto
  show ?case
  proof (cases "decide tests (get_reg m1 rx) (get_reg m1 ry)")
    case None
    with m1 m2 same_regs_trans[OF m1(6) m2(4)] show ?thesis
      by (intro exI[of _ m2]) (simp add: at_label run_tests lib_run_simps)
  next
    case (Some t)
    with m1 show ?thesis by (intro exI[of _ m1]) (simp add: at_label run_tests)
  qed
next
  case (Suc n)
  have k7: "k < 7" "k < 8" using Suc.prems(2) by simp_all
  from look[OF Suc.prems(1) order_small[OF k7(2)]] obtain m1 where
    m1: "\<And>rest. lib_run P (body @ rest) m = lib_run P rest m1"
      "get_reg m1 rx = rd32 (mem m) (get_reg m A0 + word_of_nat (4 * order k))"
      "get_reg m1 ry = rd32 (mem m) (get_reg m A1 + word_of_nat (4 * order k))"
      "get_reg m1 idx = word_of_nat (order k)" "mem m1 = mem m" "same_regs kept m m1"
    using Suc.prems(1) by auto
  from advance[OF m1(4) k7(2)] k7(1) obtain m2 where
    m2: "\<And>rest. lib_run P (adv @ rest) m1 = lib_run P rest m2"
      "taken bc (get_reg m2 idx) (get_reg m2 lim)" "get_reg m2 idx = word_of_nat (order (Suc k))"
      "mem m2 = mem m1" "same_regs kept m1 m2"
    by auto
  have regs: "same_regs kept m m2" using same_regs_trans[OF m1(6) m2(5)] .
  then have ab: "get_reg m2 A0 = get_reg m A0" "get_reg m2 A1 = get_reg m A1"
    using keeps by (auto simp: same_regs_def)
  show ?case
  proof (cases "decide tests (get_reg m1 rx) (get_reg m1 ry)")
    case None
    then have here: "lib_run P (after_label P l) m = lib_run P (after_label P l) m2"
      using m1(1) m2(1,2) by (simp add: at_label run_tests lib_run_simps)
    from Suc.IH[OF m2(3)] Suc.prems(2) obtain m3 where
      "lib_run P (after_label P l) m2 =
        lib_run P (case verdict (\<lambda>k. decide tests (rd32 (mem m2) (get_reg m2 A0 + word_of_nat (4 * order k)))
                     (rd32 (mem m2) (get_reg m2 A1 + word_of_nat (4 * order k)))) (Suc n) (Suc k) of
                   Some t \<Rightarrow> after_label P t | None \<Rightarrow> exit) m3"
      "mem m3 = mem m2" "same_regs kept m2 m3"
      by auto
    with here None m1(2,3,5) m2(4) ab same_regs_trans[OF regs] show ?thesis
      by (intro exI[of _ m3]) simp
  next
    case (Some t)
    with m1 show ?thesis by (intro exI[of _ m1]) (simp add: at_label run_tests)
  qed
qed

lemma scan:
  assumes "get_reg m idx = word_of_nat (order 0)"
  shows "\<exists>m'. lib_run P (after_label P l) m =
      lib_run P (case verdict (\<lambda>k. decide tests (rd32 (mem m) (get_reg m A0 + word_of_nat (4 * order k)))
                   (rd32 (mem m) (get_reg m A1 + word_of_nat (4 * order k)))) 8 0 of
                 Some t \<Rightarrow> after_label P t | None \<Rightarrow> exit) m' \<and>
    mem m' = mem m \<and> same_regs kept m m'"
  using scans[of m 0 7] assms by (simp del: verdict.simps)

end

section \<open>The loops of the code\<close>

lemma turnI:
  "(\<And>rest. lib_run P (body @ rest) m = lib_run P rest m') \<Longrightarrow> Q m' \<Longrightarrow>
   \<exists>m'. (\<forall>rest. lib_run P (body @ rest) m = lib_run P rest m') \<and> Q m'"
  by blast

text \<open>The registers every routine leaves alone, \<open>sp\<close> apart, with the addresses of its operands.\<close>

abbreviation saved :: "reg set" where
  "saved \<equiv> {A0, A1, SP, S1, S2, S3, RA}"

lemma saved_operands: "insert A1 (set [A0, A1]) \<subseteq> saved" "insert A0 (set [A0]) \<subseteq> saved"
  by simp_all

text \<open>A carry is one when the sum of two words, or the carry added to it, wraps around.\<close>

definition carry :: "u32 \<Rightarrow> u32 \<Rightarrow> u32 \<Rightarrow> u32" where
  "carry a b c = sltu (a + b) a OR sltu (a + b + c) (a + b)"

definition borrow :: "u32 \<Rightarrow> u32 \<Rightarrow> u32 \<Rightarrow> u32" where
  "borrow a b c = sltu a b OR sltu (a - b) c"

lemmas turn_defs = words_at_def carry_def borrow_def same_regs_def

lemmas add_code = arg_cong[OF add256_asm_def, of "\<lambda>cs. take 14 (drop 3 cs)", simplified]

interpretation add: word_loop add256_asm "''add_loop''" "take 14 (drop 3 add256_asm)" "drop 18 add256_asm"
  T0 T1 T6 A1 "[A0, A1]" "saved" "\<lambda>ws c. ws ! 0 + ws ! 1 + c" "\<lambda>ws c. carry (ws ! 0) (ws ! 1) c"
  by (unfold_locales, simp add: after_label_def add256_asm_def, simp, rule turnI, simp add: asm_simps add_code,
    simp add: asm_simps turn_defs)

lemmas sub_code = arg_cong[OF sub256_asm_def, of "\<lambda>cs. take 14 (drop 3 cs)", simplified]

interpretation sub: word_loop sub256_asm "''sub_loop''" "take 14 (drop 3 sub256_asm)" "drop 18 sub256_asm"
  T0 T1 T6 A1 "[A0, A1]" "saved" "\<lambda>ws c. ws ! 0 - ws ! 1 - c" "\<lambda>ws c. borrow (ws ! 0) (ws ! 1) c"
  by (unfold_locales, simp add: after_label_def sub256_asm_def, simp, rule turnI, simp add: asm_simps sub_code,
    simp add: asm_simps turn_defs)

lemmas andw_code = arg_cong[OF and256_asm_def, of "\<lambda>cs. take 10 (drop 2 cs)", simplified]

interpretation andw: word_loop and256_asm "''and_loop''" "take 10 (drop 2 and256_asm)" "drop 13 and256_asm"
  T0 T1 ZERO A1 "[A0, A1]" "saved" "\<lambda>ws c. ws ! 0 AND ws ! 1" "\<lambda>ws c. 0"
  by (unfold_locales, simp add: after_label_def and256_asm_def, simp, rule turnI, simp add: asm_simps andw_code,
    simp add: asm_simps turn_defs)

lemmas orw_code = arg_cong[OF or256_asm_def, of "\<lambda>cs. take 10 (drop 2 cs)", simplified]

interpretation orw: word_loop or256_asm "''or_loop''" "take 10 (drop 2 or256_asm)" "drop 13 or256_asm"
  T0 T1 ZERO A1 "[A0, A1]" "saved" "\<lambda>ws c. ws ! 0 OR ws ! 1" "\<lambda>ws c. 0"
  by (unfold_locales, simp add: after_label_def or256_asm_def, simp, rule turnI, simp add: asm_simps orw_code,
    simp add: asm_simps turn_defs)

lemmas xorw_code = arg_cong[OF xor256_asm_def, of "\<lambda>cs. take 10 (drop 2 cs)", simplified]

interpretation xorw: word_loop xor256_asm "''xor_loop''" "take 10 (drop 2 xor256_asm)" "drop 13 xor256_asm"
  T0 T1 ZERO A1 "[A0, A1]" "saved" "\<lambda>ws c. ws ! 0 XOR ws ! 1" "\<lambda>ws c. 0"
  by (unfold_locales, simp add: after_label_def xor256_asm_def, simp, rule turnI, simp add: asm_simps xorw_code,
    simp add: asm_simps turn_defs)

lemmas notw_code = arg_cong[OF not256_asm_def, of "\<lambda>cs. take 8 (drop 2 cs)", simplified]

interpretation notw: word_loop not256_asm "''not_loop''" "take 8 (drop 2 not256_asm)" "drop 11 not256_asm"
  T0 T1 ZERO A0 "[A0]" "saved" "\<lambda>ws c. ws ! 0 XOR - 1" "\<lambda>ws c. 0"
  by (unfold_locales, simp add: after_label_def not256_asm_def, simp, rule turnI, simp add: asm_simps notw_code,
    simp add: asm_simps turn_defs)

lemmas mstore_code = arg_cong[OF mstore256_asm_def, of "\<lambda>cs. take 7 (drop 3 cs)", simplified]

interpretation mstore: word_loop mstore256_asm "''mstore_loop''" "take 7 (drop 3 mstore256_asm)" "drop 11 mstore256_asm"
  T1 T2 ZERO T0 "[A1]" "insert T0 saved" "\<lambda>ws c. ws ! 0" "\<lambda>ws c. 0"
  by (unfold_locales, simp add: after_label_def mstore256_asm_def, simp, rule turnI, simp add: asm_simps mstore_code,
    simp add: asm_simps turn_defs)

lemmas mload_code = arg_cong[OF mload256_asm_def, of "\<lambda>cs. take 7 (drop 3 cs)", simplified]

interpretation mload: word_loop mload256_asm "''mload_loop''" "take 7 (drop 3 mload256_asm)" "drop 11 mload256_asm"
  T1 T2 ZERO A0 "[T0]" "insert T0 saved" "\<lambda>ws c. ws ! 0" "\<lambda>ws c. 0"
  by (unfold_locales, simp add: after_label_def mload256_asm_def, simp, rule turnI, simp add: asm_simps mload_code,
    simp add: asm_simps turn_defs)

lemmas shr_clear_code = arg_cong[OF shr256_asm_def, of "\<lambda>cs. take 5 (drop 55 cs)", simplified]

interpretation shr_clear: word_loop shr256_asm "''shr_zero_loop''" "take 5 (drop 55 shr256_asm)" "drop 61 shr256_asm"
  T0 T1 ZERO A0 "[]" "insert T6 saved" "\<lambda>ws c. 0" "\<lambda>ws c. 0"
  by (unfold_locales, simp add: after_label_def shr256_asm_def, simp, rule turnI, simp add: asm_simps shr_clear_code,
    simp add: asm_simps turn_defs)

lemmas shl_clear_code = arg_cong[OF shl256_asm_def, of "\<lambda>cs. take 5 (drop 49 cs)", simplified]

interpretation shl_clear: word_loop shl256_asm "''shl_zero_loop''" "take 5 (drop 49 shl256_asm)" "drop 55 shl256_asm"
  T0 T1 ZERO A0 "[]" "insert T6 saved" "\<lambda>ws c. 0" "\<lambda>ws c. 0"
  by (unfold_locales, simp add: after_label_def shl256_asm_def, simp, rule turnI, simp add: asm_simps shl_clear_code,
    simp add: asm_simps turn_defs)

lemmas mul_clear_code = arg_cong[OF mul256_asm_def, of "\<lambda>cs. take 5 (drop 20 cs)", simplified]

interpretation mul_clear: word_loop mul256_asm "''mul_clear_complex''" "take 5 (drop 20 mul256_asm)" "drop 26 mul256_asm"
  T0 T1 ZERO A1 "[]" "saved" "\<lambda>ws c. 0" "\<lambda>ws c. 0"
  by (unfold_locales, simp add: after_label_def mul256_asm_def, simp, rule turnI, simp add: asm_simps mul_clear_code,
    simp add: asm_simps turn_defs)

lemmas mul_prepare_code = arg_cong[OF mul256_asm_def, of "\<lambda>cs. take 5 (drop 43 cs)", simplified]

interpretation mul_prepare: word_loop mul256_asm "''mul_clear_simple''" "take 5 (drop 43 mul256_asm)" "drop 49 mul256_asm"
  T0 T1 ZERO A1 "[]" "{T2, T3} \<union> saved" "\<lambda>ws c. 0" "\<lambda>ws c. 0"
  by (unfold_locales, simp add: after_label_def mul256_asm_def, simp, rule turnI, simp add: asm_simps mul_prepare_code,
    simp add: asm_simps turn_defs)

lemmas div_prepare_code = arg_cong[OF div256_asm_def, of "\<lambda>cs. take 5 (drop 66 cs)", simplified]

interpretation div_prepare: word_loop div256_asm "''div_clear_result''" "take 5 (drop 66 div256_asm)" "drop 72 div256_asm"
  T0 T1 ZERO A1 "[]" "insert T2 saved" "\<lambda>ws c. 0" "\<lambda>ws c. 0"
  by (unfold_locales, simp add: after_label_def div256_asm_def, simp, rule turnI, simp add: asm_simps div_prepare_code,
    simp add: asm_simps turn_defs)

lemmas div_clear_code = arg_cong[OF div256_asm_def, of "\<lambda>cs. take 5 (drop 77 cs)", simplified]

interpretation div_clear: word_loop div256_asm "''div_zero_loop''" "take 5 (drop 77 div256_asm)" "drop 83 div256_asm"
  T0 T1 ZERO A1 "[]" "saved" "\<lambda>ws c. 0" "\<lambda>ws c. 0"
  by (unfold_locales, simp add: after_label_def div256_asm_def, simp, rule turnI, simp add: asm_simps div_clear_code,
    simp add: asm_simps turn_defs)

text \<open>The comparisons: from the top word down, or up until a word differs.\<close>

lemma idx_down: "k < 8 \<Longrightarrow> 0 \<le> sint (6 - word_of_nat k :: u32) \<longleftrightarrow> k < 7"
proof -
  assume k: "k < 8"
  show ?thesis
  proof (cases "k < 7")
    case True
    then have "(6 - word_of_nat k :: u32) = word_of_nat (6 - k)" by (simp add: of_nat_diff)
    moreover have "sint (word_of_nat (6 - k) :: u32) = int (6 - k)" by (rule idx_sint) simp
    ultimately have "sint (6 - word_of_nat k :: u32) = int (6 - k)" by metis
    with True show ?thesis by simp
  next
    case False
    with k have "k = 7" by simp
    then show ?thesis by simp
  qed
qed

lemma idx_up': "k < 8 \<Longrightarrow> sint (word_of_nat k + 1 :: u32) < 8 \<longleftrightarrow> k < 7"
  using idx_up[of k] by (simp add: add.commute)

lemmas lt_code =
  arg_cong[OF lt256_asm_def, of "\<lambda>cs. take 5 (drop 2 cs)", simplified]
  arg_cong[OF lt256_asm_def, of "\<lambda>cs. take 1 (drop 9 cs)", simplified]

interpretation lt: word_scan lt256_asm "''lt_compare_loop''" "take 5 (drop 2 lt256_asm)"
  "take 1 (drop 9 lt256_asm)" "drop 11 lt256_asm" T4 ZERO T2 T3 BGE
  "[(BLTU, False, ''lt_true''), (BLTU, True, ''lt_false'')]" "\<lambda>k. 7 - k" saved
  by (unfold_locales, simp add: after_label_def lt256_asm_def, simp, rule turnI,
    simp add: asm_simps lt_code, simp add: asm_simps turn_defs, simp, rule turnI,
    simp add: asm_simps lt_code, simp add: asm_simps turn_defs of_nat_diff idx_down idx_up')

lemmas gt_code =
  arg_cong[OF gt256_asm_def, of "\<lambda>cs. take 5 (drop 2 cs)", simplified]
  arg_cong[OF gt256_asm_def, of "\<lambda>cs. take 1 (drop 9 cs)", simplified]

interpretation gt: word_scan gt256_asm "''gt_compare_loop''" "take 5 (drop 2 gt256_asm)"
  "take 1 (drop 9 gt256_asm)" "drop 11 gt256_asm" T4 ZERO T2 T3 BGE
  "[(BLTU, True, ''gt_true''), (BLTU, False, ''gt_false'')]" "\<lambda>k. 7 - k" saved
  by (unfold_locales, simp add: after_label_def gt256_asm_def, simp, rule turnI,
    simp add: asm_simps gt_code, simp add: asm_simps turn_defs, simp, rule turnI,
    simp add: asm_simps gt_code, simp add: asm_simps turn_defs of_nat_diff idx_down idx_up')

lemmas slt_code =
  arg_cong[OF slt256_asm_def, of "\<lambda>cs. take 5 (drop 7 cs)", simplified]
  arg_cong[OF slt256_asm_def, of "\<lambda>cs. take 1 (drop 14 cs)", simplified]

interpretation slt: word_scan slt256_asm "''slt_compare_loop''" "take 5 (drop 7 slt256_asm)"
  "take 1 (drop 14 slt256_asm)" "drop 16 slt256_asm" T4 ZERO T2 T3 BGE
  "[(BLTU, False, ''slt_true''), (BLTU, True, ''slt_false'')]" "\<lambda>k. 7 - k" saved
  by (unfold_locales, simp add: after_label_def slt256_asm_def, simp, rule turnI,
    simp add: asm_simps slt_code, simp add: asm_simps turn_defs, simp, rule turnI,
    simp add: asm_simps slt_code, simp add: asm_simps turn_defs of_nat_diff idx_down idx_up')

lemmas eqw_code =
  arg_cong[OF eq256_asm_def, of "\<lambda>cs. take 5 (drop 2 cs)", simplified]
  arg_cong[OF eq256_asm_def, of "\<lambda>cs. take 2 (drop 8 cs)", simplified]

interpretation eqw: word_scan eq256_asm "''eq_compare_loop''" "take 5 (drop 2 eq256_asm)"
  "take 2 (drop 8 eq256_asm)" "drop 11 eq256_asm" T0 T1 T4 T5 BLT
  "[(BNE, False, ''eq_false'')]" "\<lambda>k. k" saved
  by (unfold_locales, simp add: after_label_def eq256_asm_def, simp, rule turnI,
    simp add: asm_simps eqw_code, simp add: asm_simps turn_defs, simp, rule turnI,
    simp add: asm_simps eqw_code, simp add: asm_simps turn_defs of_nat_diff idx_down idx_up')

end
