(* ===== verification/LibWords.thy ===== *)
theory LibWords
  imports LibLoops
begin

text \<open>
  256-bit arithmetic by 32-bit words, least significant first: the bitwise operations word by word,
  addition and subtraction with a carry from word to word, and the order decided at the highest
  word that differs. These relate what the loops of the library compute to operations on \<open>u256\<close>.
\<close>

unbundle bit_operations_syntax

section \<open>Words of a value\<close>

lemma word_at_bitwise:
  "word_at i (x AND y) = word_at i x AND word_at i y"
  "word_at i (x OR y) = word_at i x OR word_at i y"
  "word_at i (x XOR y) = word_at i x XOR word_at i y"
  by (simp_all add: word_at_def bit_eq_iff bit_simps)

lemma word_at_not: "i < 8 \<Longrightarrow> word_at i (NOT x) = word_at i x XOR - 1"
  by (rule bit_word_eqI) (auto simp: word_at_def bit_simps)

lemma word_at_0 [simp]: "word_at i 0 = 0"
  by (simp add: word_at_def)

lemma word_at_1: "word_at i 1 = (if i = 0 then 1 else 0)"
  by (rule bit_word_eqI) (auto simp: word_at_def bit_simps)

lemma unat_u256_less: "unat (v :: u256) < 2 ^ 256"
proof -
  have "unat v < 2 ^ LENGTH(256)" by (rule unsigned_less)
  then show ?thesis by simp
qed

lemma unat_word_at: "unat (word_at i v) = unat v div (2 ^ 32) ^ i mod 2 ^ 32"
proof -
  have "take_bit 256 (unat v) = unat v" using unat_u256_less[of v] by (simp only: take_bit_nat_eq_self)
  then have "unat (word_at i v) = take_bit 32 (drop_bit (32 * i) (unat v))"
    by (simp add: word_at_def unsigned_ucast_eq unsigned_drop_bit_eq)
  then show ?thesis by (simp add: take_bit_eq_mod drop_bit_eq_div power_mult)
qed

lemma word_of_sum:
  assumes "j < 8"
  shows "(n mod 2 ^ 256) div (2 ^ 32) ^ j mod 2 ^ 32 = n div (2 ^ 32) ^ j mod (2 ^ 32 :: nat)"
proof -
  have "take_bit 32 (drop_bit (32 * j) (take_bit 256 n)) = take_bit 32 (drop_bit (32 * j) n)"
    using assms by (auto simp: bit_eq_iff bit_simps)
  then show ?thesis by (simp add: take_bit_eq_mod drop_bit_eq_div power_mult)
qed

section \<open>Addition\<close>

lemma sltu_unat: "unat (sltu a b) = (if unat a < unat b then 1 else 0)"
  by (simp add: sltu_def word_less_nat_alt)

lemma carry_unat:
  assumes "unat c \<le> 1"
  shows "unat (carry a b c) = (unat a + unat b + unat c) div 2 ^ 32"
    and "unat (a + b + c) = (unat a + unat b + unat c) mod 2 ^ 32"
proof -
  note a = unat_u32_less[of a] and b = unat_u32_less[of b]
  show "unat (a + b + c) = (unat a + unat b + unat c) mod 2 ^ 32"
    by (simp add: unat_word_ariths mod_simps)
  have s: "unat (a + b) = (if unat a + unat b < 2 ^ 32 then unat a + unat b else unat a + unat b - 2 ^ 32)"
    using a b by (simp add: unat_word_ariths mod_if)
  have t: "unat (a + b + c) = (if unat (a + b) + unat c < 2 ^ 32 then unat (a + b) + unat c
      else unat (a + b) + unat c - 2 ^ 32)"
    using assms unat_u32_less[of "a + b"] by (simp add: unat_word_ariths mod_if)
  show "unat (carry a b c) = (unat a + unat b + unat c) div 2 ^ 32"
  proof (cases "unat a + unat b < 2 ^ 32")
    case True
    then have u: "unat (a + b) = unat a + unat b" using s by simp
    show ?thesis
    proof (cases "unat a + unat b + unat c < 2 ^ 32")
      case True
      with u t show ?thesis by (simp add: carry_def sltu_def word_less_nat_alt)
    next
      case False
      with u t assms True have "unat (a + b + c) < unat (a + b)" "\<not> unat (a + b) < unat a"
        "unat a + unat b + unat c = 2 ^ 32" by auto
      then show ?thesis by (simp add: carry_def sltu_def word_less_nat_alt)
    qed
  next
    case False
    with s t a b assms have "unat (a + b) < unat a" "\<not> unat (a + b + c) < unat (a + b)"
      "(unat a + unat b + unat c) div 2 ^ 32 = 1" by (auto simp: div_if)
    then show ?thesis by (simp add: carry_def sltu_def word_less_nat_alt)
  qed
qed

lemma low_sum: "0 < (b :: nat) \<Longrightarrow> (x mod b + y mod b) div b \<le> 1"
proof -
  assume "0 < b"
  then have "x mod b + y mod b < 2 * b"
    using mod_less_divisor[of b x] mod_less_divisor[of b y] by linarith
  then show ?thesis using less_mult_imp_div_less by fastforce
qed

lemma add_carries:
  fixes x y :: u256
  shows "unat (accs (\<lambda>ws c. carry (ws ! 0) (ws ! 1) c) (\<lambda>j. [word_at j x, word_at j y]) 0 j) =
    (unat x mod (2 ^ 32) ^ j + unat y mod (2 ^ 32) ^ j) div (2 ^ 32) ^ j"
proof (induction j)
  case 0
  show ?case by simp
next
  case (Suc j)
  let ?B = "2 ^ 32 :: nat"
  let ?lx = "unat x mod ?B ^ j" and ?ly = "unat y mod ?B ^ j"
  let ?xj = "unat x div ?B ^ j mod ?B" and ?yj = "unat y div ?B ^ j mod ?B"
  let ?c = "accs (\<lambda>ws c. carry (ws ! 0) (ws ! 1) c) (\<lambda>j. [word_at j x, word_at j y]) 0 j"
  have pos: "0 < ?B ^ j" by simp
  have small: "unat ?c \<le> 1" unfolding Suc.IH using pos by (rule low_sum)
  have split: "v mod ?B ^ Suc j = ?B ^ j * (v div ?B ^ j mod ?B) + v mod ?B ^ j" for v :: nat
    using mod_mult2_eq[of v "?B ^ j" ?B] by (simp add: mult.commute)
  have "(unat x mod ?B ^ Suc j + unat y mod ?B ^ Suc j) div ?B ^ Suc j =
      ((?lx + ?ly) + ?B ^ j * (?xj + ?yj)) div (?B ^ j * ?B)"
    unfolding split by (simp add: algebra_simps)
  also have "\<dots> = ((?lx + ?ly) + ?B ^ j * (?xj + ?yj)) div ?B ^ j div ?B"
    by (rule div_mult2_eq)
  also have "((?lx + ?ly) + ?B ^ j * (?xj + ?yj)) div ?B ^ j = (?xj + ?yj) + (?lx + ?ly) div ?B ^ j"
    by (subst div_mult_self2) simp_all
  finally show ?case
    using carry_unat(1)[OF small, of "word_at j x" "word_at j y"] Suc.IH
    by (simp add: unat_word_at)
qed

lemma mod_three: "(a mod m + b mod m + c) mod m = (a + b + c) mod (m :: nat)"
  by (metis mod_add_eq mod_add_left_eq)

lemma add_words:
  fixes x y :: u256
  assumes "j < 8"
  shows "word_at j (x + y) = word_at j x + word_at j y +
    accs (\<lambda>ws c. carry (ws ! 0) (ws ! 1) c) (\<lambda>j. [word_at j x, word_at j y]) 0 j"
    (is "_ = _ + _ + ?c")
proof -
  let ?B = "2 ^ 32 :: nat"
  have pos: "0 < ?B ^ j" by simp
  have small: "unat ?c \<le> 1" unfolding add_carries using pos by (rule low_sum)
  have "unat (word_at j (x + y)) = (unat x + unat y) div ?B ^ j mod ?B"
    using word_of_sum[OF assms] by (simp only: unat_word_at) (simp add: unat_word_ariths)
  also have "\<dots> = (unat x div ?B ^ j + unat y div ?B ^ j + unat ?c) mod ?B"
    unfolding add_carries by (subst div_add1_eq) (rule refl)
  also have "\<dots> = unat (word_at j x + word_at j y + ?c)"
    unfolding carry_unat(2)[OF small] unat_word_at by (rule mod_three[symmetric])
  finally show ?thesis by (simp add: word_unat_eq_iff)
qed

section \<open>Subtraction\<close>

lemma borrow_carry:
  assumes "unat c \<le> 1" shows "borrow a b c = carry (a - b - c) b c"
proof -
  note a = unat_u32_less[of a] and b = unat_u32_less[of b]
  let ?z = "a - b - c"
  have sum: "?z + b + c = a" by simp
  have le: "unat ?z + unat b + unat c = unat a + 2 ^ 32 * unat (carry ?z b c)"
    using carry_unat(1)[OF assms, of ?z b] carry_unat(2)[OF assms, of ?z b] unfolding sum
    by (metis div_mult_mod_eq add.commute mult.commute)
  have u: "unat (a - b) = (if unat b \<le> unat a then unat a - unat b else 2 ^ 32 + unat a - unat b)"
    using b by (auto simp: unat_sub_if')
  have bo: "unat (borrow a b c) = (if unat a < unat b + unat c then 1 else 0)"
  proof (cases "unat a < unat b")
    case True
    then have "unat (a - b) = 2 ^ 32 + unat a - unat b" using u by simp
    then have "\<not> unat (a - b) < unat c" using True a b assms by simp
    with True show ?thesis by (simp add: borrow_def sltu_def word_less_nat_alt)
  next
    case False
    then have "unat (a - b) = unat a - unat b" using u by simp
    with False show ?thesis by (auto simp: borrow_def sltu_def word_less_nat_alt)
  qed
  have "unat (carry ?z b c) = (if unat a < unat b + unat c then 1 else 0)"
  proof (cases "unat (carry ?z b c)")
    case 0
    with le show ?thesis by simp
  next
    case (Suc n)
    have "unat ?z + unat b + unat c < 2 * 2 ^ 32"
      using unat_u32_less[of ?z] b assms by simp
    with Suc le have "unat (carry ?z b c) = 1" by simp
    with le unat_u32_less[of ?z] show ?thesis by simp
  qed
  with bo show ?thesis by (simp add: word_unat_eq_iff)
qed

lemma sub_borrows:
  fixes x y :: u256
  assumes "j \<le> 8"
  shows "accs (\<lambda>ws c. borrow (ws ! 0) (ws ! 1) c) (\<lambda>j. [word_at j x, word_at j y]) 0 j =
    accs (\<lambda>ws c. carry (ws ! 0) (ws ! 1) c) (\<lambda>j. [word_at j (x - y), word_at j y]) 0 j"
  using assms
proof (induction j)
  case 0
  show ?case by simp
next
  case (Suc j)
  let ?c = "accs (\<lambda>ws c. carry (ws ! 0) (ws ! 1) c) (\<lambda>j. [word_at j (x - y), word_at j y]) 0 j"
  have pos: "0 < ((2::nat) ^ 32) ^ j" by simp
  have small: "unat ?c \<le> 1" unfolding add_carries using pos by (rule low_sum)
  have "word_at j x = word_at j (x - y) + word_at j y + ?c"
    using add_words[of j "x - y" y] Suc.prems by simp
  then have "word_at j x - word_at j y - ?c = word_at j (x - y)" by simp
  with borrow_carry[OF small, of "word_at j x" "word_at j y"] Suc show ?case by simp
qed

lemma sub_words:
  fixes x y :: u256
  assumes "j < 8"
  shows "word_at j (x - y) = word_at j x - word_at j y -
    accs (\<lambda>ws c. borrow (ws ! 0) (ws ! 1) c) (\<lambda>j. [word_at j x, word_at j y]) 0 j"
  using add_words[OF assms, of "x - y" y] sub_borrows[of j x y] assms by simp

section \<open>Order\<close>

lemma top_word:
  "unat (v :: u256) div (2 ^ 32) ^ j = unat v div (2 ^ 32) ^ Suc j * 2 ^ 32 + unat (word_at j v)"
proof -
  have "unat v div (2 ^ 32) ^ Suc j = unat v div (2 ^ 32) ^ j div 2 ^ 32"
    by (simp only: power_Suc2 div_mult2_eq)
  then show ?thesis unfolding unat_word_at by (simp only: div_mult_mod_eq)
qed

lemma order_words:
  fixes x y :: u256
  assumes "unat x div (2 ^ 32) ^ n = unat y div (2 ^ 32) ^ n" and "n + k = 8"
    and "\<And>k. d k = (if word_at (7 - k) x < word_at (7 - k) y then Some a
      else if word_at (7 - k) y < word_at (7 - k) x then Some b else None)"
  shows "verdict d n k = (if x < y then Some a else if y < x then Some b else None)"
  using assms(1,2)
proof (induction n arbitrary: k)
  case 0
  then show ?case by (simp add: word_less_nat_alt)
next
  case (Suc n)
  have n: "7 - k = n" using Suc.prems(2) by simp
  let ?x = "unat x div (2 ^ 32) ^ n" and ?y = "unat y div (2 ^ 32) ^ n"
  have diff: "?x < ?y \<longleftrightarrow> word_at n x < word_at n y" "?y < ?x \<longleftrightarrow> word_at n y < word_at n x"
    unfolding top_word[of x n] top_word[of y n] Suc.prems(1) by (simp_all add: word_less_nat_alt)
  have lt: "x < y" if "?x < ?y"
    using that div_le_mono[of "unat y" "unat x"] by (metis not_le word_less_nat_alt)
  have gt: "y < x" if "?y < ?x"
    using that div_le_mono[of "unat x" "unat y"] by (metis not_le word_less_nat_alt)
  have next_word: "d k = (if ?x < ?y then Some a else if ?y < ?x then Some b else None)"
    unfolding assms(3) n diff ..
  show ?case
  proof (cases "?x = ?y")
    case True
    with Suc.IH[OF True, of "Suc k"] Suc.prems(2) next_word show ?thesis by simp
  next
    case False
    with next_word lt gt less_not_sym[of x y] show ?thesis by (auto simp: nat_neq_iff)
  qed
qed

lemma verdict_words:
  fixes x y :: u256
  assumes "\<And>k. d k = (if word_at (7 - k) x < word_at (7 - k) y then Some a
      else if word_at (7 - k) y < word_at (7 - k) x then Some b else None)"
  shows "verdict d 8 0 = (if x < y then Some a else if y < x then Some b else None)"
proof (rule order_words[OF _ _ assms])
  have "unat v div (2 ^ 32) ^ 8 = 0" for v :: u256 using unat_u256_less[of v] by simp
  then show "unat x div (2 ^ 32) ^ 8 = unat y div (2 ^ 32) ^ 8" by simp
qed simp

lemma verdict_None: "verdict d n k = None \<longleftrightarrow> (\<forall>i<n. d (k + i) = None)"
proof (induction n arbitrary: k)
  case (Suc n)
  have "(\<forall>i<Suc n. d (k + i) = None) \<longleftrightarrow> d k = None \<and> (\<forall>i<n. d (Suc k + i) = None)"
    by (simp add: All_less_Suc2)
  with Suc show ?case by (auto split: option.split)
qed simp

lemma verdict_label: "(\<And>k. d k = None \<or> d k = Some t) \<Longrightarrow> verdict d n k = None \<or> verdict d n k = Some t"
proof (induction n arbitrary: k)
  case (Suc n)
  then show ?case by (cases "d k") (simp, metis option.case(2) verdict.simps(2))
qed simp

lemma verdict_equal:
  fixes x y :: u256
  assumes "\<And>k. d k = (if word_at k x \<noteq> word_at k y then Some a else None)"
  shows "verdict d 8 0 = (if x = y then None else Some a)"
proof -
  have "verdict d 8 0 = None \<or> verdict d 8 0 = Some a"
    by (rule verdict_label) (simp add: assms)
  moreover have "verdict d 8 0 = None \<longleftrightarrow> x = y"
    using words_determine[of x y] by (auto simp: verdict_None assms)
  ultimately show ?thesis by auto
qed

text \<open>The sign of a value is the sign of its top word.\<close>

lemma sign_word: "bit (word_at 7 (v :: u256)) 31 \<longleftrightarrow> bit v 255"
  by (simp add: word_at_def bit_simps)

lemma sint_sign: "sint (v :: u256) = uint v - (if bit v 255 then 2 ^ 256 else 0)"
proof -
  have "take_bit 256 (uint v) = uint v"
    using uint_bounded[of v] uint_nonnegative[of v] by (simp add: take_bit_int_eq_self)
  then show ?thesis
    by (simp add: sint_uint signed_take_bit_eq_take_bit_minus bit_unsigned_iff)
qed

end
