(* ===== verification/LibRoutines.thy ===== *)
theory LibRoutines
  imports LibWords
begin

text \<open>
  The routines of the library as functions on 256-bit values: what each leaves in its result slot,
  when it is called with the addresses of its operands in \<open>a0\<close> and \<open>a1\<close>. \<open>computes\<close> is the
  contract of a call: the routine returns to its caller, the slot at \<open>d\<close> holds the value \<open>v\<close>, all
  other words of memory are as before, \<open>pop\<close> bytes are popped, and the registers that the emitted
  code relies on across calls are unchanged.
\<close>

unbundle bit_operations_syntax

definition computes :: "u32 \<Rightarrow> string \<Rightarrow> mach \<Rightarrow> u32 \<Rightarrow> u256 \<Rightarrow> u32 \<Rightarrow> bool" where
  "computes link f m d v pop \<longleftrightarrow>
     (\<exists>m'. lib_callee link f m = Some m' \<and> holds (mem m') d v \<and>
        get_reg m' SP = get_reg m SP + pop \<and> get_reg m' RA = link \<and>
        (\<forall>a. outside d a \<longrightarrow> rd32 (mem m') a = rd32 (mem m) a) \<and> same_regs {S1, S2, S3} m m')"

section \<open>Routines that are one storing loop\<close>

lemma holds_at: "holds mm a v \<Longrightarrow> i < 8 \<Longrightarrow> rd32 mm (a + word_of_nat (4 * i)) = word_at i v"
  by (simp add: holds_def)

lemma accs_cong: "(\<And>i. i < j \<Longrightarrow> ws i = ws' i) \<Longrightarrow> accs g ws c j = accs g ws' c j"
  by (induction j) simp_all

text \<open>
  From the entry (\<open>m1\<close> is the machine at the loop) to the return: if the words the loop computes
  are those of \<open>v\<close>, the routine computes \<open>v\<close>.
\<close>

context word_loop
begin

lemma routine:
  assumes entry: "lib_callee link nm m = lib_run P (after_label P l) m1" "get_reg m1 idx = 0" "mem m1 = mem m"
    and leave: "\<And>m'. lib_run P exit m' = Some (set_reg SP (get_reg m' SP + pop) m')"
    and vals: "\<And>r. r \<in> set srcs \<Longrightarrow> holds (mem m) (get_reg m1 r) (val r)"
    and sep: "\<And>r. r \<in> set srcs \<Longrightarrow> get_reg m1 r = get_reg m1 dst \<or> apart (get_reg m1 r) (get_reg m1 dst)"
    and words: "\<And>j. j < 8 \<Longrightarrow> f (map (\<lambda>r. word_at j (val r)) srcs)
        (accs g (\<lambda>i. map (\<lambda>r. word_at i (val r)) srcs) (get_reg m1 acc) j) = word_at j v"
    and regs: "{SP, S1, S2, S3, RA} \<subseteq> kept" "same_regs {SP, S1, S2, S3} m m1" "get_reg m1 RA = link"
  shows "computes link nm m (get_reg m1 dst) v pop"
proof -
  have ws: "words_at srcs i m1 = map (\<lambda>r. word_at i (val r)) srcs" if "i < 8" for i
    using vals that entry(3) by (simp add: words_at_def holds_def)
  obtain m2 where m2: "lib_run P (after_label P l) m1 = lib_run P exit m2"
    "\<And>j. j < 8 \<Longrightarrow> rd32 (mem m2) (get_reg m1 dst + word_of_nat (4 * j)) =
       f (words_at srcs j m1) (accs g (\<lambda>i. words_at srcs i m1) (get_reg m1 acc) j)"
    "\<And>a. outside (get_reg m1 dst) a \<Longrightarrow> rd32 (mem m2) a = rd32 (mem m1) a" "same_regs kept m1 m2"
    using loop[OF entry(2) sep] by blast
  have "f (words_at srcs j m1) (accs g (\<lambda>i. words_at srcs i m1) (get_reg m1 acc) j) = word_at j v" if "j < 8" for j
    using words[OF that] accs_cong[of j "\<lambda>i. words_at srcs i m1" "\<lambda>i. map (\<lambda>r. word_at i (val r)) srcs"] ws that
    by simp
  with m2(2) have "holds (mem m2) (get_reg m1 dst) v" by (simp add: holds_def)
  moreover have "get_reg m2 r = get_reg m1 r" if "r \<in> {SP, S1, S2, S3, RA}" for r
    using m2(4) regs(1) that by (auto simp: same_regs_def)
  ultimately show ?thesis
    using entry(1,3) m2(1,3) leave[of m2] regs(2,3)
    by (auto simp: computes_def same_regs_def mach_simps)
qed

end

lemma bitwise_words:
  "accs (\<lambda>ws c. 0) ws 0 j = 0"
  by (induction j) simp_all

lemma lib_call: "map_of lib_routines nm = Some P \<Longrightarrow> P = pre @ rest \<Longrightarrow>
  lib_callee link nm m = lib_run P (pre @ rest) (set_reg RA link m)"
  by (simp add: lib_callee_def)

lemmas call_simps = lib_callee_def lib_routines_def
text \<open>The two operands of a binary routine: a value in each slot, the slots disjoint.\<close>

definition operands :: "mach \<Rightarrow> u256 \<Rightarrow> u256 \<Rightarrow> bool" where
  "operands m x y \<longleftrightarrow> holds (mem m) (get_reg m A0) x \<and> holds (mem m) (get_reg m A1) y \<and>
     apart (get_reg m A0) (get_reg m A1)"

lemma add256_asm_parts:
  "add256_asm = [Li T6 0, Li T0 0, Label ''add_loop''] @ after_label add256_asm ''add_loop''"
  "drop 18 add256_asm = [Addi SP SP 32, Ret]"
  by (simp_all add: add256_asm_def after_label_def)

lemma add256_computes:
  assumes "operands m x y"
  shows "computes link ''add256_stack_scratch'' m (get_reg m A1) (x + y) 32"
proof -
  let ?m = "set_reg T0 0 (set_reg T6 0 (set_reg RA link m))"
  have "computes link ''add256_stack_scratch'' m (get_reg ?m A1) (x + y) 32"
  proof (rule add.routine[where val = "\<lambda>r. if r = A0 then x else y"])
    show "lib_callee link ''add256_stack_scratch'' m = lib_run add256_asm (after_label add256_asm ''add_loop'') ?m"
      by (subst lib_call[OF _ add256_asm_parts(1)]) (simp_all add: lib_routines_def asm_simps)
  qed (use assms in \<open>auto simp: operands_def asm_simps add256_asm_parts(2) same_regs_def add_words\<close>)
  then show ?thesis by (simp add: mach_simps)
qed

lemma sub256_asm_parts:
  "sub256_asm = [Li T6 0, Li T0 0, Label ''sub_loop''] @ after_label sub256_asm ''sub_loop''"
  "drop 18 sub256_asm = [Addi SP SP 32, Ret]"
  by (simp_all add: sub256_asm_def after_label_def)

lemma sub256_computes:
  assumes "operands m x y"
  shows "computes link ''sub256_stack_scratch'' m (get_reg m A1) (x - y) 32"
proof -
  let ?m = "set_reg T0 0 (set_reg T6 0 (set_reg RA link m))"
  have "computes link ''sub256_stack_scratch'' m (get_reg ?m A1) (x - y) 32"
  proof (rule sub.routine[where val = "\<lambda>r. if r = A0 then x else y"])
    show "lib_callee link ''sub256_stack_scratch'' m = lib_run sub256_asm (after_label sub256_asm ''sub_loop'') ?m"
      by (subst lib_call[OF _ sub256_asm_parts(1)]) (simp_all add: lib_routines_def asm_simps)
  qed (use assms in \<open>auto simp: operands_def asm_simps sub256_asm_parts(2) same_regs_def sub_words\<close>)
  then show ?thesis by (simp add: mach_simps)
qed

lemma and256_asm_parts:
  "and256_asm = [Li T0 0, Label ''and_loop''] @ after_label and256_asm ''and_loop''"
  "drop 13 and256_asm = [Addi SP SP 32, Ret]"
  by (simp_all add: and256_asm_def after_label_def)

lemma and256_computes:
  assumes "operands m x y"
  shows "computes link ''and256_stack_scratch'' m (get_reg m A1) (x AND y) 32"
proof -
  let ?m = "set_reg T0 0 (set_reg RA link m)"
  have "computes link ''and256_stack_scratch'' m (get_reg ?m A1) (x AND y) 32"
  proof (rule andw.routine[where val = "\<lambda>r. if r = A0 then x else y"])
    show "lib_callee link ''and256_stack_scratch'' m = lib_run and256_asm (after_label and256_asm ''and_loop'') ?m"
      by (subst lib_call[OF _ and256_asm_parts(1)]) (simp_all add: lib_routines_def asm_simps)
  qed (use assms in \<open>auto simp: operands_def asm_simps and256_asm_parts(2) same_regs_def word_at_bitwise bitwise_words\<close>)
  then show ?thesis by (simp add: mach_simps)
qed

lemma or256_asm_parts:
  "or256_asm = [Li T0 0, Label ''or_loop''] @ after_label or256_asm ''or_loop''"
  "drop 13 or256_asm = [Addi SP SP 32, Ret]"
  by (simp_all add: or256_asm_def after_label_def)

lemma or256_computes:
  assumes "operands m x y"
  shows "computes link ''or256_stack_scratch'' m (get_reg m A1) (x OR y) 32"
proof -
  let ?m = "set_reg T0 0 (set_reg RA link m)"
  have "computes link ''or256_stack_scratch'' m (get_reg ?m A1) (x OR y) 32"
  proof (rule orw.routine[where val = "\<lambda>r. if r = A0 then x else y"])
    show "lib_callee link ''or256_stack_scratch'' m = lib_run or256_asm (after_label or256_asm ''or_loop'') ?m"
      by (subst lib_call[OF _ or256_asm_parts(1)]) (simp_all add: lib_routines_def asm_simps)
  qed (use assms in \<open>auto simp: operands_def asm_simps or256_asm_parts(2) same_regs_def word_at_bitwise bitwise_words\<close>)
  then show ?thesis by (simp add: mach_simps)
qed

lemma xor256_asm_parts:
  "xor256_asm = [Li T0 0, Label ''xor_loop''] @ after_label xor256_asm ''xor_loop''"
  "drop 13 xor256_asm = [Addi SP SP 32, Ret]"
  by (simp_all add: xor256_asm_def after_label_def)

lemma xor256_computes:
  assumes "operands m x y"
  shows "computes link ''xor256_stack_scratch'' m (get_reg m A1) (x XOR y) 32"
proof -
  let ?m = "set_reg T0 0 (set_reg RA link m)"
  have "computes link ''xor256_stack_scratch'' m (get_reg ?m A1) (x XOR y) 32"
  proof (rule xorw.routine[where val = "\<lambda>r. if r = A0 then x else y"])
    show "lib_callee link ''xor256_stack_scratch'' m = lib_run xor256_asm (after_label xor256_asm ''xor_loop'') ?m"
      by (subst lib_call[OF _ xor256_asm_parts(1)]) (simp_all add: lib_routines_def asm_simps)
  qed (use assms in \<open>auto simp: operands_def asm_simps xor256_asm_parts(2) same_regs_def word_at_bitwise bitwise_words\<close>)
  then show ?thesis by (simp add: mach_simps)
qed

lemma not256_asm_parts:
  "not256_asm = [Li T0 0, Label ''not_loop''] @ after_label not256_asm ''not_loop''"
  "drop 11 not256_asm = [Ret]"
  by (simp_all add: not256_asm_def after_label_def)

lemma same_set [simp]: "set_reg r (get_reg m r) m = m"
  by (simp add: set_reg_def get_reg_def)

lemma not256_computes:
  assumes "holds (mem m) (get_reg m A0) x"
  shows "computes link ''not256_stack_scratch'' m (get_reg m A0) (NOT x) 0"
proof -
  let ?m = "set_reg T0 0 (set_reg RA link m)"
  have "computes link ''not256_stack_scratch'' m (get_reg ?m A0) (NOT x) 0"
  proof (rule notw.routine[where val = "\<lambda>r. x"])
    show "lib_callee link ''not256_stack_scratch'' m = lib_run not256_asm (after_label not256_asm ''not_loop'') ?m"
      by (subst lib_call[OF _ not256_asm_parts(1)]) (simp_all add: lib_routines_def asm_simps)
  qed (use assms in \<open>auto simp: asm_simps not256_asm_parts(2) same_regs_def word_at_not\<close>)
  then show ?thesis by (simp add: mach_simps)
qed

lemma mstore256_asm_parts:
  "mstore256_asm = [Lw T0 0 A0, Li T1 0, Label ''mstore_loop''] @ after_label mstore256_asm ''mstore_loop''"
  "drop 11 mstore256_asm = [Addi SP SP 64, Ret]"
  by (simp_all add: mstore256_asm_def after_label_def)

lemma mstore256_computes:
  assumes "holds (mem m) (get_reg m A1) v"
    and "get_reg m A1 = rd32 (mem m) (get_reg m A0) \<or> apart (get_reg m A1) (rd32 (mem m) (get_reg m A0))"
  shows "computes link ''mstore256_stack_scratch'' m (rd32 (mem m) (get_reg m A0)) v 64"
proof -
  let ?m = "set_reg T1 0 (set_reg T0 (rd32 (mem m) (get_reg m A0)) (set_reg RA link m))"
  have "computes link ''mstore256_stack_scratch'' m (get_reg ?m T0) v 64"
  proof (rule mstore.routine[where val = "\<lambda>r. v"])
    show "lib_callee link ''mstore256_stack_scratch'' m = lib_run mstore256_asm (after_label mstore256_asm ''mstore_loop'') ?m"
      by (subst lib_call[OF _ mstore256_asm_parts(1)]) (simp_all add: lib_routines_def asm_simps)
  qed (use assms in \<open>auto simp: asm_simps mstore256_asm_parts(2) same_regs_def\<close>)
  then show ?thesis by (simp add: mach_simps)
qed

lemma mload256_asm_parts:
  "mload256_asm = [Lw T0 0 A0, Li T1 0, Label ''mload_loop''] @ after_label mload256_asm ''mload_loop''"
  "drop 11 mload256_asm = [Ret]"
  by (simp_all add: mload256_asm_def after_label_def)

lemma mload256_computes:
  assumes "holds (mem m) (rd32 (mem m) (get_reg m A0)) v"
    and "rd32 (mem m) (get_reg m A0) = get_reg m A0 \<or> apart (rd32 (mem m) (get_reg m A0)) (get_reg m A0)"
  shows "computes link ''mload256_stack_scratch'' m (get_reg m A0) v 0"
proof -
  let ?m = "set_reg T1 0 (set_reg T0 (rd32 (mem m) (get_reg m A0)) (set_reg RA link m))"
  have "computes link ''mload256_stack_scratch'' m (get_reg ?m A0) v 0"
  proof (rule mload.routine[where val = "\<lambda>r. v"])
    show "lib_callee link ''mload256_stack_scratch'' m = lib_run mload256_asm (after_label mload256_asm ''mload_loop'') ?m"
      by (subst lib_call[OF _ mload256_asm_parts(1)]) (simp_all add: lib_routines_def asm_simps)
  qed (use assms in \<open>auto simp: asm_simps mload256_asm_parts(2) same_regs_def\<close>)
  then show ?thesis by (simp add: mach_simps)
qed

end
