(* ===== verification/LibCompare.thy ===== *)
theory LibCompare
  imports LibRoutines
begin

text \<open>
  The comparisons of the library: each ends by storing one or zero as a 256-bit value in the slot
  of the second operand (\<open>store_flag\<close>, the lines the four routines share).
\<close>

section \<open>Storing the answer\<close>

definition flag :: "bool \<Rightarrow> u256" where
  "flag b = (if b then 1 else 0)"

definition store_flag :: "asm list" where
  "store_flag =
     [Sw T0 0 A1, Sw ZERO 4 A1, Sw ZERO 8 A1, Sw ZERO 12 A1, Sw ZERO 16 A1, Sw ZERO 20 A1,
      Sw ZERO 24 A1, Sw ZERO 28 A1, Addi SP SP 32, Ret]"

lemma holds_written:
  "holds (bytemem.write_words (map (\<lambda>i. (a + word_of_nat (4 * i), word_at i v)) [0..<8]) mm) a v"
  (is "holds (bytemem.write_words ?ws mm) a v")
proof -
  have "rd32 (bytemem.write_words ?ws mm) (fst (?ws ! i)) = snd (?ws ! i)" if "i < 8" for i
    by (rule bytemem.rd_write_words) (use that far_words[of _ i a] in simp_all)
  then show ?thesis by (simp add: holds_def)
qed

lemma written_outside:
  "outside a b \<Longrightarrow> rd32 (bytemem.write_words (map (\<lambda>i. (a + word_of_nat (4 * i), w i)) [0..<8]) mm) b = rd32 mm b"
  by (rule bytemem.rd_write_words_far) (auto simp: outside_def)

lemma run_store_flag:
  assumes "get_reg m T0 = (if b then 1 else 0)"
  shows "\<exists>m'. lib_run P store_flag m = Some m' \<and> holds (mem m') (get_reg m A1) (flag b) \<and>
    get_reg m' SP = get_reg m SP + 32 \<and> (\<forall>a. outside (get_reg m A1) a \<longrightarrow> rd32 (mem m') a = rd32 (mem m) a) \<and>
    same_regs {S1, S2, S3, RA} m m'"
proof -
  let ?a = "get_reg m A1"
  let ?mm = "bytemem.write_words (map (\<lambda>i. (?a + word_of_nat (4 * i), word_at i (flag b))) [0..<8]) (mem m)"
  have ws: "word_at i (flag b) = (if i = 0 \<and> b then 1 else 0)" for i
    by (simp add: flag_def word_at_1)
  have "lib_run P store_flag m = Some (set_reg SP (get_reg m SP + 32) (m\<lparr>mem := ?mm\<rparr>))"
    unfolding ws using assms by (simp add: store_flag_def asm_simps upt_rec numeral_eq_Suc)
  then show ?thesis
    using holds_written[of ?a "flag b" "mem m"] written_outside[of ?a _ "\<lambda>i. word_at i (flag b)" "mem m"]
    by (intro exI[of _ "set_reg SP (get_reg m SP + 32) (m\<lparr>mem := ?mm\<rparr>)"]) (simp add: same_regs_def mach_simps)
qed
section \<open>Comparisons as scans\<close>

lemma verdict_cong: "(\<And>i. k \<le> i \<Longrightarrow> i < k + n \<Longrightarrow> d i = d' i) \<Longrightarrow> verdict d n k = verdict d' n k"
  by (induction n arbitrary: k) (auto split: option.splits)

context word_scan
begin

text \<open>From the machine \<open>m1\<close> at the loop: every outcome of the scan leads to storing \<open>b\<close>.\<close>

lemma compares:
  assumes entry: "lib_callee link nm m = lib_run P (after_label P l) m1" "get_reg m1 idx = word_of_nat (order 0)"
      "mem m1 = mem m" "same_regs {A0, A1, SP, S1, S2, S3} m m1" "get_reg m1 RA = link"
    and vals: "operands m x y"
    and answer: "\<And>m'. lib_run P (case verdict (\<lambda>k. decide tests (word_at (order k) x) (word_at (order k) y)) 8 0 of
          Some t \<Rightarrow> after_label P t | None \<Rightarrow> exit) m' = lib_run P store_flag (set_reg T0 (if b then 1 else 0) m')"
    and kept: "saved \<subseteq> kept"
  shows "computes link nm m (get_reg m A1) (flag b) 32"
proof -
  have ab: "get_reg m1 A0 = get_reg m A0" "get_reg m1 A1 = get_reg m A1"
    using entry(4) by (simp_all add: same_regs_def)
  have "verdict (\<lambda>k. decide tests (rd32 (mem m1) (get_reg m1 A0 + word_of_nat (4 * order k)))
      (rd32 (mem m1) (get_reg m1 A1 + word_of_nat (4 * order k)))) 8 0 =
    verdict (\<lambda>k. decide tests (word_at (order k) x) (word_at (order k) y)) 8 0"
    using vals order_small by (intro verdict_cong) (simp add: ab entry(3) operands_def holds_def)
  with scan[OF entry(2)] obtain m2 where
    "lib_run P (after_label P l) m1 = lib_run P (case verdict (\<lambda>k. decide tests (word_at (order k) x)
        (word_at (order k) y)) 8 0 of Some t \<Rightarrow> after_label P t | None \<Rightarrow> exit) m2"
      and m2: "mem m2 = mem m1" "same_regs kept m1 m2"
    by auto
  with answer have run: "lib_run P (after_label P l) m1 = lib_run P store_flag (set_reg T0 (if b then 1 else 0) m2)"
    by simp
  let ?m = "set_reg T0 (if b then 1 else 0) m2"
  have regs: "get_reg m2 r = get_reg m1 r" if "r \<in> saved" for r
    using m2(2) kept that by (auto simp: same_regs_def)
  have "get_reg ?m T0 = (if b then 1 else 0)" by (simp add: mach_simps)
  from run_store_flag[OF this, of P] obtain m3 where
    m3: "lib_run P store_flag ?m = Some m3" "holds (mem m3) (get_reg ?m A1) (flag b)"
      "get_reg m3 SP = get_reg ?m SP + 32" "\<And>a. outside (get_reg ?m A1) a \<Longrightarrow> rd32 (mem m3) a = rd32 (mem ?m) a"
      "same_regs {S1, S2, S3, RA} ?m m3"
    by blast
  have "computes link nm m (get_reg ?m A1) (flag b) 32"
    using entry(1,3,4,5) run m2(1) m3 regs[of SP] regs[of S1] regs[of S2] regs[of S3] regs[of RA]
    unfolding computes_def by (intro exI[of _ m3]) (simp add: same_regs_def mach_simps)
  then show ?thesis using regs[of A1] ab by (simp add: mach_simps)
qed

end

text \<open>The two answers of a comparison.\<close>

definition answers :: "asm list \<Rightarrow> string \<Rightarrow> bool \<Rightarrow> bool" where
  "answers P l b \<longleftrightarrow>
     (\<forall>m. lib_run P (after_label P l) m = lib_run P store_flag (set_reg T0 (if b then 1 else 0) m))"

lemma lt_labels:
  "after_label lt256_asm ''lt_true'' = [Li T0 1, Jump ''lt_store_result''] @ drop 15 lt256_asm"
  "after_label lt256_asm ''lt_false'' = [Li T0 0, Label ''lt_store_result''] @ store_flag"
  "after_label lt256_asm ''lt_store_result'' = store_flag"
  by (simp_all add: after_label_def lt256_asm_def store_flag_def)

lemma lt_answers: "answers lt256_asm ''lt_true'' True" "answers lt256_asm ''lt_false'' False"
  by (simp_all add: answers_def lt_labels lib_run_simps)

lemma gt_labels:
  "after_label gt256_asm ''gt_true'' = [Li T0 1, Jump ''gt_store_result''] @ drop 15 gt256_asm"
  "after_label gt256_asm ''gt_false'' = [Li T0 0, Label ''gt_store_result''] @ store_flag"
  "after_label gt256_asm ''gt_store_result'' = store_flag"
  by (simp_all add: after_label_def gt256_asm_def store_flag_def)

lemma gt_answers: "answers gt256_asm ''gt_true'' True" "answers gt256_asm ''gt_false'' False"
  by (simp_all add: answers_def gt_labels lib_run_simps)

lemma slt_labels:
  "after_label slt256_asm ''slt_true'' = [Li T0 1, Jump ''slt_store_result''] @ drop 23 slt256_asm"
  "after_label slt256_asm ''slt_false'' = [Li T0 0, Label ''slt_store_result''] @ store_flag"
  "after_label slt256_asm ''slt_store_result'' = store_flag"
  by (simp_all add: after_label_def slt256_asm_def store_flag_def)

lemma slt_answers: "answers slt256_asm ''slt_true'' True" "answers slt256_asm ''slt_false'' False"
  by (simp_all add: answers_def slt_labels lib_run_simps)

lemma lt256_asm_parts:
  "lt256_asm = [Li T4 7, Label ''lt_compare_loop''] @ after_label lt256_asm ''lt_compare_loop''"
  "drop 11 lt256_asm = Jump ''lt_false'' # drop 12 lt256_asm"
  by (simp_all add: lt256_asm_def after_label_def)

lemma lt256_computes:
  assumes "operands m x y"
  shows "computes link ''lt256_stack_scratch'' m (get_reg m A1) (flag (x < y)) 32"
proof (rule lt.compares[where ?m1.0 = "set_reg T4 7 (set_reg RA link m)"])
  show "lib_callee link ''lt256_stack_scratch'' m =
      lib_run lt256_asm (after_label lt256_asm ''lt_compare_loop'') (set_reg T4 7 (set_reg RA link m))"
    by (subst lib_call[OF _ lt256_asm_parts(1)]) (simp_all add: lib_routines_def asm_simps)
next
  fix m'
  have "verdict (\<lambda>k. decide [(BLTU, False, ''lt_true''), (BLTU, True, ''lt_false'')] (word_at (7 - k) x) (word_at (7 - k) y)) 8 0 =
      (if x < y then Some ''lt_true'' else if y < x then Some ''lt_false'' else None)"
    by (rule verdict_words) (auto dest: less_not_sym)
  then show "lib_run lt256_asm (case verdict (\<lambda>k. decide [(BLTU, False, ''lt_true''), (BLTU, True, ''lt_false'')]
      (word_at (7 - k) x) (word_at (7 - k) y)) 8 0 of
      Some t \<Rightarrow> after_label lt256_asm t | None \<Rightarrow> drop 11 lt256_asm) m' =
      lib_run lt256_asm store_flag (set_reg T0 (if x < y then 1 else 0) m')"
    using lt_answers by (auto simp: answers_def lt256_asm_parts(2) lib_run_simps)
qed (use assms in \<open>simp_all add: mach_simps same_regs_def\<close>)

lemma gt256_asm_parts:
  "gt256_asm = [Li T4 7, Label ''gt_compare_loop''] @ after_label gt256_asm ''gt_compare_loop''"
  "drop 11 gt256_asm = Jump ''gt_false'' # drop 12 gt256_asm"
  by (simp_all add: gt256_asm_def after_label_def)

lemma gt256_computes:
  assumes "operands m x y"
  shows "computes link ''gt256_stack_scratch'' m (get_reg m A1) (flag (y < x)) 32"
proof (rule gt.compares[where ?m1.0 = "set_reg T4 7 (set_reg RA link m)"])
  show "lib_callee link ''gt256_stack_scratch'' m =
      lib_run gt256_asm (after_label gt256_asm ''gt_compare_loop'') (set_reg T4 7 (set_reg RA link m))"
    by (subst lib_call[OF _ gt256_asm_parts(1)]) (simp_all add: lib_routines_def asm_simps)
next
  fix m'
  have "verdict (\<lambda>k. decide [(BLTU, True, ''gt_true''), (BLTU, False, ''gt_false'')] (word_at (7 - k) x) (word_at (7 - k) y)) 8 0 =
      (if x < y then Some ''gt_false'' else if y < x then Some ''gt_true'' else None)"
    by (rule verdict_words) (auto dest: less_not_sym)
  then show "lib_run gt256_asm (case verdict (\<lambda>k. decide [(BLTU, True, ''gt_true''), (BLTU, False, ''gt_false'')]
      (word_at (7 - k) x) (word_at (7 - k) y)) 8 0 of
      Some t \<Rightarrow> after_label gt256_asm t | None \<Rightarrow> drop 11 gt256_asm) m' =
      lib_run gt256_asm store_flag (set_reg T0 (if y < x then 1 else 0) m')"
    using gt_answers by (auto simp: answers_def gt256_asm_parts(2) lib_run_simps)
qed (use assms in \<open>simp_all add: mach_simps same_regs_def\<close>)

lemma eq_labels:
  "after_label eq256_asm ''eq_false'' = [Li T0 0, Label ''eq_store_result''] @ store_flag"
  "after_label eq256_asm ''eq_store_result'' = store_flag"
  "eq256_asm = [Li T0 0, Label ''eq_compare_loop''] @ after_label eq256_asm ''eq_compare_loop''"
  "drop 11 eq256_asm = [Li T0 1, Jump ''eq_store_result''] @ drop 13 eq256_asm"
  by (simp_all add: after_label_def eq256_asm_def store_flag_def)

lemma eq256_computes:
  assumes "operands m x y"
  shows "computes link ''eq256_stack_scratch'' m (get_reg m A1) (flag (x = y)) 32"
proof (rule eqw.compares[where ?m1.0 = "set_reg T0 0 (set_reg RA link m)"])
  show "lib_callee link ''eq256_stack_scratch'' m =
      lib_run eq256_asm (after_label eq256_asm ''eq_compare_loop'') (set_reg T0 0 (set_reg RA link m))"
    by (subst lib_call[OF _ eq_labels(3)]) (simp_all add: lib_routines_def asm_simps)
next
  fix m'
  have "verdict (\<lambda>k. decide [(BNE, False, ''eq_false'')] (word_at k x) (word_at k y)) 8 0 =
      (if x = y then None else Some ''eq_false'')"
    by (rule verdict_equal) simp
  then show "lib_run eq256_asm (case verdict (\<lambda>k. decide [(BNE, False, ''eq_false'')]
      (word_at k x) (word_at k y)) 8 0 of
      Some t \<Rightarrow> after_label eq256_asm t | None \<Rightarrow> drop 11 eq256_asm) m' =
      lib_run eq256_asm store_flag (set_reg T0 (if x = y then 1 else 0) m')"
    by (simp add: eq_labels(1,2,4) lib_run_simps)
qed (use assms in \<open>simp_all add: mach_simps same_regs_def\<close>)

text \<open>
  The signed comparison looks at the sign bits first; only equal signs go on to the loop, which
  compares unsigned.
\<close>

lemma slt_parts:
  "slt256_asm = [Lw T0 28 A0, Lw T1 28 A1, AluI RV_SRA T2 T0 31, AluI RV_SRA T3 T1 31,
     Branch BNE T2 T3 ''slt_sign_diff'', Li T4 7, Label ''slt_compare_loop''] @
     after_label slt256_asm ''slt_compare_loop''"
  "after_label slt256_asm ''slt_sign_diff'' = [Bltz T2 ''slt_true'', Jump ''slt_false''] @ drop 20 slt256_asm"
  "drop 16 slt256_asm = Jump ''slt_false'' # drop 17 slt256_asm"
  by (simp_all add: after_label_def slt256_asm_def)

lemma sign_spread: "signed_drop_bit 31 w = (if bit w 31 then - 1 else (0 :: u32))"
proof (rule bit_word_eqI)
  show "bit (signed_drop_bit 31 w) n \<longleftrightarrow> bit (if bit w 31 then - 1 else (0 :: u32)) n" if "n < LENGTH(32)" for n
    using that by (cases n) (auto simp: bit_simps)
qed

lemma slt_signs:
  fixes x y :: u256
  shows "x <s y \<longleftrightarrow> (if bit x 255 = bit y 255 then x < y else bit x 255)"
proof -
  have b: "uint x < 2 ^ 256" "uint y < 2 ^ 256" "0 \<le> uint x" "0 \<le> uint y"
    using uint_bounded[of x] uint_bounded[of y] by simp_all
  have "x <s y \<longleftrightarrow> uint x - (if bit x 255 then 2 ^ 256 else 0) < uint y - (if bit y 255 then 2 ^ 256 else 0)"
    by (simp only: word_sless_alt sint_sign)
  also have "\<dots> \<longleftrightarrow> (if bit x 255 = bit y 255 then uint x < uint y else bit x 255)"
    using b by (cases "bit x 255"; cases "bit y 255"; simp only: if_True if_False simp_thms; linarith)
  finally show ?thesis by (simp add: word_less_def)
qed

lemma slt256_computes:
  assumes "operands m x y"
  shows "computes link ''slt256_stack_scratch'' m (get_reg m A1) (flag (x <s y)) 32"
proof -
  have top: "rd32 (mem m) (get_reg m A0 + 28) = word_at 7 x" "rd32 (mem m) (get_reg m A1 + 28) = word_at 7 y"
    using assms holds_at[of "mem m" "get_reg m A0" x 7] holds_at[of "mem m" "get_reg m A1" y 7]
    by (simp_all add: operands_def)
  let ?sx = "signed_drop_bit 31 (word_at 7 x)" and ?sy = "signed_drop_bit 31 (word_at 7 y)"
  let ?m = "set_reg T3 ?sy (set_reg T2 ?sx (set_reg T1 (word_at 7 y) (set_reg T0 (word_at 7 x) (set_reg RA link m))))"
  have signs: "?sx = ?sy \<longleftrightarrow> bit x 255 = bit y 255"
    by (simp add: sign_spread sign_word)
  have start: "lib_callee link ''slt256_stack_scratch'' m =
      (if ?sx \<noteq> ?sy then lib_run slt256_asm (after_label slt256_asm ''slt_sign_diff'') ?m
       else lib_run slt256_asm (after_label slt256_asm ''slt_compare_loop'') (set_reg T4 7 ?m))"
    by (subst lib_call[OF _ slt_parts(1)]) (simp_all add: lib_routines_def asm_simps top)
  show ?thesis
  proof (cases "bit x 255 = bit y 255")
    case True
    show ?thesis
    proof (rule slt.compares[where ?m1.0 = "set_reg T4 7 ?m"])
      fix m'
      have "verdict (\<lambda>k. decide [(BLTU, False, ''slt_true''), (BLTU, True, ''slt_false'')]
            (word_at (7 - k) x) (word_at (7 - k) y)) 8 0 =
          (if x < y then Some ''slt_true'' else if y < x then Some ''slt_false'' else None)"
        by (rule verdict_words) simp
      then show "lib_run slt256_asm (case verdict (\<lambda>k. decide [(BLTU, False, ''slt_true''), (BLTU, True, ''slt_false'')]
            (word_at (7 - k) x) (word_at (7 - k) y)) 8 0 of
          Some t \<Rightarrow> after_label slt256_asm t | None \<Rightarrow> drop 16 slt256_asm) m' =
          lib_run slt256_asm store_flag (set_reg T0 (if x <s y then 1 else 0) m')"
        using slt_answers True by (auto simp: slt_signs answers_def slt_parts(3) lib_run_simps)
    qed (use assms start signs True in \<open>simp_all add: mach_simps same_regs_def\<close>)
  next
    case False
    let ?f = "set_reg T0 (if x <s y then 1 else 0) ?m"
    have "lib_callee link ''slt256_stack_scratch'' m = lib_run slt256_asm store_flag ?f"
      using start signs False slt_answers
      by (auto simp: slt_parts(2) asm_simps answers_def slt_signs sign_spread sign_word)
    moreover have "get_reg ?f T0 = (if x <s y then 1 else 0)" by (simp add: mach_simps)
    from run_store_flag[OF this, of slt256_asm] obtain m' where
      "lib_run slt256_asm store_flag ?f = Some m'" "holds (mem m') (get_reg m A1) (flag (x <s y))"
      "get_reg m' SP = get_reg m SP + 32" "\<And>a. outside (get_reg m A1) a \<Longrightarrow> rd32 (mem m') a = rd32 (mem m) a"
      "same_regs {S1, S2, S3, RA} ?f m'"
      by (auto simp: mach_simps)
    ultimately show ?thesis
      unfolding computes_def by (intro exI[of _ m']) (simp add: same_regs_def mach_simps)
  qed
qed

end
