(* ===== verification/LibMul.thy ===== *)
theory LibMul
  imports LibRoutines
begin

text \<open>
  The multiplication of the library: it multiplies only operands of one word each, by repeated
  addition, and clears the result when any higher word of either operand is set.
\<close>

unbundle bit_operations_syntax

section \<open>One or two low words\<close>

lemma word_at_of_nat: "n < 2 ^ 256 \<Longrightarrow> unat (word_at j (word_of_nat n)) = n div (2 ^ 32) ^ j mod 2 ^ 32"
proof -
  assume "n < 2 ^ 256"
  then have "unat (word_of_nat n :: u256) = n" by (intro unat_word_of_nat) simp
  then show ?thesis by (simp only: unat_word_at)
qed

lemma small_words:
  assumes "unat lo + 2 ^ 32 * unat hi = n" and "j < 8"
  shows "word_at j (word_of_nat n) = (if j = 0 then lo else if j = 1 then hi else (0 :: u32))"
proof -
  note b = unat_u32_less[of lo] unat_u32_less[of hi]
  have n: "n < 2 ^ 64" using assms(1) b by simp
  have "n div (2 ^ 32) ^ j mod 2 ^ 32 = (if j = 0 then unat lo else if j = 1 then unat hi else 0)"
  proof -
    consider "j = 0" | "j = 1" | "2 \<le> j" by linarith
    then show ?thesis
    proof cases
      case 3
      then have "(2 ^ 32) ^ 2 \<le> ((2::nat) ^ 32) ^ j" by (intro power_increasing) simp_all
      with n have "n < (2 ^ 32) ^ j" by simp
      with 3 show ?thesis by simp
    qed (use assms(1) b in auto)
  qed
  moreover have "n < 2 ^ 256" using n by simp
  ultimately show ?thesis
    using word_at_of_nat[of n j] by (auto simp: word_unat_eq_iff)
qed

lemma holds_low_words:
  assumes "\<And>j. j < 8 \<Longrightarrow> rd32 mm (a + word_of_nat (4 * j)) = 0"
    and "unat lo + 2 ^ 32 * unat hi = n"
  shows "holds (wr32 (wr32 mm a lo) (a + 4) hi) a (word_of_nat n)"
  unfolding holds_def
proof (intro allI impI)
  fix j :: nat assume j: "j < 8"
  have f0: "i < 8 \<Longrightarrow> i \<noteq> 0 \<Longrightarrow> far a (a + word_of_nat (4 * i))" for i
    using far_words[of 0 i a] by simp
  have f1: "i < 8 \<Longrightarrow> i \<noteq> 1 \<Longrightarrow> far (a + 4) (a + word_of_nat (4 * i))" for i
    using far_words[of 1 i a] by simp
  show "rd32 (wr32 (wr32 mm a lo) (a + 4) hi) (a + word_of_nat (4 * j)) = word_at j (word_of_nat n)"
    unfolding small_words[OF assms(2) j]
    using f0[OF j] f1[OF j] assms(1)[OF j] j
    by (cases "j = 0"; cases "j = 1") (simp_all add: rd32_wr32 rd32_wr32_far)
qed

lemma outside_low: "outside a b \<Longrightarrow> rd32 (wr32 mm a w) b = rd32 mm b" "outside a b \<Longrightarrow> rd32 (wr32 mm (a + 4) w) b = rd32 mm b"
proof -
  assume o: "outside a b"
  have "far (a + word_of_nat (4 * 0)) b" "far (a + word_of_nat (4 * 1)) b"
    using o unfolding outside_def by (meson zero_less_numeral one_less_numeral_iff semiring_norm(76))+
  then show "rd32 (wr32 mm a w) b = rd32 mm b" "rd32 (wr32 mm (a + 4) w) b = rd32 mm b"
    by (simp_all add: rd32_wr32_far)
qed

section \<open>The check of the higher words\<close>

fun highs :: "u256 \<Rightarrow> u256 \<Rightarrow> nat \<Rightarrow> u32" where
  "highs x y 0 = 0"
| "highs x y (Suc k) = (highs x y k OR word_at (Suc k) x) OR word_at (Suc k) y"

lemma highs_zero: "highs x y k = 0 \<longleftrightarrow> (\<forall>i<k. word_at (Suc i) x = 0 \<and> word_at (Suc i) y = 0)"
  by (induction k) (auto simp: or_eq_0_iff less_Suc_eq)

lemma one_word: "(\<forall>i<7. word_at (Suc i) v = 0) \<longleftrightarrow> v < 2 ^ 32"
proof
  assume "\<forall>i<7. word_at (Suc i) v = 0"
  then have "word_at j v = word_at j (word_of_nat (unat (word_at 0 v)))" if "j < 8" for j
    using small_words[of "word_at 0 v" 0 "unat (word_at 0 v)" j] that by (cases j) auto
  then have "v = word_of_nat (unat (word_at 0 v))" by (rule words_determine)
  then have "unat v = unat (word_at 0 v)"
    using unat_u32_less[of "word_at 0 v"] unat_word_of_nat[of "unat (word_at 0 v)", where 'a = 256] by simp
  with unat_u32_less[of "word_at 0 v"] show "v < 2 ^ 32" by (simp add: word_less_nat_alt)
next
  assume "v < 2 ^ 32"
  then have v: "unat v < 2 ^ 32" by (simp add: word_less_nat_alt)
  show "\<forall>i<7. word_at (Suc i) v = 0"
  proof (intro allI impI)
    fix i
    have "(2 ^ 32) ^ 1 \<le> ((2::nat) ^ 32) ^ Suc i" by (intro power_increasing) simp_all
    with v have "unat v < (2 ^ 32) ^ Suc i" by (simp only: power_one_right)
    then have "unat (word_at (Suc i) v) = 0" by (simp only: unat_word_at div_less mod_0)
    then show "word_at (Suc i) v = 0" by (simp add: unsigned_eq_0_iff)
  qed
qed

lemma idx_ge: "k < 8 \<Longrightarrow> 8 \<le> sint (word_of_nat k + 1 :: u32) \<longleftrightarrow> k = 7"
  using idx_up'[of k] by auto

lemma mul_check_parts:
  "after_label mul256_asm ''mul_check_simple'' =
     take 2 (drop 5 mul256_asm) @ Branch BGE T2 T4 ''mul_do_simple'' #
     take 7 (drop 8 mul256_asm) @ Jump ''mul_check_simple'' # drop 16 mul256_asm"
  "take 2 (drop 5 mul256_asm) = [Addi T2 T2 1, Li T4 8]"
  "take 7 (drop 8 mul256_asm) = [AluI RV_SLL T4 T2 2, Alu RV_ADD T5 A0 T4, Lw T6 0 T5,
     Alu RV_OR T3 T3 T6, Alu RV_ADD T5 A1 T4, Lw T6 0 T5, Alu RV_OR T3 T3 T6]"
  by (simp_all add: after_label_def mul256_asm_def)

lemma mul_check:
  assumes "get_reg m T2 = word_of_nat k" "get_reg m T3 = highs x y k" "operands m x y" "k + n = 7"
  shows "\<exists>m'. lib_run mul256_asm (after_label mul256_asm ''mul_check_simple'') m =
      lib_run mul256_asm (after_label mul256_asm ''mul_do_simple'') m' \<and>
    get_reg m' T3 = highs x y 7 \<and> mem m' = mem m \<and> same_regs ({T0, T1} \<union> saved) m m'"
  using assms
proof (induction n arbitrary: k m)
  case 0
  then have k: "k = 7" by simp
  let ?m = "set_reg T4 8 (set_reg T2 (get_reg m T2 + 1) m)"
  have "lib_run mul256_asm (after_label mul256_asm ''mul_check_simple'') m =
      lib_run mul256_asm (after_label mul256_asm ''mul_do_simple'') ?m"
    using 0(1) by (simp only: mul_check_parts) (simp add: asm_simps k)
  with 0(2) k show ?case by (intro exI[of _ ?m]) (simp add: mach_simps same_regs_def)
next
  case (Suc n)
  then have k: "k < 7" by simp
  let ?m = "set_reg T4 8 (set_reg T2 (word_of_nat (Suc k)) m)"
  have go: "lib_run mul256_asm (after_label mul256_asm ''mul_check_simple'') m =
      lib_run mul256_asm (take 7 (drop 8 mul256_asm) @ Jump ''mul_check_simple'' # drop 16 mul256_asm) ?m"
    using Suc.prems(1) k idx_ge[of k]
    by (simp only: mul_check_parts(1,2)) (simp add: asm_simps add.commute)
  have "\<exists>m'. (\<forall>rest. lib_run mul256_asm (take 7 (drop 8 mul256_asm) @ rest) ?m = lib_run mul256_asm rest m') \<and>
      get_reg m' T2 = word_of_nat (Suc k) \<and> get_reg m' T3 = highs x y (Suc k) \<and> mem m' = mem m \<and>
      same_regs ({T0, T1} \<union> saved) m m'"
    using Suc.prems(2,3) k holds_at[of "mem m" "get_reg m A0" x "Suc k"] holds_at[of "mem m" "get_reg m A1" y "Suc k"]
    by (intro turnI, simp add: mul_check_parts(3) asm_simps,
      simp add: asm_simps same_regs_def operands_def)
  then obtain m1 where m1: "\<And>rest. lib_run mul256_asm (take 7 (drop 8 mul256_asm) @ rest) ?m = lib_run mul256_asm rest m1"
    "get_reg m1 T2 = word_of_nat (Suc k)" "get_reg m1 T3 = highs x y (Suc k)" "mem m1 = mem m"
    "same_regs ({T0, T1} \<union> saved) m m1"
    by blast
  have "operands m1 x y" using Suc.prems(3) m1(4,5) by (simp add: operands_def same_regs_def)
  from Suc.IH[OF m1(2,3) this] Suc.prems(4) obtain m2 where
    "lib_run mul256_asm (after_label mul256_asm ''mul_check_simple'') m1 =
       lib_run mul256_asm (after_label mul256_asm ''mul_do_simple'') m2"
    "get_reg m2 T3 = highs x y 7" "mem m2 = mem m1" "same_regs ({T0, T1} \<union> saved) m1 m2"
    by auto
  with go m1(1,4) same_regs_trans[OF m1(5)] show ?case
    by (intro exI[of _ m2]) (simp add: lib_run_simps)
qed

section \<open>Repeated addition\<close>

lemma mul_add_parts:
  "after_label mul256_asm ''mul_add_loop'' =
     [Alu RV_ADD T2 T2 A3, Alu RV_SLTU T4 T2 A3, Alu RV_ADD T3 T3 T4, Addi A2 A2 (-1),
      Bnez A2 ''mul_add_loop'', Label ''mul_simple_done''] @ after_label mul256_asm ''mul_simple_done''"
  by (simp_all add: after_label_def mul256_asm_def)

lemma add_step:
  assumes "unat lo + 2 ^ 32 * unat hi + unat b < 2 ^ 64"
  shows "unat (lo + b) + 2 ^ 32 * unat (hi + sltu (lo + b) b) = unat lo + 2 ^ 32 * unat hi + unat b"
proof -
  note small = unat_u32_less[of lo] unat_u32_less[of b] unat_u32_less[of hi]
  show ?thesis
  proof (cases "unat lo + unat b < 2 ^ 32")
    case True
    then have "unat (lo + b) = unat lo + unat b" by (simp add: unat_word_ariths)
    then show ?thesis by (simp add: sltu_def word_less_nat_alt)
  next
    case False
    then have lo: "unat (lo + b) = unat lo + unat b - 2 ^ 32"
      using small by (simp add: unat_word_ariths mod_if)
    have "unat hi + 1 < 2 ^ 32" using assms False by simp
    then have "unat (hi + 1) = unat hi + 1" by (simp add: unat_word_ariths)
    moreover have "lo + b < b" using lo small False by (simp add: word_less_nat_alt)
    ultimately show ?thesis using lo False by (simp add: sltu_def)
  qed
qed

lemma mul_add:
  assumes "get_reg m A2 = word_of_nat n" "0 < n" "n < 2 ^ 32"
    and "unat (get_reg m T2) + 2 ^ 32 * unat (get_reg m T3) + n * unat (get_reg m A3) < 2 ^ 64"
  shows "\<exists>m'. lib_run mul256_asm (after_label mul256_asm ''mul_add_loop'') m =
      lib_run mul256_asm (after_label mul256_asm ''mul_simple_done'') m' \<and>
    unat (get_reg m' T2) + 2 ^ 32 * unat (get_reg m' T3) =
      unat (get_reg m T2) + 2 ^ 32 * unat (get_reg m T3) + n * unat (get_reg m A3) \<and>
    mem m' = mem m \<and> same_regs saved m m'"
  using assms
proof (induction n arbitrary: m)
  case (Suc n)
  let ?b = "get_reg m A3" and ?lo = "get_reg m T2" and ?hi = "get_reg m T3"
  let ?m = "set_reg A2 (word_of_nat n) (set_reg T3 (?hi + sltu (?lo + ?b) ?b)
      (set_reg T4 (sltu (?lo + ?b) ?b) (set_reg T2 (?lo + ?b) m)))"
  have nz: "(word_of_nat n :: u32) = 0 \<longleftrightarrow> n = 0"
    using Suc.prems(3) by (simp add: word_unat_eq_iff unat_of_nat)
  have go: "lib_run mul256_asm (after_label mul256_asm ''mul_add_loop'') m =
      (if n = 0 then lib_run mul256_asm (after_label mul256_asm ''mul_simple_done'') ?m
       else lib_run mul256_asm (after_label mul256_asm ''mul_add_loop'') ?m)"
    using Suc.prems(1) by (subst mul_add_parts) (simp add: asm_simps nz)
  have step: "unat (get_reg ?m T2) + 2 ^ 32 * unat (get_reg ?m T3) = unat ?lo + 2 ^ 32 * unat ?hi + unat ?b"
    using add_step[of ?lo ?hi ?b] Suc.prems(4) by (simp add: mach_simps)
  show ?case
  proof (cases "n = 0")
    case True
    with go step show ?thesis by (intro exI[of _ ?m]) (simp add: mach_simps same_regs_def)
  next
    case False
    have "unat (get_reg ?m T2) + 2 ^ 32 * unat (get_reg ?m T3) + n * unat (get_reg ?m A3) < 2 ^ 64"
      unfolding step using Suc.prems(4) by (simp add: mach_simps)
    from Suc.IH[OF _ _ _ this] False Suc.prems(3) obtain m' where
      "lib_run mul256_asm (after_label mul256_asm ''mul_add_loop'') ?m =
         lib_run mul256_asm (after_label mul256_asm ''mul_simple_done'') m'"
      "unat (get_reg m' T2) + 2 ^ 32 * unat (get_reg m' T3) =
         unat ?lo + 2 ^ 32 * unat ?hi + unat ?b + n * unat ?b"
      "mem m' = mem ?m" "same_regs saved ?m m'"
      unfolding step by (auto simp: mach_simps)
    with go False show ?thesis by (intro exI[of _ m']) (simp add: mach_simps same_regs_def)
  qed
qed simp

section \<open>The routine\<close>

lemma mul_parts:
  "mul256_asm = [Lw T0 0 A0, Lw T1 0 A1, Li T2 0, Li T3 0, Label ''mul_check_simple''] @
     after_label mul256_asm ''mul_check_simple''"
  "after_label mul256_asm ''mul_do_simple'' =
     [Beqz T3 ''mul_simple_case'', Li T0 0, Label ''mul_clear_complex''] @ after_label mul256_asm ''mul_clear_complex''"
  "drop 26 mul256_asm = Jump ''mul_done'' # drop 27 mul256_asm"
  "after_label mul256_asm ''mul_simple_case'' =
     [Mv A2 T0, Mv A3 T1, Li T2 0, Li T3 0, Beqz A2 ''mul_simple_done'', Beqz A3 ''mul_simple_done'',
      Label ''mul_add_loop''] @ after_label mul256_asm ''mul_add_loop''"
  "after_label mul256_asm ''mul_simple_done'' =
     [Li T0 0, Label ''mul_clear_simple''] @ after_label mul256_asm ''mul_clear_simple''"
  "drop 49 mul256_asm = [Sw T2 0 A1, Sw T3 4 A1, Label ''mul_done''] @ after_label mul256_asm ''mul_done''"
  "after_label mul256_asm ''mul_done'' = [Addi SP SP 32, Ret]"
  by (simp_all add: after_label_def mul256_asm_def)

lemma mul_finish:
  assumes "unat (get_reg m T2) + 2 ^ 32 * unat (get_reg m T3) = n"
  shows "\<exists>m'. lib_run mul256_asm (after_label mul256_asm ''mul_simple_done'') m = Some m' \<and>
    holds (mem m') (get_reg m A1) (word_of_nat n) \<and> get_reg m' SP = get_reg m SP + 32 \<and>
    (\<forall>a. outside (get_reg m A1) a \<longrightarrow> rd32 (mem m') a = rd32 (mem m) a) \<and> same_regs {S1, S2, S3, RA} m m'"
proof -
  let ?m = "set_reg T0 0 m"
  have start: "lib_run mul256_asm (after_label mul256_asm ''mul_simple_done'') m =
      lib_run mul256_asm (after_label mul256_asm ''mul_clear_simple'') ?m"
    by (simp add: mul_parts(5) asm_simps)
  have "get_reg ?m T0 = 0" by (simp add: mach_simps)
  from mul_prepare.loop[OF this] obtain m1 where
    m1: "lib_run mul256_asm (after_label mul256_asm ''mul_clear_simple'') ?m = lib_run mul256_asm (drop 49 mul256_asm) m1"
      "\<And>j. j < 8 \<Longrightarrow> rd32 (mem m1) (get_reg ?m A1 + word_of_nat (4 * j)) = 0"
      "\<And>a. outside (get_reg ?m A1) a \<Longrightarrow> rd32 (mem m1) a = rd32 (mem ?m) a" "same_regs ({T2, T3} \<union> saved) ?m m1"
    by auto
  have a: "get_reg ?m A1 = get_reg m A1" by (simp add: mach_simps)
  let ?a = "get_reg m A1"
  let ?m2 = "set_reg SP (get_reg m SP + 32)
      (m1\<lparr>mem := wr32 (wr32 (mem m1) ?a (get_reg m T2)) (?a + 4) (get_reg m T3)\<rparr>)"
  have "lib_run mul256_asm (drop 49 mul256_asm) m1 = Some ?m2"
    using m1(4) by (simp add: mul_parts(6,7) asm_simps same_regs_def)
  moreover have "holds (mem ?m2) ?a (word_of_nat n)"
    using holds_low_words[OF m1(2)[unfolded a] assms] by (simp add: mach_simps)
  ultimately show ?thesis
    using start m1(1,3,4) outside_low[of ?a]
    by (intro exI[of _ ?m2]) (simp add: mach_simps same_regs_def)
qed

definition mul_result :: "u256 \<Rightarrow> u256 \<Rightarrow> u256" where
  "mul_result x y = (if x < 2 ^ 32 \<and> y < 2 ^ 32 then x * y else 0)"

lemma low_word: "v < 2 ^ 32 \<Longrightarrow> unat (word_at 0 v) = unat v"
  by (simp add: unat_word_at word_less_nat_alt)

lemma highs_small: "highs x y 7 = 0 \<longleftrightarrow> x < 2 ^ 32 \<and> y < 2 ^ 32"
  unfolding highs_zero one_word[symmetric] by blast

lemma mul_simple:
  assumes "get_reg m T0 = a" "get_reg m T1 = b"
  shows "\<exists>m'. lib_run mul256_asm (after_label mul256_asm ''mul_simple_case'') m =
      lib_run mul256_asm (after_label mul256_asm ''mul_simple_done'') m' \<and>
    unat (get_reg m' T2) + 2 ^ 32 * unat (get_reg m' T3) = unat a * unat b \<and> mem m' = mem m \<and> same_regs saved m m'"
proof -
  let ?m = "set_reg T3 0 (set_reg T2 0 (set_reg A3 b (set_reg A2 a m)))"
  have go: "lib_run mul256_asm (after_label mul256_asm ''mul_simple_case'') m =
      (if a = 0 \<or> b = 0 then lib_run mul256_asm (after_label mul256_asm ''mul_simple_done'') ?m
       else lib_run mul256_asm (after_label mul256_asm ''mul_add_loop'') ?m)"
    using assms by (simp add: mul_parts(4) asm_simps)
  show ?thesis
  proof (cases "a = 0 \<or> b = 0")
    case True
    with go show ?thesis by (intro exI[of _ ?m]) (auto simp: mach_simps same_regs_def)
  next
    case False
    have "unat a * unat b < 2 ^ 32 * 2 ^ 32"
      using unat_u32_less[of a] unat_u32_less[of b] by (intro mult_strict_mono) simp_all
    then have room: "unat (get_reg ?m T2) + 2 ^ 32 * unat (get_reg ?m T3) + unat a * unat (get_reg ?m A3) < 2 ^ 64"
      by (simp add: mach_simps)
    have "get_reg ?m A2 = word_of_nat (unat a)" "0 < unat a" "unat a < 2 ^ 32"
      using False unat_u32_less[of a] by (simp_all add: mach_simps unat_gt_0)
    from mul_add[OF this room] go False show ?thesis
      by (auto simp: mach_simps same_regs_def)
  qed
qed

lemma mul256_computes:
  assumes "operands m x y"
  shows "computes link ''mul256_stack_scratch'' m (get_reg m A1) (mul_result x y) 32"
proof -
  have low: "rd32 (mem m) (get_reg m A0) = word_at 0 x" "rd32 (mem m) (get_reg m A1) = word_at 0 y"
    using assms holds_at[of "mem m" "get_reg m A0" x 0] holds_at[of "mem m" "get_reg m A1" y 0]
    by (simp_all add: operands_def)
  let ?m = "set_reg T3 0 (set_reg T2 0 (set_reg T1 (word_at 0 y) (set_reg T0 (word_at 0 x) (set_reg RA link m))))"
  have start: "lib_callee link ''mul256_stack_scratch'' m =
      lib_run mul256_asm (after_label mul256_asm ''mul_check_simple'') ?m"
    by (subst lib_call[OF _ mul_parts(1)]) (simp_all add: lib_routines_def asm_simps low)
  have "operands ?m x y" using assms by (simp add: operands_def mach_simps)
  from mul_check[of ?m 0 x y 7, OF _ _ this] obtain m1 where
    m1: "lib_run mul256_asm (after_label mul256_asm ''mul_check_simple'') ?m =
        lib_run mul256_asm (after_label mul256_asm ''mul_do_simple'') m1"
      "get_reg m1 T3 = highs x y 7" "mem m1 = mem m" "same_regs ({T0, T1} \<union> saved) ?m m1"
    by (auto simp: mach_simps)
  have regs: "get_reg m1 A1 = get_reg m A1" "get_reg m1 T0 = word_at 0 x" "get_reg m1 T1 = word_at 0 y"
    "same_regs {SP, S1, S2, S3} m m1" "get_reg m1 RA = link"
    using m1(4) by (simp_all add: same_regs_def mach_simps)
  show ?thesis
  proof (cases "highs x y 7 = 0")
    case True
    with m1(2) have go: "lib_run mul256_asm (after_label mul256_asm ''mul_do_simple'') m1 =
        lib_run mul256_asm (after_label mul256_asm ''mul_simple_case'') m1"
      by (simp add: mul_parts(2) asm_simps)
    from mul_simple[OF regs(2,3)] obtain m2 where
      m2: "lib_run mul256_asm (after_label mul256_asm ''mul_simple_case'') m1 =
          lib_run mul256_asm (after_label mul256_asm ''mul_simple_done'') m2"
        "unat (get_reg m2 T2) + 2 ^ 32 * unat (get_reg m2 T3) = unat (word_at 0 x) * unat (word_at 0 y)"
        "mem m2 = mem m1" "same_regs saved m1 m2"
      by blast
    have small: "x < 2 ^ 32" "y < 2 ^ 32" using True by (simp_all only: highs_small)
    then have "word_of_nat (unat (word_at 0 x) * unat (word_at 0 y)) = mul_result x y"
      by (simp add: low_word mul_result_def)
    with mul_finish[OF m2(2)] start go m1(1,3) m2(1,3,4) regs show ?thesis
      by (auto simp: computes_def same_regs_def)
  next
    case False
    let ?m1 = "set_reg T0 0 m1"
    have go: "lib_run mul256_asm (after_label mul256_asm ''mul_do_simple'') m1 =
        lib_run mul256_asm (after_label mul256_asm ''mul_clear_complex'') ?m1"
      using m1(2) False by (simp add: mul_parts(2) asm_simps)
    have "get_reg ?m1 T0 = 0" by (simp add: mach_simps)
    from mul_clear.loop[OF this] obtain m2 where
      m2: "lib_run mul256_asm (after_label mul256_asm ''mul_clear_complex'') ?m1 = lib_run mul256_asm (drop 26 mul256_asm) m2"
        "\<And>j. j < 8 \<Longrightarrow> rd32 (mem m2) (get_reg m1 A1 + word_of_nat (4 * j)) = 0"
        "\<And>a. outside (get_reg m1 A1) a \<Longrightarrow> rd32 (mem m2) a = rd32 (mem m1) a" "same_regs saved m1 m2"
      by (auto simp: mach_simps same_regs_def)
    have "holds (mem m2) (get_reg m A1) 0" using m2(2) regs(1) by (simp add: holds_def)
    moreover have "mul_result x y = 0"
      using False unfolding highs_small by (auto simp: mul_result_def)
    moreover have "lib_run mul256_asm (drop 26 mul256_asm) m2 = Some (set_reg SP (get_reg m2 SP + 32) m2)"
      by (simp add: mul_parts(3,7) asm_simps)
    ultimately show ?thesis
      using start go m1(1,3) m2(1,3,4) regs
      by (auto simp: computes_def same_regs_def mach_simps)
  qed
qed

end
