(* ===== verification/LibDiv.thy ===== *)
theory LibDiv
  imports LibMul
begin

text \<open>
  The division of the library. It divides the low words of its operands, by repeated subtraction
  for dividends under 200000 and bit by bit for the others; a dividend below the divisor leaves the
  loop bound of the zero check, eight, as the quotient.
\<close>

unbundle bit_operations_syntax

section \<open>The zero check\<close>

fun ors :: "u256 \<Rightarrow> nat \<Rightarrow> u32" where
  "ors x 0 = 0"
| "ors x (Suc k) = ors x k OR word_at k x"

lemma ors_zero: "ors x 8 = 0 \<longleftrightarrow> x = 0"
proof -
  have "ors x k = 0 \<longleftrightarrow> (\<forall>i<k. word_at i x = 0)" for k
    by (induction k) (auto simp: or_eq_0_iff less_Suc_eq)
  moreover have "(\<forall>i<8. word_at i x = 0) \<longleftrightarrow> x = 0"
    using words_determine[of x 0] by auto
  ultimately show ?thesis by simp
qed

lemma div_check_parts:
  "after_label div256_asm ''div_check_zero'' =
     [AluI RV_SLL T2 T0 2, Alu RV_ADD T3 A0 T2, Lw T4 0 T3, Alu RV_OR T1 T1 T4, Addi T0 T0 1, Li T2 8,
      Branch BLT T0 T2 ''div_check_zero''] @ drop 10 div256_asm"
  by (simp add: after_label_def div256_asm_def)

lemma div_check:
  assumes "get_reg m T0 = word_of_nat k" "get_reg m T1 = ors x k" "holds (mem m) (get_reg m A0) x" "k + Suc n = 8"
  shows "\<exists>m'. lib_run div256_asm (after_label div256_asm ''div_check_zero'') m =
      lib_run div256_asm (drop 10 div256_asm) m' \<and>
    get_reg m' T1 = ors x 8 \<and> get_reg m' T2 = 8 \<and> mem m' = mem m \<and> same_regs saved m m'"
  using assms
proof (induction n arbitrary: k m)
  case 0
  then have k: "k = 7" by simp
  let ?m = "set_reg T2 8 (set_reg T0 8 (set_reg T1 (ors x 8) (set_reg T4 (word_at 7 x)
      (set_reg T3 (get_reg m A0 + 28) (set_reg T2 28 m)))))"
  have "ors x 8 = ors x 7 OR word_at 7 x" using ors.simps(2)[of x 7] by (simp del: ors.simps)
  then have "lib_run div256_asm (after_label div256_asm ''div_check_zero'') m =
      lib_run div256_asm (drop 10 div256_asm) ?m"
    using 0 k holds_at[of "mem m" "get_reg m A0" x 7]
    by (subst div_check_parts) (simp add: asm_simps)
  then show ?case by (intro exI[of _ ?m]) (simp add: mach_simps same_regs_def)
next
  case (Suc n)
  then have k: "k < 7" by simp
  let ?m = "set_reg T2 8 (set_reg T0 (word_of_nat (Suc k)) (set_reg T1 (ors x (Suc k)) (set_reg T4 (word_at k x)
      (set_reg T3 (get_reg m A0 + 4 * word_of_nat k) (set_reg T2 (4 * word_of_nat k) m)))))"
  have go: "lib_run div256_asm (after_label div256_asm ''div_check_zero'') m =
      lib_run div256_asm (after_label div256_asm ''div_check_zero'') ?m"
    using Suc.prems k holds_at[of "mem m" "get_reg m A0" x k] idx_up'[of k]
    by (subst div_check_parts) (simp add: asm_simps add.commute)
  have "get_reg ?m T0 = word_of_nat (Suc k)" "get_reg ?m T1 = ors x (Suc k)" "holds (mem ?m) (get_reg ?m A0) x"
    using Suc.prems(3) by (simp_all add: mach_simps del: of_nat_Suc ors.simps)
  from Suc.IH[OF this] Suc.prems(4) obtain m' where
    "lib_run div256_asm (after_label div256_asm ''div_check_zero'') ?m = lib_run div256_asm (drop 10 div256_asm) m'"
    "get_reg m' T1 = ors x 8" "get_reg m' T2 = 8" "mem m' = mem ?m" "same_regs saved ?m m'"
    by auto
  with go show ?case by (intro exI[of _ m']) (simp add: mach_simps same_regs_def)
qed

section \<open>Repeated subtraction\<close>

lemma div_subtract_parts:
  "after_label div256_asm ''div_subtract_loop'' =
     [Beqz T4 ''div_simple_done'', Branch BLTU T3 T1 ''div_simple_done'', Alu RV_SUB T3 T3 T1,
      Addi T2 T2 1, Addi T4 T4 (-1), Jump ''div_subtract_loop''] @ drop 63 div256_asm"
  by (simp add: after_label_def div256_asm_def)

lemma div_subtract:
  assumes "get_reg m T4 = word_of_nat n" "n < 2 ^ 32" "unat (get_reg m T3) < n" "get_reg m T1 \<noteq> 0"
    and "unat (get_reg m T2) + unat (get_reg m T3) < 2 ^ 32"
  shows "\<exists>m'. lib_run div256_asm (after_label div256_asm ''div_subtract_loop'') m =
      lib_run div256_asm (after_label div256_asm ''div_simple_done'') m' \<and>
    unat (get_reg m' T2) = unat (get_reg m T2) + unat (get_reg m T3) div unat (get_reg m T1) \<and>
    mem m' = mem m \<and> same_regs saved m m'"
  using assms
proof (induction n arbitrary: m)
  case (Suc n)
  let ?b = "get_reg m T1" and ?r = "get_reg m T3" and ?q = "get_reg m T2"
  have nz: "(1 + word_of_nat n :: u32) \<noteq> 0"
  proof -
    have "unat (word_of_nat (Suc n) :: u32) = Suc n" by (rule unat_word_of_nat) (use Suc.prems(2) in simp)
    then show ?thesis by (metis Suc_neq_Zero of_nat_Suc unsigned_0)
  qed
  have b: "0 < unat ?b" using Suc.prems(4) by (simp add: unat_gt_0)
  show ?case
  proof (cases "?r < ?b")
    case True
    then have "lib_run div256_asm (after_label div256_asm ''div_subtract_loop'') m =
        lib_run div256_asm (after_label div256_asm ''div_simple_done'') m"
      using Suc.prems(1) nz by (subst div_subtract_parts) (simp add: asm_simps)
    with True show ?thesis by (intro exI[of _ m]) (simp add: word_less_nat_alt)
  next
    case False
    let ?m = "set_reg T4 (word_of_nat n) (set_reg T2 (?q + 1) (set_reg T3 (?r - ?b) m))"
    have go: "lib_run div256_asm (after_label div256_asm ''div_subtract_loop'') m =
        lib_run div256_asm (after_label div256_asm ''div_subtract_loop'') ?m"
      using Suc.prems(1) nz False by (subst div_subtract_parts) (simp add: asm_simps)
    have r: "unat (?r - ?b) = unat ?r - unat ?b" using False by (simp add: unat_sub not_less)
    have le: "unat ?b \<le> unat ?r" using False by (simp add: word_less_nat_alt)
    have q: "unat (?q + 1) = unat ?q + 1"
      using Suc.prems(5) b le by (simp add: unat_word_ariths)
    have "get_reg ?m T4 = word_of_nat n" "n < 2 ^ 32" "unat (get_reg ?m T3) < n" "get_reg ?m T1 \<noteq> 0"
      "unat (get_reg ?m T2) + unat (get_reg ?m T3) < 2 ^ 32"
      using Suc.prems b le by (simp_all add: mach_simps r q)
    from Suc.IH[OF this] obtain m' where
      "lib_run div256_asm (after_label div256_asm ''div_subtract_loop'') ?m =
         lib_run div256_asm (after_label div256_asm ''div_simple_done'') m'"
      "unat (get_reg m' T2) = unat ?q + 1 + (unat ?r - unat ?b) div unat ?b" "mem m' = mem ?m" "same_regs saved ?m m'"
      by (auto simp: mach_simps q r)
    moreover have "unat ?r div unat ?b = 1 + (unat ?r - unat ?b) div unat ?b"
      using le b by (subst le_div_geq) simp_all
    ultimately show ?thesis
      using go by (intro exI[of _ m']) (simp add: mach_simps same_regs_def)
  qed
qed simp

section \<open>Division bit by bit\<close>

lemma div_binary_parts:
  "after_label div256_asm ''div_binary_loop'' =
     [Beqz T4 ''div_simple_done'', AluI RV_SLL T3 T3 1, AluI RV_SRL T5 T0 31, Alu RV_OR T3 T3 T5,
      AluI RV_SLL T0 T0 1, AluI RV_SLL T2 T2 1, Branch BLTU T3 T1 ''div_binary_next'', Alu RV_SUB T3 T3 T1,
      AluI RV_OR T2 T2 1, Label ''div_binary_next''] @ after_label div256_asm ''div_binary_next''"
  "after_label div256_asm ''div_binary_next'' =
     [Addi T4 T4 (-1), Jump ''div_binary_loop''] @ drop 54 div256_asm"
  by (simp_all add: after_label_def div256_asm_def)

lemma next_bit:
  assumes "k < 32"
  shows "drop_bit 31 (push_bit (31 - k) (a :: u32)) = of_bool (bit a k)"
    and "push_bit 1 (push_bit (31 - k) a) = push_bit (32 - k) a"
proof -
  show "drop_bit 31 (push_bit (31 - k) a) = of_bool (bit a k)"
    using assms by (intro bit_word_eqI) (auto simp: bit_simps)
  have "1 + (31 - k) = 32 - k" using assms by simp
  then show "push_bit 1 (push_bit (31 - k) a) = push_bit (32 - k) a" by (metis push_bit_push_bit)
qed

lemma shift_in:
  assumes "unat w < 2 ^ 31"
  shows "unat (push_bit 1 w OR of_bool b :: u32) = 2 * unat w + of_bool b"
proof -
  have "push_bit 1 w OR of_bool b = 2 * w + of_bool b"
    by (cases b) (simp_all add: push_bit_eq_mult or_one_eq)
  moreover have "unat (2 * w) = 2 * unat w"
    using assms by (simp add: unat_word_ariths)
  ultimately show ?thesis using assms by (cases b) (simp_all add: unat_word_ariths)
qed

lemma div_bit:
  assumes "0 < (d :: nat)" and small: "c \<le> 1"
  shows "(if 2 * (p mod d) + c < d then 2 * (p div d) else 2 * (p div d) + 1) = (2 * p + c) div d"
    and "(if 2 * (p mod d) + c < d then 2 * (p mod d) + c else 2 * (p mod d) + c - d) = (2 * p + c) mod d"
proof -
  let ?r = "2 * (p mod d) + c"
  have split: "2 * p + c = ?r + d * (2 * (p div d))"
  proof -
    have "d * (2 * (p div d)) = 2 * (p div d * d)" by (simp only: ac_simps)
    with div_mult_mod_eq[of p d] show ?thesis by linarith
  qed
  have bound: "?r < 2 * d" using mod_less_divisor[OF assms(1), of p] small by linarith
  have small_r: "?r div d = (if ?r < d then 0 else 1)" "?r mod d = (if ?r < d then ?r else ?r - d)"
    using bound assms(1) le_div_geq[of d ?r] le_mod_geq[of d ?r] by (simp_all add: not_less)
  have "(2 * p + c) div d = 2 * (p div d) + ?r div d"
    unfolding split using assms(1) by (subst div_mult_self2) simp_all
  then show "(if ?r < d then 2 * (p div d) else 2 * (p div d) + 1) = (2 * p + c) div d"
    unfolding small_r by simp
  have "(2 * p + c) mod d = ?r mod d"
    unfolding split by (rule mod_mult_self2)
  then show "(if ?r < d then ?r else ?r - d) = (2 * p + c) mod d"
    unfolding small_r by simp
qed

text \<open>With \<open>n\<close> bits to go, quotient and remainder are those of the bits above them.\<close>

lemma div_binary:
  assumes "get_reg m T4 = word_of_nat n" "n \<le> 32" "get_reg m T0 = push_bit (32 - n) a" "get_reg m T1 = b" "b \<noteq> 0"
    and "unat (get_reg m T2) = unat a div 2 ^ n div unat b" "unat (get_reg m T3) = unat a div 2 ^ n mod unat b"
  shows "\<exists>m'. lib_run div256_asm (after_label div256_asm ''div_binary_loop'') m =
      lib_run div256_asm (after_label div256_asm ''div_simple_done'') m' \<and>
    unat (get_reg m' T2) = unat a div unat b \<and> mem m' = mem m \<and> same_regs saved m m'"
  using assms
proof (induction n arbitrary: m)
  case 0
  then have "lib_run div256_asm (after_label div256_asm ''div_binary_loop'') m =
      lib_run div256_asm (after_label div256_asm ''div_simple_done'') m"
    by (subst div_binary_parts(1)) (simp add: asm_simps)
  with 0 show ?case by (intro exI[of _ m]) simp
next
  case (Suc k)
  let ?p = "unat a div 2 ^ Suc k" and ?d = "unat b" and ?c = "of_bool (bit a k) :: nat"
  let ?q = "get_reg m T2" and ?r = "get_reg m T3"
  let ?t = "push_bit 1 ?r OR of_bool (bit a k)"
  have d: "0 < ?d" using Suc.prems(5) by (simp add: unat_gt_0)
  have k: "k < 32" using Suc.prems(2) by simp
  have nz: "(1 + word_of_nat k :: u32) \<noteq> 0"
  proof -
    have "unat (word_of_nat (Suc k) :: u32) = Suc k" by (rule unat_word_of_nat) (use k in simp)
    then show ?thesis by (metis Suc_neq_Zero of_nat_Suc unsigned_0)
  qed
  have p31: "?p < 2 ^ 31"
  proof -
    have "Suc k + (31 - k) = 32" using k by simp
    then have "(2::nat) ^ Suc k * 2 ^ (31 - k) = 2 ^ 32" by (metis power_add)
    then have "unat a < 2 ^ Suc k * 2 ^ (31 - k)" using unat_u32_less[of a] by simp
    then have "?p < 2 ^ (31 - k)" by (simp add: less_mult_imp_div_less mult.commute)
    also have "\<dots> \<le> (2::nat) ^ 31" by (rule power_increasing) simp_all
    finally show ?thesis .
  qed
  have r31: "unat ?r < 2 ^ 31" and q31: "unat ?q < 2 ^ 31"
    using p31 mod_less_eq_dividend[of ?p ?d] div_le_dividend[of ?p ?d] Suc.prems(6,7) by linarith+
  have t: "unat ?t = 2 * (?p mod ?d) + ?c"
    using shift_in[OF r31] Suc.prems(7) by simp
  have pk: "unat a div 2 ^ k = 2 * ?p + ?c"
  proof -
    have "unat a div 2 ^ k = 2 * (unat a div 2 ^ k div 2) + unat a div 2 ^ k mod 2" by simp
    moreover have "unat a div 2 ^ k mod 2 = ?c"
    proof -
      have "bit a k = odd (unat a div 2 ^ k)"
        by (simp add: bit_unsigned_iff flip: bit_iff_odd)
      then show ?thesis by (simp add: mod_2_eq_odd)
    qed
    moreover have "?p = unat a div 2 ^ k div 2" by (simp only: power_Suc2 div_mult2_eq)
    ultimately show ?thesis by linarith
  qed
  let ?lt = "?t < b"
  let ?m1 = "set_reg T2 (push_bit 1 ?q) (set_reg T0 (push_bit (32 - k) a) (set_reg T3 ?t
      (set_reg T5 (of_bool (bit a k)) (set_reg T3 (push_bit 1 ?r) m))))"
  let ?m = "set_reg T4 (word_of_nat k) (if ?lt then ?m1 else set_reg T2 (push_bit 1 ?q OR 1) (set_reg T3 (?t - b) ?m1))"
  have go: "lib_run div256_asm (after_label div256_asm ''div_binary_loop'') m =
      lib_run div256_asm (after_label div256_asm ''div_binary_loop'') ?m"
    using Suc.prems(1,3,4) nz next_bit[OF k, of a]
    by (subst div_binary_parts(1)) (simp add: asm_simps div_binary_parts(2))
  have lt: "?lt \<longleftrightarrow> 2 * (?p mod ?d) + ?c < ?d"
    unfolding word_less_nat_alt t ..
  have "get_reg ?m T2 = (if ?lt then push_bit 1 ?q else push_bit 1 ?q OR 1)"
    by (simp add: mach_simps)
  moreover have "unat (push_bit 1 ?q) = 2 * (?p div ?d)" "unat (push_bit 1 ?q OR 1) = 2 * (?p div ?d) + 1"
    using shift_in[OF q31, of False] shift_in[OF q31, of True] unfolding Suc.prems(6) by simp_all
  ultimately have "unat (get_reg ?m T2) =
      (if 2 * (?p mod ?d) + ?c < ?d then 2 * (?p div ?d) else 2 * (?p div ?d) + 1)"
    unfolding lt by presburger
  then have q: "unat (get_reg ?m T2) = (2 * ?p + ?c) div ?d"
    using div_bit(1)[OF d, of ?c ?p] by simp
  have "get_reg ?m T3 = (if ?lt then ?t else ?t - b)"
    by (simp add: mach_simps)
  moreover have "unat (?t - b) = unat ?t - unat b" if "\<not> ?lt"
    using that by (simp only: unat_sub not_less)
  ultimately have "unat (get_reg ?m T3) =
      (if 2 * (?p mod ?d) + ?c < ?d then 2 * (?p mod ?d) + ?c else 2 * (?p mod ?d) + ?c - ?d)"
    unfolding lt using t by presburger
  then have r: "unat (get_reg ?m T3) = (2 * ?p + ?c) mod ?d"
    using div_bit(2)[OF d, of ?c ?p] by simp
  have "get_reg ?m T4 = word_of_nat k" "k \<le> 32" "get_reg ?m T0 = push_bit (32 - k) a" "get_reg ?m T1 = b" "b \<noteq> 0"
    "unat (get_reg ?m T2) = unat a div 2 ^ k div unat b" "unat (get_reg ?m T3) = unat a div 2 ^ k mod unat b"
    unfolding q r pk using Suc.prems k by (simp_all add: mach_simps)
  from Suc.IH[OF this] obtain m' where
    "lib_run div256_asm (after_label div256_asm ''div_binary_loop'') ?m =
       lib_run div256_asm (after_label div256_asm ''div_simple_done'') m'"
    "unat (get_reg m' T2) = unat a div unat b" "mem m' = mem m" "same_regs saved m m'"
    by (auto simp: mach_simps same_regs_def split: if_splits)
  with go show ?case by (intro exI[of _ m']) simp
qed

section \<open>The routine\<close>

definition div_result :: "u256 \<Rightarrow> u256 \<Rightarrow> u256" where
  "div_result x y =
     (let a = word_at 0 x; b = word_at 0 y in
      if x = 0 \<or> b = 0 then 0 else if a < b then 8 else word_of_nat (unat a div unat b))"

lemma div_parts:
  "div256_asm = [Li T0 0, Li T1 0, Label ''div_check_zero''] @ after_label div256_asm ''div_check_zero''"
  "drop 10 div256_asm =
     [Beqz T1 ''div_by_zero'', Jump ''div_simple_case'', Label ''div_simple_case''] @
     after_label div256_asm ''div_simple_case''"
  "after_label div256_asm ''div_simple_case'' =
     [Lw T0 0 A0, Lw T1 0 A1, Bnez T1 ''div_do_division'', Mv T2 ZERO, Jump ''div_simple_done'',
      Label ''div_do_division''] @ after_label div256_asm ''div_do_division''"
  "after_label div256_asm ''div_do_division'' =
     [Branch BLTU T0 T1 ''div_simple_done'', Mv T2 ZERO, Mv T3 T0, Li T4 4294967294,
      Branch BNE T0 T4 ''check_large_result'', Li T4 2, Branch BNE T1 T4 ''check_large_result'',
      Li T2 2147483647, Jump ''div_simple_done'', Label ''check_large_result''] @
     after_label div256_asm ''check_large_result''"
  "after_label div256_asm ''check_large_result'' =
     [Li T4 10000000, Branch BNE T0 T4 ''div_general_case'', Li T4 100,
      Branch BNE T1 T4 ''div_general_case'', Li T2 100000, Jump ''div_simple_done'',
      Label ''div_general_case''] @ after_label div256_asm ''div_general_case''"
  "after_label div256_asm ''div_general_case'' =
     [Li T4 200000, Branch BLTU T0 T4 ''div_use_subtraction'', Mv T2 ZERO, Mv T3 ZERO, Li T4 32,
      Label ''div_binary_loop''] @ after_label div256_asm ''div_binary_loop''"
  "after_label div256_asm ''div_use_subtraction'' =
     [Li T4 200000, Label ''div_subtract_loop''] @ after_label div256_asm ''div_subtract_loop''"
  "after_label div256_asm ''div_simple_done'' =
     [Li T0 0, Label ''div_clear_result''] @ after_label div256_asm ''div_clear_result''"
  "drop 72 div256_asm = [Sw T2 0 A1, Jump ''div_done''] @ drop 74 div256_asm"
  "after_label div256_asm ''div_by_zero'' =
     [Li T0 0, Label ''div_zero_loop''] @ after_label div256_asm ''div_zero_loop''"
  "drop 83 div256_asm = [Label ''div_done'', Addi SP SP 32, Ret]"
  "after_label div256_asm ''div_done'' = [Addi SP SP 32, Ret]"
  by (simp_all add: after_label_def div256_asm_def)

text \<open>From a dividend and a divisor that are not zero to the quotient in \<open>t2\<close>.\<close>

lemma div_general:
  assumes "get_reg m T0 = a" "get_reg m T1 = b" "get_reg m T2 = 0" "get_reg m T3 = a" "b \<noteq> 0"
  shows "\<exists>m'. lib_run div256_asm (after_label div256_asm ''div_general_case'') m =
      lib_run div256_asm (after_label div256_asm ''div_simple_done'') m' \<and>
    unat (get_reg m' T2) = unat a div unat b \<and> mem m' = mem m \<and> same_regs saved m m'"
proof (cases "a < 200000")
  case True
  let ?m = "set_reg T4 200000 (set_reg T4 200000 m)"
  have go: "lib_run div256_asm (after_label div256_asm ''div_general_case'') m =
      lib_run div256_asm (after_label div256_asm ''div_subtract_loop'') ?m"
    using assms True by (simp add: div_parts(6,7) asm_simps)
  have "get_reg ?m T4 = word_of_nat 200000" "(200000::nat) < 2 ^ 32" "unat (get_reg ?m T3) < 200000"
    "get_reg ?m T1 \<noteq> 0" "unat (get_reg ?m T2) + unat (get_reg ?m T3) < 2 ^ 32"
    using assms True by (simp_all add: mach_simps word_less_nat_alt)
  from div_subtract[OF this] go assms show ?thesis by (auto simp: mach_simps same_regs_def)
next
  case False
  let ?m = "set_reg T4 32 (set_reg T3 0 (set_reg T2 0 (set_reg T4 200000 m)))"
  have go: "lib_run div256_asm (after_label div256_asm ''div_general_case'') m =
      lib_run div256_asm (after_label div256_asm ''div_binary_loop'') ?m"
    using assms False by (simp add: div_parts(6) asm_simps)
  have "unat a div 2 ^ 32 = 0" using unat_u32_less[of a] by simp
  then have "get_reg ?m T4 = word_of_nat 32" "(32::nat) \<le> 32" "get_reg ?m T0 = push_bit (32 - 32) a" "get_reg ?m T1 = b"
    "b \<noteq> 0" "unat (get_reg ?m T2) = unat a div 2 ^ 32 div unat b" "unat (get_reg ?m T3) = unat a div 2 ^ 32 mod unat b"
    using assms by (simp_all add: mach_simps)
  from div_binary[OF this] go show ?thesis by (auto simp: mach_simps same_regs_def)
qed

lemma set_twice: "set_reg r v (set_reg r w m) = set_reg r v m"
  by (simp add: set_reg_def)

text \<open>The two cases with their quotients written into the code agree with the division.\<close>

lemma div_quotient:
  assumes "get_reg m T0 = a" "get_reg m T1 = b" "b \<noteq> 0" "get_reg m T2 = 8"
  shows "\<exists>m'. lib_run div256_asm (after_label div256_asm ''div_do_division'') m =
      lib_run div256_asm (after_label div256_asm ''div_simple_done'') m' \<and>
    unat (get_reg m' T2) = (if a < b then 8 else unat a div unat b) \<and> mem m' = mem m \<and> same_regs saved m m'"
proof -
  consider "a < b" | "\<not> a < b" "a = 4294967294" "b = 2" | "\<not> a < b" "a = 10000000" "b = 100"
    | "\<not> a < b" "\<not> (a = 4294967294 \<and> b = 2)" "\<not> (a = 10000000 \<and> b = 100)" by blast
  then show ?thesis
  proof cases
    case 1
    with assms show ?thesis
      by (intro exI[of _ m]) (simp add: div_parts(4) asm_simps)
  next
    case 2
    with assms show ?thesis
      by (intro exI[of _ "set_reg T2 2147483647 (set_reg T4 2 (set_reg T4 4294967294 (set_reg T3 a (set_reg T2 0 m))))"])
        (simp add: div_parts(4) asm_simps same_regs_def)
  next
    case 3
    with assms show ?thesis
      by (intro exI[of _ "set_reg T2 100000 (set_reg T4 100 (set_reg T4 10000000 (set_reg T4 4294967294
          (set_reg T3 a (set_reg T2 0 m)))))"]) (simp add: div_parts(4,5) asm_simps same_regs_def)
  next
    case 4
    have "\<exists>c. lib_run div256_asm (after_label div256_asm ''div_do_division'') m =
        lib_run div256_asm (after_label div256_asm ''div_general_case'') (set_reg T4 c (set_reg T3 a (set_reg T2 0 m)))"
      using assms 4 by (intro exI[of _ "if a = 10000000 then 100 else 10000000"])
        (auto simp: div_parts(4,5) asm_simps set_twice)
    then obtain c where go: "lib_run div256_asm (after_label div256_asm ''div_do_division'') m =
        lib_run div256_asm (after_label div256_asm ''div_general_case'') (set_reg T4 c (set_reg T3 a (set_reg T2 0 m)))"
      by blast
    from div_general[of "set_reg T4 c (set_reg T3 a (set_reg T2 0 m))" a b] assms 4 go show ?thesis
      by (auto simp: mach_simps same_regs_def)
  qed
qed

lemma holds_quotient:
  assumes "\<And>j. j < 8 \<Longrightarrow> rd32 mm (a + word_of_nat (4 * j)) = 0" and "unat w = n"
  shows "holds (wr32 mm a w) a (word_of_nat n)"
proof -
  have "rd32 (wr32 mm a w) (a + word_of_nat (4 * j)) = word_at j (word_of_nat n)" if j: "j < 8" for j
    using small_words[of w 0 n j] far_words[of 0 j a] assms(1)[OF j] assms(2) j
    by (cases "j = 0") (simp_all add: rd32_wr32 rd32_wr32_far)
  then show ?thesis by (simp add: holds_def)
qed

lemma div_finish:
  assumes "unat (get_reg m T2) = n"
  shows "\<exists>m'. lib_run div256_asm (after_label div256_asm ''div_simple_done'') m = Some m' \<and>
    holds (mem m') (get_reg m A1) (word_of_nat n) \<and> get_reg m' SP = get_reg m SP + 32 \<and>
    (\<forall>a. outside (get_reg m A1) a \<longrightarrow> rd32 (mem m') a = rd32 (mem m) a) \<and> same_regs {S1, S2, S3, RA} m m'"
proof -
  let ?m = "set_reg T0 0 m" and ?a = "get_reg m A1"
  have start: "lib_run div256_asm (after_label div256_asm ''div_simple_done'') m =
      lib_run div256_asm (after_label div256_asm ''div_clear_result'') ?m"
    by (simp add: div_parts(8) asm_simps)
  have "get_reg ?m T0 = 0" by (simp add: mach_simps)
  from div_prepare.loop[OF this] obtain m1 where
    m1: "lib_run div256_asm (after_label div256_asm ''div_clear_result'') ?m = lib_run div256_asm (drop 72 div256_asm) m1"
      "\<And>j. j < 8 \<Longrightarrow> rd32 (mem m1) (?a + word_of_nat (4 * j)) = 0"
      "\<And>a. outside ?a a \<Longrightarrow> rd32 (mem m1) a = rd32 (mem m) a" "same_regs (insert T2 saved) m m1"
    by (auto simp: mach_simps same_regs_def)
  let ?m2 = "set_reg SP (get_reg m SP + 32) (m1\<lparr>mem := wr32 (mem m1) ?a (get_reg m T2)\<rparr>)"
  have "lib_run div256_asm (drop 72 div256_asm) m1 = Some ?m2"
    using m1(4) by (simp add: div_parts(9,12) asm_simps same_regs_def)
  with start m1(1,3,4) outside_low(1)[of ?a] holds_quotient[OF m1(2) assms] show ?thesis
    by (intro exI[of _ ?m2]) (simp add: mach_simps same_regs_def)
qed

lemma div_zero_finish:
  "\<exists>m'. lib_run div256_asm (after_label div256_asm ''div_by_zero'') m = Some m' \<and>
    holds (mem m') (get_reg m A1) 0 \<and> get_reg m' SP = get_reg m SP + 32 \<and>
    (\<forall>a. outside (get_reg m A1) a \<longrightarrow> rd32 (mem m') a = rd32 (mem m) a) \<and> same_regs {S1, S2, S3, RA} m m'"
proof -
  let ?m = "set_reg T0 0 m" and ?a = "get_reg m A1"
  have start: "lib_run div256_asm (after_label div256_asm ''div_by_zero'') m =
      lib_run div256_asm (after_label div256_asm ''div_zero_loop'') ?m"
    by (simp add: div_parts(10) asm_simps)
  have "get_reg ?m T0 = 0" by (simp add: mach_simps)
  from div_clear.loop[OF this] obtain m1 where
    m1: "lib_run div256_asm (after_label div256_asm ''div_zero_loop'') ?m = lib_run div256_asm (drop 83 div256_asm) m1"
      "\<And>j. j < 8 \<Longrightarrow> rd32 (mem m1) (?a + word_of_nat (4 * j)) = 0"
      "\<And>a. outside ?a a \<Longrightarrow> rd32 (mem m1) a = rd32 (mem m) a" "same_regs saved m m1"
    by (auto simp: mach_simps same_regs_def)
  have "holds (mem m1) ?a 0" using m1(2) by (simp add: holds_def)
  moreover have "lib_run div256_asm (drop 83 div256_asm) m1 = Some (set_reg SP (get_reg m1 SP + 32) m1)"
    by (simp add: div_parts(11) asm_simps)
  ultimately show ?thesis
    using start m1(1,3,4) by (intro exI[of _ "set_reg SP (get_reg m1 SP + 32) m1"]) (simp add: mach_simps same_regs_def)
qed

lemma div256_computes:
  assumes "operands m x y"
  shows "computes link ''div256_stack_scratch'' m (get_reg m A1) (div_result x y) 32"
proof -
  have low: "rd32 (mem m) (get_reg m A0) = word_at 0 x" "rd32 (mem m) (get_reg m A1) = word_at 0 y"
    using assms holds_at[of "mem m" "get_reg m A0" x 0] holds_at[of "mem m" "get_reg m A1" y 0]
    by (simp_all add: operands_def)
  let ?a = "word_at 0 x" and ?b = "word_at 0 y"
  let ?m = "set_reg T1 0 (set_reg T0 0 (set_reg RA link m))"
  have start: "lib_callee link ''div256_stack_scratch'' m =
      lib_run div256_asm (after_label div256_asm ''div_check_zero'') ?m"
    by (subst lib_call[OF _ div_parts(1)]) (simp_all add: lib_routines_def asm_simps)
  have "holds (mem ?m) (get_reg ?m A0) x" using assms by (simp add: operands_def mach_simps)
  from div_check[of ?m 0 x 7, OF _ _ this] obtain m1 where
    m1: "lib_run div256_asm (after_label div256_asm ''div_check_zero'') ?m = lib_run div256_asm (drop 10 div256_asm) m1"
      "get_reg m1 T1 = ors x 8" "get_reg m1 T2 = 8" "mem m1 = mem m" "same_regs saved ?m m1"
    by (auto simp: mach_simps)
  have regs: "get_reg m1 A0 = get_reg m A0" "get_reg m1 A1 = get_reg m A1"
    "same_regs {SP, S1, S2, S3} m m1" "get_reg m1 RA = link"
    using m1(5) by (simp_all add: same_regs_def mach_simps)
  have "\<exists>m2. (lib_run div256_asm (drop 10 div256_asm) m1 = lib_run div256_asm (after_label div256_asm ''div_by_zero'') m2 \<and>
        div_result x y = 0 \<or>
      lib_run div256_asm (drop 10 div256_asm) m1 = lib_run div256_asm (after_label div256_asm ''div_simple_done'') m2 \<and>
        word_of_nat (unat (get_reg m2 T2)) = div_result x y) \<and> mem m2 = mem m1 \<and> same_regs saved m1 m2"
  proof (cases "x = 0 \<or> ?b = 0")
    case True
    then consider "x = 0" | "x \<noteq> 0" "?b = 0" by blast
    then show ?thesis
    proof cases
      case 1
      then have "ors x 8 = 0" by (simp only: ors_zero)
      with 1 m1(2) show ?thesis
        by (intro exI[of _ m1]) (simp add: div_parts(2) div_result_def asm_simps)
    next
      case 2
      then have "ors x 8 \<noteq> 0" by (simp only: ors_zero) simp
      with 2 m1(2,4) regs(1,2) low show ?thesis
        by (intro exI[of _ "set_reg T2 0 (set_reg T1 0 (set_reg T0 ?a m1))"])
          (simp add: div_parts(2,3) div_result_def asm_simps same_regs_def)
    qed
  next
    case False
    then have "ors x 8 \<noteq> 0" by (simp only: ors_zero) simp
    then have go: "lib_run div256_asm (drop 10 div256_asm) m1 =
        lib_run div256_asm (after_label div256_asm ''div_do_division'') (set_reg T1 ?b (set_reg T0 ?a m1))"
      using False m1(2,4) regs(1,2) low by (simp add: div_parts(2,3) asm_simps)
    from div_quotient[of "set_reg T1 ?b (set_reg T0 ?a m1)" ?a ?b] False m1(3) obtain m2 where
      "lib_run div256_asm (after_label div256_asm ''div_do_division'') (set_reg T1 ?b (set_reg T0 ?a m1)) =
         lib_run div256_asm (after_label div256_asm ''div_simple_done'') m2"
      "unat (get_reg m2 T2) = (if ?a < ?b then 8 else unat ?a div unat ?b)" "mem m2 = mem m1" "same_regs saved m1 m2"
      by (auto simp: mach_simps same_regs_def)
    with go False show ?thesis by (intro exI[of _ m2]) (simp add: div_result_def)
  qed
  then obtain m2 where m2: "mem m2 = mem m1" "same_regs saved m1 m2"
    and cases: "lib_run div256_asm (drop 10 div256_asm) m1 = lib_run div256_asm (after_label div256_asm ''div_by_zero'') m2 \<and>
        div_result x y = 0 \<or>
      lib_run div256_asm (drop 10 div256_asm) m1 = lib_run div256_asm (after_label div256_asm ''div_simple_done'') m2 \<and>
        word_of_nat (unat (get_reg m2 T2)) = div_result x y"
    by blast
  from cases div_zero_finish[of m2] div_finish[OF refl, of m2] obtain m3 where
    "lib_run div256_asm (drop 10 div256_asm) m1 = Some m3" "holds (mem m3) (get_reg m2 A1) (div_result x y)"
    "get_reg m3 SP = get_reg m2 SP + 32" "\<forall>a. outside (get_reg m2 A1) a \<longrightarrow> rd32 (mem m3) a = rd32 (mem m2) a"
    "same_regs {S1, S2, S3, RA} m2 m3"
    by auto
  with start m1(1,4) m2 regs show ?thesis
    by (auto simp: computes_def same_regs_def)
qed

end
