(* ===== verification/LibShift.thy ===== *)
theory LibShift
  imports LibRoutines
begin

text \<open>
  The shifts of the library. Both move whole words first and then bits, with a carry from word to
  word; the theory gives what they compute on the eight words of the value, as the code does it:
  \<open>shr\<close> walks from the lowest word up and moves words up, \<open>shl\<close> from the highest down and moves
  words down, and both pass the top bits of a word on to the next one they visit.
\<close>

unbundle bit_operations_syntax

section \<open>Words of a slot as a list\<close>

definition slot_words :: "memory \<Rightarrow> u32 \<Rightarrow> u32 list" where
  "slot_words mm a = map (\<lambda>j. rd32 mm (a + word_of_nat (4 * j))) [0..<8]"

lemma length_slot_words [simp]: "length (slot_words mm a) = 8"
  by (simp add: slot_words_def)

lemma nth_slot_words: "j < 8 \<Longrightarrow> slot_words mm a ! j = rd32 mm (a + word_of_nat (4 * j))"
  by (simp add: slot_words_def)

lemma slot_words_wr32:
  "i < 8 \<Longrightarrow> slot_words (wr32 mm (a + word_of_nat (4 * i)) v) a = (slot_words mm a)[i := v]"
  by (rule nth_equalityI)
    (auto simp: nth_slot_words nth_list_update rd32_wr32 rd32_wr32_far far_words simp del: of_nat_mult)

definition of_words :: "u32 list \<Rightarrow> u256" where
  "of_words ws = foldr (\<lambda>w v. push_bit 32 v OR ucast w) ws 0"

lemma word_at_shifted:
  "word_at 0 (push_bit 32 v OR ucast (w :: u32)) = w"
  "j < 7 \<Longrightarrow> word_at (Suc j) (push_bit 32 v OR ucast (w :: u32)) = word_at j v"
proof -
  show "word_at 0 (push_bit 32 v OR ucast w) = w"
    by (rule bit_word_eqI) (auto simp: word_at_def bit_simps)
  show "word_at (Suc j) (push_bit 32 v OR ucast w) = word_at j v" if "j < 7"
    using that by (intro bit_word_eqI) (auto simp: word_at_def bit_simps dest: bit_imp_le_length)
qed

lemma word_at_of_words: "length ws \<le> 8 \<Longrightarrow> j < length ws \<Longrightarrow> word_at j (of_words ws) = ws ! j"
proof (induction ws arbitrary: j)
  case (Cons w ws)
  then show ?case by (cases j) (simp_all add: of_words_def word_at_shifted)
qed simp

lemma holds_slot_words: "holds mm a v \<longleftrightarrow> slot_words mm a = map (\<lambda>j. word_at j v) [0..<8]"
  by (auto simp: holds_def slot_words_def)

lemma holds_of_words: "slot_words mm a = ws \<Longrightarrow> holds mm a (of_words ws)"
proof -
  assume ws: "slot_words mm a = ws"
  then have "length ws = 8" using length_slot_words by metis
  moreover have "rd32 mm (a + word_of_nat (4 * i)) = ws ! i" if "i < 8" for i
    using nth_slot_words[OF that] ws by metis
  ultimately show ?thesis by (simp add: holds_def word_at_of_words del: of_nat_mult)
qed

section \<open>Moving words\<close>

text \<open>
  Word \<open>o k\<close> is copied to \<open>o (k + w)\<close>, one after the other, and the words left over at the end are
  cleared.
\<close>

fun copies :: "(nat \<Rightarrow> nat) \<Rightarrow> nat \<Rightarrow> nat \<Rightarrow> nat \<Rightarrow> u32 list \<Rightarrow> u32 list" where
  "copies ord w 0 k ws = ws"
| "copies ord w (Suc n) k ws = copies ord w n (Suc k) (ws[ord (k + w) := ws ! ord k])"

fun clears :: "(nat \<Rightarrow> nat) \<Rightarrow> nat \<Rightarrow> nat \<Rightarrow> u32 list \<Rightarrow> u32 list" where
  "clears ord 0 k ws = ws"
| "clears ord (Suc n) k ws = clears ord n (Suc k) (ws[ord k := 0])"

definition moved :: "(nat \<Rightarrow> nat) \<Rightarrow> nat \<Rightarrow> u32 list \<Rightarrow> u32 list" where
  "moved ord w ws = clears ord w (8 - w) (copies ord w (8 - w) 0 ws)"

locale word_move =
  fixes P hd_code zero_code next_code :: "asm list" and ord :: "nat \<Rightarrow> nat" and pos :: "nat \<Rightarrow> u32"
    and kept :: "reg set"
  assumes ord_small: "k < 8 \<Longrightarrow> ord k < 8" and a0_kept: "A0 \<in> kept"
    and copy_turn: "get_reg m T0 = pos k \<Longrightarrow> get_reg m T2 = pos (k + w) \<Longrightarrow> k + w < 8 \<Longrightarrow> 0 < w \<Longrightarrow>
      \<exists>m'. lib_run P hd_code m = lib_run P hd_code m' \<and>
        mem m' = wr32 (mem m) (get_reg m A0 + word_of_nat (4 * ord (k + w)))
          (rd32 (mem m) (get_reg m A0 + word_of_nat (4 * ord k))) \<and>
        get_reg m' T0 = pos (Suc k) \<and> get_reg m' T2 = pos (Suc k + w) \<and> same_regs kept m m'"
    and switch: "get_reg m T2 = pos 8 \<Longrightarrow>
      \<exists>m'. lib_run P hd_code m = lib_run P zero_code m' \<and> mem m' = mem m \<and>
        get_reg m' T0 = get_reg m T0 \<and> get_reg m' T2 = pos 8 \<and> same_regs kept m m'"
    and zero_turn: "get_reg m T0 = pos k \<Longrightarrow> get_reg m T2 = pos 8 \<Longrightarrow> k < 8 \<Longrightarrow>
      \<exists>m'. lib_run P zero_code m = lib_run P (if k < 7 then hd_code else next_code) m' \<and>
        mem m' = wr32 (mem m) (get_reg m A0 + word_of_nat (4 * ord k)) 0 \<and>
        get_reg m' T0 = pos (Suc k) \<and> get_reg m' T2 = pos 8 \<and> same_regs kept m m'"
begin

abbreviation ends :: "asm list \<Rightarrow> asm list \<Rightarrow> mach \<Rightarrow> mach \<Rightarrow> u32 list \<Rightarrow> bool" where
  "ends c c' m m' ws \<equiv> lib_run P c m = lib_run P c' m' \<and> slot_words (mem m') (get_reg m A0) = ws \<and>
     (\<forall>a. outside (get_reg m A0) a \<longrightarrow> rd32 (mem m') a = rd32 (mem m) a) \<and> same_regs kept m m'"

lemma copying:
  assumes "get_reg m T0 = pos k" "get_reg m T2 = pos (k + w)" "k + n + w = 8" "0 < w"
  shows "\<exists>m'. ends hd_code hd_code m m' (copies ord w n k (slot_words (mem m) (get_reg m A0))) \<and>
    get_reg m' T0 = pos (k + n) \<and> get_reg m' T2 = pos 8"
  using assms
proof (induction n arbitrary: k m)
  case 0
  then show ?case by (intro exI[of _ m]) simp
next
  case (Suc n)
  then have small: "k + w < 8" "k < 8" by simp_all
  from copy_turn[OF Suc.prems(1,2) small(1) Suc.prems(4)] obtain m1 where
    m1: "lib_run P hd_code m = lib_run P hd_code m1"
      "mem m1 = wr32 (mem m) (get_reg m A0 + word_of_nat (4 * ord (k + w)))
         (rd32 (mem m) (get_reg m A0 + word_of_nat (4 * ord k)))"
      "get_reg m1 T0 = pos (Suc k)" "get_reg m1 T2 = pos (Suc k + w)" "same_regs kept m m1"
    by blast
  have a: "get_reg m1 A0 = get_reg m A0" using m1(5) a0_kept by (auto simp: same_regs_def)
  have ws: "slot_words (mem m1) (get_reg m A0) =
      (slot_words (mem m) (get_reg m A0))[ord (k + w) := slot_words (mem m) (get_reg m A0) ! ord k]"
    unfolding m1(2) using ord_small[OF small(1)] ord_small[OF small(2)]
    by (simp add: slot_words_wr32 nth_slot_words del: of_nat_mult)
  have out: "outside (get_reg m A0) b \<Longrightarrow> rd32 (mem m1) b = rd32 (mem m) b" for b
    unfolding m1(2) using ord_small[OF small(1)] by (simp add: outside_def rd32_wr32_far)
  have "Suc k + n + w = 8" using Suc.prems(3) by simp
  from Suc.IH[OF m1(3,4) this Suc.prems(4)] obtain m2 where
    "ends hd_code hd_code m1 m2 (copies ord w n (Suc k) (slot_words (mem m1) (get_reg m1 A0)))"
    "get_reg m2 T0 = pos (Suc k + n)" "get_reg m2 T2 = pos 8"
    by blast
  with m1(1) ws out a same_regs_trans[OF m1(5)] show ?case
    by (intro exI[of _ m2]) simp
qed

lemma clearing:
  assumes "get_reg m T0 = pos k" "get_reg m T2 = pos 8" "k + Suc n = 8"
  shows "\<exists>m'. ends zero_code next_code m m' (clears ord (Suc n) k (slot_words (mem m) (get_reg m A0)))"
  using assms
proof (induction n arbitrary: k m)
  case 0
  then have k: "k = 7" by simp
  from zero_turn[OF 0(1,2)] k obtain m1 where
    m1: "lib_run P zero_code m = lib_run P next_code m1"
      "mem m1 = wr32 (mem m) (get_reg m A0 + word_of_nat (4 * ord k)) 0" "same_regs kept m m1"
    by auto
  with k ord_small[of k] show ?case
    by (intro exI[of _ m1]) (simp add: slot_words_wr32 outside_def rd32_wr32_far del: of_nat_mult)
next
  case (Suc n)
  then have k: "k < 7" "k < 8" by simp_all
  from zero_turn[OF Suc.prems(1,2) k(2)] k(1) obtain m0 where
    m0: "lib_run P zero_code m = lib_run P hd_code m0"
      "mem m0 = wr32 (mem m) (get_reg m A0 + word_of_nat (4 * ord k)) 0" "get_reg m0 T0 = pos (Suc k)"
      "get_reg m0 T2 = pos 8" "same_regs kept m m0"
    by auto
  from switch[OF m0(4)] obtain m1 where
    "lib_run P hd_code m0 = lib_run P zero_code m1" "mem m1 = mem m0" "get_reg m1 T0 = get_reg m0 T0"
    "get_reg m1 T2 = pos 8" "same_regs kept m0 m1"
    by blast
  with m0 have m1: "lib_run P zero_code m = lib_run P zero_code m1"
      "mem m1 = wr32 (mem m) (get_reg m A0 + word_of_nat (4 * ord k)) 0" "get_reg m1 T0 = pos (Suc k)"
      "get_reg m1 T2 = pos 8" "same_regs kept m m1"
    by (simp_all add: same_regs_def)
  have a: "get_reg m1 A0 = get_reg m A0" using m1(5) a0_kept by (auto simp: same_regs_def)
  have ws: "slot_words (mem m1) (get_reg m A0) = (slot_words (mem m) (get_reg m A0))[ord k := 0]"
    unfolding m1(2) using ord_small[OF k(2)] by (simp add: slot_words_wr32 del: of_nat_mult)
  have out: "outside (get_reg m A0) b \<Longrightarrow> rd32 (mem m1) b = rd32 (mem m) b" for b
    unfolding m1(2) using ord_small[OF k(2)] by (simp add: outside_def rd32_wr32_far)
  have "Suc k + Suc n = 8" using Suc.prems(3) by simp
  from Suc.IH[OF m1(3,4) this] obtain m2 where
    "ends zero_code next_code m1 m2 (clears ord (Suc n) (Suc k) (slot_words (mem m1) (get_reg m1 A0)))"
    by blast
  with m1(1) ws out a same_regs_trans[OF m1(5)] show ?case
    by (intro exI[of _ m2]) simp
qed

lemma moves_words:
  assumes "get_reg m T0 = pos 0" "get_reg m T2 = pos w" "0 < w" "w < 8"
  shows "\<exists>m'. ends hd_code next_code m m' (moved ord w (slot_words (mem m) (get_reg m A0)))"
proof -
  from copying[of m 0 w "8 - w"] assms obtain m1 where
    m1: "ends hd_code hd_code m m1 (copies ord w (8 - w) 0 (slot_words (mem m) (get_reg m A0)))"
      "get_reg m1 T0 = pos (8 - w)" "get_reg m1 T2 = pos 8"
    by auto
  from switch[OF m1(3)] obtain m2 where
    m2: "lib_run P hd_code m1 = lib_run P zero_code m2" "mem m2 = mem m1" "get_reg m2 T0 = get_reg m1 T0"
      "get_reg m2 T2 = pos 8" "same_regs kept m1 m2"
    by blast
  have regs: "same_regs kept m m2" using m1(1) m2(5) same_regs_trans by blast
  then have a: "get_reg m2 A0 = get_reg m A0" using a0_kept by (auto simp: same_regs_def)
  obtain n where n: "w = Suc n" using assms(3) by (cases w) simp_all
  then have "get_reg m2 T0 = pos (8 - w)" "get_reg m2 T2 = pos 8" "8 - w + Suc n = 8"
    using m1(2) m2(3,4) assms(4) by simp_all
  from clearing[OF this] obtain m3 where
    "ends zero_code next_code m2 m3 (clears ord (Suc n) (8 - w) (slot_words (mem m2) (get_reg m2 A0)))"
    by blast
  with m1(1) m2(1,2) a n same_regs_trans[OF regs] show ?thesis
    by (intro exI[of _ m3]) (simp add: moved_def)
qed

end

section \<open>The code of the shifts\<close>

lemma shr_code:
  "shr256_asm =
     [Lw T6 0 A1, Li T0 256, Branch BGEU T6 T0 ''shr_zero_result'', Li T0 32,
      Branch BLT T6 T0 ''shr_bit_shift'', AluI RV_SRL T1 T6 5, AluI RV_AND T6 T6 31, Li T0 0,
      Alu RV_ADD T2 T0 T1, Label ''shr_word_loop''] @ after_label shr256_asm ''shr_word_loop''"
  "after_label shr256_asm ''shr_word_loop'' =
     [Li T3 8, Branch BGE T2 T3 ''shr_word_zero'', AluI RV_SLL T4 T2 2, Alu RV_ADD T5 A0 T4,
      AluI RV_SLL T4 T0 2, Alu RV_ADD T3 A0 T4, Lw T4 0 T3, Sw T4 0 T5, Addi T0 T0 1,
      Addi T2 T2 1, Li T3 8, Branch BLT T0 T3 ''shr_word_loop'', Jump ''shr_bit_shift_check''] @ drop 23 shr256_asm"
  "after_label shr256_asm ''shr_word_zero'' =
     [AluI RV_SLL T4 T0 2, Alu RV_ADD T5 A0 T4, Sw ZERO 0 T5, Addi T0 T0 1, Li T3 8,
      Branch BLT T0 T3 ''shr_word_loop'', Label ''shr_bit_shift_check''] @ after_label shr256_asm ''shr_bit_shift_check''"
  "after_label shr256_asm ''shr_bit_shift_check'' =
     [Beqz T6 ''shr_done'', Label ''shr_bit_shift''] @ after_label shr256_asm ''shr_bit_shift''"
  "after_label shr256_asm ''shr_bit_shift'' =
     [Li T0 0, Li T1 0, Label ''shr_bit_loop''] @ after_label shr256_asm ''shr_bit_loop''"
  "drop 51 shr256_asm = Jump ''shr_done'' # drop 52 shr256_asm"
  "after_label shr256_asm ''shr_zero_result'' =
     [Li T0 0, Label ''shr_zero_loop''] @ after_label shr256_asm ''shr_zero_loop''"
  "drop 61 shr256_asm = Label ''shr_done'' # after_label shr256_asm ''shr_done''"
  "after_label shr256_asm ''shr_done'' = [Addi SP SP 32, Ret]"
  by (simp_all add: after_label_def shr256_asm_def)

lemma shl_code:
  "shl256_asm =
     [Lw T6 0 A1, Li T0 256, Branch BGEU T6 T0 ''shl_zero_result'', Li T0 32,
      Branch BLT T6 T0 ''shl_bit_shift'', AluI RV_SRL T1 T6 5, AluI RV_AND T6 T6 31, Li T0 7,
      Alu RV_SUB T2 T0 T1, Label ''shl_word_loop''] @ after_label shl256_asm ''shl_word_loop''"
  "after_label shl256_asm ''shl_word_loop'' =
     [Bltz T2 ''shl_word_zero'', AluI RV_SLL T4 T2 2, Alu RV_ADD T5 A0 T4,
      AluI RV_SLL T4 T0 2, Alu RV_ADD T3 A0 T4, Lw T4 0 T3, Sw T4 0 T5, Addi T0 T0 (-1),
      Addi T2 T2 (-1), Bgez T0 ''shl_word_loop'', Jump ''shl_bit_shift_check''] @ drop 21 shl256_asm"
  "after_label shl256_asm ''shl_word_zero'' =
     [AluI RV_SLL T4 T0 2, Alu RV_ADD T5 A0 T4, Sw ZERO 0 T5, Addi T0 T0 (-1),
      Bgez T0 ''shl_word_loop'', Label ''shl_bit_shift_check''] @ after_label shl256_asm ''shl_bit_shift_check''"
  "after_label shl256_asm ''shl_bit_shift_check'' =
     [Beqz T6 ''shl_done'', Label ''shl_bit_shift''] @ after_label shl256_asm ''shl_bit_shift''"
  "after_label shl256_asm ''shl_bit_shift'' =
     [Li T0 7, Li T1 0, Label ''shl_bit_loop''] @ after_label shl256_asm ''shl_bit_loop''"
  "drop 45 shl256_asm = Jump ''shl_done'' # drop 46 shl256_asm"
  "after_label shl256_asm ''shl_zero_result'' =
     [Li T0 0, Label ''shl_zero_loop''] @ after_label shl256_asm ''shl_zero_loop''"
  "drop 55 shl256_asm = Label ''shl_done'' # after_label shl256_asm ''shl_done''"
  "after_label shl256_asm ''shl_done'' = [Addi SP SP 32, Ret]"
  by (simp_all add: after_label_def shl256_asm_def)

lemma moveI:
  "c = code \<Longrightarrow> lib_run P code m = lib_run P c' m' \<Longrightarrow> Q m' \<Longrightarrow> \<exists>m'. lib_run P c m = lib_run P c' m' \<and> Q m'"
  by auto

lemma sum_sint: "k + w < 8 \<Longrightarrow> sint (word_of_nat k + word_of_nat w :: u32) = int k + int w"
  using idx_sint[of "k + w"] by simp

lemma down_sint: "k + w < 8 \<Longrightarrow> \<not> sint (7 - (word_of_nat k + word_of_nat w) :: u32) < 0"
proof -
  assume "k + w < 8"
  then have "(7 - (word_of_nat k + word_of_nat w) :: u32) = word_of_nat (7 - (k + w))"
    by (simp add: of_nat_diff)
  moreover have "sint (word_of_nat (7 - (k + w)) :: u32) = int (7 - (k + w))"
    by (rule idx_sint) simp
  ultimately have "sint (7 - (word_of_nat k + word_of_nat w) :: u32) = int (7 - (k + w))" by metis
  then show ?thesis by simp
qed

abbreviation shift_regs :: "reg set" where
  "shift_regs \<equiv> insert T6 saved"

interpretation shr_move: word_move shr256_asm "after_label shr256_asm ''shr_word_loop''"
  "after_label shr256_asm ''shr_word_zero''" "after_label shr256_asm ''shr_bit_shift_check''"
  "\<lambda>k. k" word_of_nat shift_regs
proof (unfold_locales, goal_cases)
  case (3 m k w)
  have c: "k + w < 8" "k < 8" "k < 7" "\<not> 8 \<le> int k + int w" using 3(3,4) by simp_all
  from 3(1,2) show ?case
    by (intro moveI[OF shr_code(2)], simp add: asm_simps sum_sint[OF c(1)] idx_up'[OF c(2)] c,
      simp add: asm_simps turn_defs algebra_simps)
next
  case (4 m)
  then show ?case
    by (intro moveI[OF shr_code(2)], simp add: asm_simps, simp add: asm_simps turn_defs)
next
  case (5 m k)
  show ?case
  proof (cases "k < 7")
    case True
    with 5 show ?thesis
      by (simp, intro moveI[OF shr_code(3)], simp add: asm_simps idx_up', simp add: asm_simps turn_defs)
  next
    case False
    then have "k = 7" using 5(3) by simp
    with 5 show ?thesis
      by (simp, intro moveI[OF shr_code(3)], simp add: asm_simps, simp add: asm_simps turn_defs)
  qed
qed simp_all

interpretation shl_move: word_move shl256_asm "after_label shl256_asm ''shl_word_loop''"
  "after_label shl256_asm ''shl_word_zero''" "after_label shl256_asm ''shl_bit_shift_check''"
  "\<lambda>k. 7 - k" "\<lambda>k. 7 - word_of_nat k" shift_regs
proof (unfold_locales, goal_cases)
  case (3 m k w)
  have c: "k + w < 8" "k < 8" "k < 7" using 3(3,4) by simp_all
  from 3(1,2) c show ?case
    by (intro moveI[OF shl_code(2)], simp add: asm_simps down_sint[OF c(1)] idx_down[OF c(2)],
      simp add: asm_simps turn_defs of_nat_diff algebra_simps)
next
  case (4 m)
  then show ?case
    by (intro moveI[OF shl_code(2)], simp add: asm_simps, simp add: asm_simps turn_defs)
next
  case (5 m k)
  show ?case
  proof (cases "k < 7")
    case True
    with 5 show ?thesis
      by (simp, intro moveI[OF shl_code(3)], simp add: asm_simps idx_down,
        simp add: asm_simps turn_defs of_nat_diff)
  next
    case False
    then have "k = 7" using 5(3) by simp
    with 5 show ?thesis
      by (simp, intro moveI[OF shl_code(3)], simp add: asm_simps, simp add: asm_simps turn_defs)
  qed
qed simp_all

text \<open>The loops over bits, for a shift amount \<open>t\<close> in \<open>t6\<close>.\<close>

abbreviation other_bits :: "u32 \<Rightarrow> nat" where
  "other_bits t \<equiv> unat (32 - t) mod 32"

lemmas shr_bits_code = arg_cong[OF shr256_asm_def, of "\<lambda>cs. take 14 (drop 36 cs)", simplified]
lemmas shl_bits_code = arg_cong[OF shl256_asm_def, of "\<lambda>cs. take 11 (drop 33 cs)", simplified]

interpretation shr_bits: ordered_loop shr256_asm "''shr_bit_loop''" "take 14 (drop 36 shr256_asm)" "drop 51 shr256_asm"
  T0 T2 T1 A0 BLT "[A0]" shift_regs "\<lambda>ws c. drop_bit (unat t mod 32) (ws ! 0) OR c"
  "\<lambda>ws c. drop_bit (other_bits t) (push_bit (other_bits t) (drop_bit (other_bits t) (ws ! 0)))" "\<lambda>k. k" "\<lambda>m. get_reg m T6 = t"
  for t
  by (unfold_locales, simp add: after_label_def shr256_asm_def, simp, simp, simp, simp add: same_regs_def,
    rule turnI, simp add: asm_simps shr_bits_code, simp add: asm_simps turn_defs idx_up')

interpretation shl_bits: ordered_loop shl256_asm "''shl_bit_loop''" "take 11 (drop 33 shl256_asm)" "drop 45 shl256_asm"
  T0 ZERO T1 A0 BGE "[A0]" shift_regs "\<lambda>ws c. push_bit (unat t mod 32) (ws ! 0) OR c"
  "\<lambda>ws c. drop_bit (other_bits t) (ws ! 0)" "\<lambda>k. 7 - k" "\<lambda>m. get_reg m T6 = t"
  for t
  by (unfold_locales, simp add: after_label_def shl256_asm_def, simp, simp, simp, simp add: same_regs_def,
    rule turnI, simp add: asm_simps shl_bits_code, simp add: asm_simps turn_defs of_nat_diff idx_down)

section \<open>The routines\<close>

definition shr_bit_words :: "nat \<Rightarrow> u32 list \<Rightarrow> u32 list" where
  "shr_bit_words t ws =
     map (\<lambda>j. drop_bit t (ws ! j) OR (if j = 0 then 0 else drop_bit ((32 - t) mod 32) (ws ! (j - 1)))) [0..<8]"

definition shl_bit_words :: "nat \<Rightarrow> u32 list \<Rightarrow> u32 list" where
  "shl_bit_words t ws =
     map (\<lambda>j. push_bit t (ws ! j) OR (if j = 7 then 0 else drop_bit ((32 - t) mod 32) (ws ! (j + 1)))) [0..<8]"

definition shifted :: "(nat \<Rightarrow> nat) \<Rightarrow> (nat \<Rightarrow> u32 list \<Rightarrow> u32 list) \<Rightarrow> nat \<Rightarrow> u32 list \<Rightarrow> u32 list" where
  "shifted ord bits sh ws =
     (if sh < 32 then bits sh ws
      else let ws' = moved ord (sh div 32) ws in if sh mod 32 = 0 then ws' else bits (sh mod 32) ws')"

definition shift_result :: "(nat \<Rightarrow> nat) \<Rightarrow> (nat \<Rightarrow> u32 list \<Rightarrow> u32 list) \<Rightarrow> u256 \<Rightarrow> u256 \<Rightarrow> u256" where
  "shift_result ord bits x y =
     (let sh = unat (word_at 0 y) in
      if 256 \<le> sh then 0 else of_words (shifted ord bits sh (map (\<lambda>j. word_at j x) [0..<8])))"

definition shr_result :: "u256 \<Rightarrow> u256 \<Rightarrow> u256" where
  "shr_result = shift_result (\<lambda>k. k) shr_bit_words"

definition shl_result :: "u256 \<Rightarrow> u256 \<Rightarrow> u256" where
  "shl_result = shift_result (\<lambda>k. 7 - k) shl_bit_words"

lemma small_shift:
  assumes "n < 32"
  shows "unat (word_of_nat n :: u32) mod 32 = n" "other_bits (word_of_nat n) = (32 - n) mod 32"
proof -
  have n: "unat (word_of_nat n :: u32) = n" using assms by (intro unat_word_of_nat) simp
  with assms show "unat (word_of_nat n :: u32) mod 32 = n" by simp
  have "(word_of_nat n :: u32) \<le> 32" using n assms by (simp add: word_le_nat_alt)
  then have "unat (32 - word_of_nat n :: u32) = 32 - n" using n by (simp add: unat_sub)
  then show "other_bits (word_of_nat n) = (32 - n) mod 32" by simp
qed

lemma down_up: "drop_bit k (push_bit k (drop_bit k (w :: u32))) = drop_bit k w"
  by (rule bit_word_eqI) (auto simp: bit_simps dest: bit_imp_le_length)

lemma accs_const_g:
  "accs (\<lambda>ws c. h (ws ! 0)) (\<lambda>i. ws i) 0 j = (if j = 0 then 0 else h (ws (j - 1) ! 0))"
  by (cases j) simp_all

text \<open>What a run of the shift code from \<open>c\<close> to \<open>c'\<close> does to the slot at \<open>a0\<close>.\<close>

definition reshapes :: "asm list \<Rightarrow> asm list \<Rightarrow> asm list \<Rightarrow> mach \<Rightarrow> u32 list \<Rightarrow> bool" where
  "reshapes P c c' m ws \<longleftrightarrow> (\<exists>m'. lib_run P c m = lib_run P c' m' \<and> slot_words (mem m') (get_reg m A0) = ws \<and>
     (\<forall>a. outside (get_reg m A0) a \<longrightarrow> rd32 (mem m') a = rd32 (mem m) a) \<and> same_regs shift_regs m m')"

lemma reshapesE:
  assumes "reshapes P c c' m ws"
  obtains m' where "lib_run P c m = lib_run P c' m'" "slot_words (mem m') (get_reg m A0) = ws"
    "\<forall>a. outside (get_reg m A0) a \<longrightarrow> rd32 (mem m') a = rd32 (mem m) a" "same_regs shift_regs m m'"
    "get_reg m' A0 = get_reg m A0" "get_reg m' T6 = get_reg m T6"
  using assms by (auto simp: reshapes_def same_regs_def)

lemma reshapes_trans:
  assumes "reshapes P c c' m ws" "\<And>m'. slot_words (mem m') (get_reg m' A0) = ws \<Longrightarrow> get_reg m' T6 = get_reg m T6 \<Longrightarrow>
    reshapes P c' c'' m' ws'"
  shows "reshapes P c c'' m ws'"
proof -
  from assms(1) obtain m1 where m1: "lib_run P c m = lib_run P c' m1" "slot_words (mem m1) (get_reg m A0) = ws"
    "\<forall>a. outside (get_reg m A0) a \<longrightarrow> rd32 (mem m1) a = rd32 (mem m) a" "same_regs shift_regs m m1"
    "get_reg m1 A0 = get_reg m A0" "get_reg m1 T6 = get_reg m T6"
    by (rule reshapesE)
  then have "reshapes P c' c'' m1 ws'" by (intro assms(2)) simp_all
  then obtain m2 where "lib_run P c' m1 = lib_run P c'' m2" "slot_words (mem m2) (get_reg m1 A0) = ws'"
    "\<forall>a. outside (get_reg m1 A0) a \<longrightarrow> rd32 (mem m2) a = rd32 (mem m1) a" "same_regs shift_regs m1 m2"
    "get_reg m2 A0 = get_reg m1 A0" "get_reg m2 T6 = get_reg m1 T6"
    by (rule reshapesE)
  with m1 same_regs_trans[OF m1(4)] show ?thesis by (auto simp: reshapes_def)
qed

lemma shr_bits_reshape:
  assumes "get_reg m T6 = word_of_nat t" "t < 32"
  shows "reshapes shr256_asm (after_label shr256_asm ''shr_bit_shift'') (after_label shr256_asm ''shr_done'') m
    (shr_bit_words t (slot_words (mem m) (get_reg m A0)))"
proof -
  let ?m = "set_reg T1 0 (set_reg T0 0 m)" and ?a = "get_reg m A0"
  have go: "lib_run shr256_asm (after_label shr256_asm ''shr_bit_shift'') m =
      lib_run shr256_asm (after_label shr256_asm ''shr_bit_loop'') ?m"
    by (simp add: shr_code(5) asm_simps)
  have "get_reg ?m T0 = word_of_nat 0" "get_reg ?m T6 = word_of_nat t" using assms by (simp_all add: mach_simps)
  from shr_bits.ordered_exit[OF this] obtain m1 where
    m1: "lib_run shr256_asm (after_label shr256_asm ''shr_bit_loop'') ?m = lib_run shr256_asm (drop 51 shr256_asm) m1"
      "\<And>k. k < 8 \<Longrightarrow> rd32 (mem m1) (?a + word_of_nat (4 * (k))) =
         drop_bit (unat (word_of_nat t :: u32) mod 32) (words_at [A0] (k) ?m ! 0) OR
         accs (\<lambda>ws c. drop_bit (other_bits (word_of_nat t)) (push_bit (other_bits (word_of_nat t)) (drop_bit (other_bits (word_of_nat t)) (ws ! 0))))
           (\<lambda>k. words_at [A0] (k) ?m) 0 k"
      "\<And>a. outside ?a a \<Longrightarrow> rd32 (mem m1) a = rd32 (mem m) a" "same_regs shift_regs m m1"
    by (auto simp: mach_simps same_regs_def)
  have ws: "words_at [A0] j ?m ! 0 = slot_words (mem m) ?a ! j" if "j < 8" for j
    using that by (simp add: words_at_def nth_slot_words mach_simps)
  have "slot_words (mem m1) ?a = shr_bit_words t (slot_words (mem m) ?a)"
  proof (rule nth_equalityI)
    fix j assume "j < length (slot_words (mem m1) ?a)"
    then have j: "j < 8" by simp
    show "slot_words (mem m1) ?a ! j = shr_bit_words t (slot_words (mem m) ?a) ! j"
      unfolding nth_slot_words[OF j] m1(2)[OF j] accs_const_g small_shift[OF assms(2)] down_up
      using j by (simp add: ws shr_bit_words_def)
  qed (simp add: shr_bit_words_def)
  moreover have "lib_run shr256_asm (drop 51 shr256_asm) m1 = lib_run shr256_asm (after_label shr256_asm ''shr_done'') m1"
    by (simp add: shr_code(6) lib_run_simps)
  ultimately show ?thesis
    using go m1(1,3,4) by (auto simp: reshapes_def)
qed

lemma shl_bits_reshape:
  assumes "get_reg m T6 = word_of_nat t" "t < 32"
  shows "reshapes shl256_asm (after_label shl256_asm ''shl_bit_shift'') (after_label shl256_asm ''shl_done'') m
    (shl_bit_words t (slot_words (mem m) (get_reg m A0)))"
proof -
  let ?m = "set_reg T1 0 (set_reg T0 7 m)" and ?a = "get_reg m A0"
  have go: "lib_run shl256_asm (after_label shl256_asm ''shl_bit_shift'') m =
      lib_run shl256_asm (after_label shl256_asm ''shl_bit_loop'') ?m"
    by (simp add: shl_code(5) asm_simps)
  have "get_reg ?m T0 = word_of_nat (7 - 0)" "get_reg ?m T6 = word_of_nat t" using assms by (simp_all add: mach_simps)
  from shl_bits.ordered_exit[OF this] obtain m1 where
    m1: "lib_run shl256_asm (after_label shl256_asm ''shl_bit_loop'') ?m = lib_run shl256_asm (drop 45 shl256_asm) m1"
      "\<And>k. k < 8 \<Longrightarrow> rd32 (mem m1) (?a + word_of_nat (4 * (7 - k))) =
         push_bit (unat (word_of_nat t :: u32) mod 32) (words_at [A0] (7 - k) ?m ! 0) OR
         accs (\<lambda>ws c. drop_bit (other_bits (word_of_nat t)) (ws ! 0))
           (\<lambda>k. words_at [A0] (7 - k) ?m) 0 k"
      "\<And>a. outside ?a a \<Longrightarrow> rd32 (mem m1) a = rd32 (mem m) a" "same_regs shift_regs m m1"
    by (auto simp: mach_simps same_regs_def)
  have ws: "words_at [A0] j ?m ! 0 = slot_words (mem m) ?a ! j" if "j < 8" for j
    using that by (simp add: words_at_def nth_slot_words mach_simps)
  have "slot_words (mem m1) ?a = shl_bit_words t (slot_words (mem m) ?a)"
  proof (rule nth_equalityI)
    fix j assume "j < length (slot_words (mem m1) ?a)"
    then have j: "j < 8" and k: "7 - j < 8" and j': "7 - (7 - j) = j" by simp_all
    have e: "7 - (7 - j - 1) = j + 1" if "7 - j \<noteq> 0" using that j by simp
    have "slot_words (mem m1) ?a ! j = push_bit t (slot_words (mem m) ?a ! j) OR
        (if 7 - j = 0 then 0 else drop_bit ((32 - t) mod 32) (words_at [A0] (7 - (7 - j - 1)) ?m ! 0))"
      unfolding ws[OF j, symmetric] unfolding nth_slot_words[OF j]
      using m1(2)[OF k] unfolding accs_const_g small_shift[OF assms(2)] j' by simp
    also have "\<dots> = shl_bit_words t (slot_words (mem m) ?a) ! j"
      using j e ws[of j] ws[of "j + 1"] by (auto simp: shl_bit_words_def)
    finally show "slot_words (mem m1) ?a ! j = shl_bit_words t (slot_words (mem m) ?a) ! j" .
  qed (simp add: shl_bit_words_def)
  moreover have "lib_run shl256_asm (drop 45 shl256_asm) m1 = lib_run shl256_asm (after_label shl256_asm ''shl_done'') m1"
    by (simp add: shl_code(6) lib_run_simps)
  ultimately show ?thesis
    using go m1(1,3,4) by (auto simp: reshapes_def)
qed


lemma cleared_words:
  assumes "\<exists>m1. lib_run P c m = lib_run P c' m1 \<and> (\<forall>j<8. rd32 (mem m1) (get_reg m A0 + word_of_nat (4 * j)) = 0) \<and>
    (\<forall>a. outside (get_reg m A0) a \<longrightarrow> rd32 (mem m1) a = rd32 (mem m) a) \<and> same_regs shift_regs m m1"
  shows "reshapes P c c' m (replicate 8 0)"
proof -
  have "slot_words (mem m1) (get_reg m A0) = replicate 8 0"
    if "\<forall>j<8. rd32 (mem m1) (get_reg m A0 + word_of_nat (4 * j)) = 0" for m1
    using that by (intro nth_equalityI) (simp_all add: nth_slot_words del: of_nat_mult)
  with assms show ?thesis unfolding reshapes_def by metis
qed

text \<open>After the words have been moved, the bits are shifted unless none remain.\<close>

lemma shr_check_reshape:
  assumes "get_reg m T6 = word_of_nat t" "t < 32"
  shows "reshapes shr256_asm (after_label shr256_asm ''shr_bit_shift_check'') (after_label shr256_asm ''shr_done'') m
    (if t = 0 then slot_words (mem m) (get_reg m A0) else shr_bit_words t (slot_words (mem m) (get_reg m A0)))"
proof (cases "t = 0")
  case True
  then show ?thesis using assms by (auto simp: reshapes_def shr_code(4) asm_simps same_regs_def)
next
  case False
  have "unat (word_of_nat t :: u32) = t" using assms(2) by (intro unat_word_of_nat) simp
  with False have "(word_of_nat t :: u32) \<noteq> 0" by auto
  then have "lib_run shr256_asm (after_label shr256_asm ''shr_bit_shift_check'') m =
      lib_run shr256_asm (after_label shr256_asm ''shr_bit_shift'') m"
    using assms by (simp add: shr_code(4) asm_simps)
  with shr_bits_reshape[OF assms] False show ?thesis by (simp add: reshapes_def)
qed

lemma shl_check_reshape:
  assumes "get_reg m T6 = word_of_nat t" "t < 32"
  shows "reshapes shl256_asm (after_label shl256_asm ''shl_bit_shift_check'') (after_label shl256_asm ''shl_done'') m
    (if t = 0 then slot_words (mem m) (get_reg m A0) else shl_bit_words t (slot_words (mem m) (get_reg m A0)))"
proof (cases "t = 0")
  case True
  then show ?thesis using assms by (auto simp: reshapes_def shl_code(4) asm_simps same_regs_def)
next
  case False
  have "unat (word_of_nat t :: u32) = t" using assms(2) by (intro unat_word_of_nat) simp
  with False have "(word_of_nat t :: u32) \<noteq> 0" by auto
  then have "lib_run shl256_asm (after_label shl256_asm ''shl_bit_shift_check'') m =
      lib_run shl256_asm (after_label shl256_asm ''shl_bit_shift'') m"
    using assms by (simp add: shl_code(4) asm_simps)
  with shl_bits_reshape[OF assms] False show ?thesis by (simp add: reshapes_def)
qed

text \<open>The amount splits into whole words and bits.\<close>

lemma amount_parts:
  assumes "unat (s :: u32) < 256"
  shows "drop_bit 5 s = word_of_nat (unat s div 32)" "s AND 31 = word_of_nat (unat s mod 32)"
proof -
  have "unat (drop_bit 5 s) = unat s div 32" unfolding unat_drop_bit_eq by (simp add: drop_bit_eq_div)
  then show "drop_bit 5 s = word_of_nat (unat s div 32)" by (metis of_nat_unat ucast_id)
  have "s AND 31 = take_bit 5 s" by (simp add: take_bit_eq_mask mask_eq_exp_minus_1)
  moreover have "unat (take_bit 5 s) = unat s mod 32" unfolding unsigned_take_bit_eq by (simp add: take_bit_eq_mod)
  ultimately show "s AND 31 = word_of_nat (unat s mod 32)" by (metis of_nat_unat ucast_id)
qed


lemma amount_sint: "unat (s :: u32) < 256 \<Longrightarrow> sint s = int (unat s)"
  using idx_sint[of "unat s"] by simp

lemma amount_branches:
  "256 \<le> s \<longleftrightarrow> 256 \<le> unat (s :: u32)" "unat s < 256 \<Longrightarrow> sint s < 32 \<longleftrightarrow> unat s < 32"
proof -
  show "256 \<le> s \<longleftrightarrow> 256 \<le> unat s" by (simp add: word_le_nat_alt)
  show "sint s < 32 \<longleftrightarrow> unat s < 32" if "unat s < 256" using amount_sint[OF that] by linarith
qed

lemma reshapes_finish:
  assumes "reshapes P c c' m0 ws" "lib_callee link f m = lib_run P c m0" "mem m0 = mem m"
    "same_regs {SP, A0, S1, S2, S3} m m0" "get_reg m0 RA = link"
    "\<And>m'. lib_run P c' m' = Some (set_reg SP (get_reg m' SP + 32) m')"
  shows "computes link f m (get_reg m A0) (of_words ws) 32"
proof -
  have a: "get_reg m0 A0 = get_reg m A0" using assms(4) by (auto simp: same_regs_def)
  from assms(1) obtain m1 where m1: "lib_run P c m0 = lib_run P c' m1" "slot_words (mem m1) (get_reg m0 A0) = ws"
    "\<forall>a. outside (get_reg m0 A0) a \<longrightarrow> rd32 (mem m1) a = rd32 (mem m0) a" "same_regs shift_regs m0 m1"
    by (auto simp: reshapes_def)
  then show ?thesis
    using assms(2-5) assms(6)[of m1] holds_of_words[OF m1(2)] a
    by (auto simp: computes_def same_regs_def mach_simps)
qed

text \<open>
  A shift routine: at its entry it chooses between clearing the value, shifting bits only, and
  moving words first.
\<close>

locale word_shift = word_move P hd_code zero_code next_code ord pos "insert T6 saved"
  for P hd_code zero_code next_code :: "asm list" and ord :: "nat \<Rightarrow> nat" and pos :: "nat \<Rightarrow> u32" +
  fixes nm :: string and clear_code bit_code done_code :: "asm list" and bits :: "nat \<Rightarrow> u32 list \<Rightarrow> u32 list"
  assumes entry: "s = rd32 (mem m) (get_reg m A1) \<Longrightarrow>
      \<exists>m1. lib_callee link nm m =
          lib_run P (if 256 \<le> unat s then clear_code else if unat s < 32 then bit_code else hd_code) m1 \<and>
        mem m1 = mem m \<and> same_regs {SP, A0, S1, S2, S3} m m1 \<and> get_reg m1 RA = link \<and>
        (unat s < 32 \<longrightarrow> get_reg m1 T6 = s) \<and>
        (32 \<le> unat s \<and> unat s < 256 \<longrightarrow> get_reg m1 T6 = word_of_nat (unat s mod 32) \<and>
           get_reg m1 T0 = pos 0 \<and> get_reg m1 T2 = pos (unat s div 32))"
    and cleared: "reshapes P clear_code done_code m (replicate 8 0)"
    and bits_only: "get_reg m T6 = word_of_nat t \<Longrightarrow> t < 32 \<Longrightarrow>
      reshapes P bit_code done_code m (bits t (slot_words (mem m) (get_reg m A0)))"
    and bits_left: "get_reg m T6 = word_of_nat t \<Longrightarrow> t < 32 \<Longrightarrow>
      reshapes P next_code done_code m
        (if t = 0 then slot_words (mem m) (get_reg m A0) else bits t (slot_words (mem m) (get_reg m A0)))"
    and leave: "lib_run P done_code m = Some (set_reg SP (get_reg m SP + 32) m)"
begin

lemma shifts:
  assumes "operands m x y"
  shows "computes link nm m (get_reg m A0) (shift_result ord bits x y) 32"
proof -
  define s where "s = word_at 0 y"
  have s: "rd32 (mem m) (get_reg m A1) = s" and
    ws: "slot_words (mem m) (get_reg m A0) = map (\<lambda>j. word_at j x) [0..<8]"
    using assms holds_at[of "mem m" "get_reg m A1" y 0] by (simp_all add: operands_def holds_slot_words s_def)
  from entry[OF s[symmetric]] obtain m1 where
    m1: "lib_callee link nm m =
          lib_run P (if 256 \<le> unat s then clear_code else if unat s < 32 then bit_code else hd_code) m1"
      "mem m1 = mem m" "same_regs {SP, A0, S1, S2, S3} m m1" "get_reg m1 RA = link"
      "unat s < 32 \<Longrightarrow> get_reg m1 T6 = s"
      "32 \<le> unat s \<Longrightarrow> unat s < 256 \<Longrightarrow> get_reg m1 T6 = word_of_nat (unat s mod 32)"
      "32 \<le> unat s \<Longrightarrow> unat s < 256 \<Longrightarrow> get_reg m1 T0 = pos 0"
      "32 \<le> unat s \<Longrightarrow> unat s < 256 \<Longrightarrow> get_reg m1 T2 = pos (unat s div 32)"
    by blast
  have ws1: "slot_words (mem m1) (get_reg m1 A0) = map (\<lambda>j. word_at j x) [0..<8]"
    using ws m1(2,3) by (auto simp: same_regs_def)
  consider "256 \<le> unat s" | "unat s < 32" | "32 \<le> unat s" "unat s < 256" by linarith
  then obtain ws' where "reshapes P (if 256 \<le> unat s then clear_code else if unat s < 32 then bit_code else hd_code)
      done_code m1 ws'" "of_words ws' = shift_result ord bits x y"
  proof cases
    case 1
    have "of_words (replicate 8 0) = 0" by (simp add: of_words_def numeral_eq_Suc)
    with 1 cleared[of m1] show ?thesis by (intro that) (simp_all add: shift_result_def s_def [symmetric])
  next
    case 2
    with bits_only[of m1 "unat s"] m1(5) ws1 show ?thesis
      by (intro that) (simp_all add: shift_result_def shifted_def s_def [symmetric])
  next
    case 3
    from moves_words[OF m1(7,8)[OF 3]] 3 have
      "reshapes P hd_code next_code m1 (moved ord (unat s div 32) (map (\<lambda>j. word_at j x) [0..<8]))"
      by (auto simp: reshapes_def ws1)
    then have "reshapes P hd_code done_code m1 (shifted ord bits (unat s) (map (\<lambda>j. word_at j x) [0..<8]))"
    proof (rule reshapes_trans)
      fix m' assume "slot_words (mem m') (get_reg m' A0) = moved ord (unat s div 32) (map (\<lambda>j. word_at j x) [0..<8])"
        "get_reg m' T6 = get_reg m1 T6"
      then show "reshapes P next_code done_code m' (shifted ord bits (unat s) (map (\<lambda>j. word_at j x) [0..<8]))"
        using bits_left[of m' "unat s mod 32"] m1(6)[OF 3] 3 by (auto simp: shifted_def Let_def)
    qed
    with 3 show ?thesis by (intro that) (auto simp: shift_result_def s_def [symmetric])
  qed
  with reshapes_finish[OF _ m1(1-4) leave] show ?thesis by metis
qed

end

lemma shr_cleared: "reshapes shr256_asm (after_label shr256_asm ''shr_zero_result'')
  (after_label shr256_asm ''shr_done'') m (replicate 8 0)"
  by (rule cleared_words) (use shr_clear.loop[of "set_reg T0 0 m"] in
    \<open>simp add: shr_code(7,8) asm_simps same_regs_def cong: conj_cong\<close>)

lemma shl_cleared: "reshapes shl256_asm (after_label shl256_asm ''shl_zero_result'')
  (after_label shl256_asm ''shl_done'') m (replicate 8 0)"
  by (rule cleared_words) (use shl_clear.loop[of "set_reg T0 0 m"] in
    \<open>simp add: shl_code(7,8) asm_simps same_regs_def cong: conj_cong\<close>)

text \<open>The entry of each shift, as far as the code it continues with.\<close>

lemma shr_entry:
  fixes m :: mach and link :: u32
  defines "s \<equiv> rd32 (mem m) (get_reg m A1)"
  defines "m1 \<equiv> set_reg T0 256 (set_reg T6 s (set_reg RA link m))"
  shows "256 \<le> unat s \<Longrightarrow> lib_callee link ''shr256_stack_scratch'' m =
      lib_run shr256_asm (after_label shr256_asm ''shr_zero_result'') m1"
    "unat s < 32 \<Longrightarrow> lib_callee link ''shr256_stack_scratch'' m =
      lib_run shr256_asm (after_label shr256_asm ''shr_bit_shift'') (set_reg T0 32 m1)"
    "32 \<le> unat s \<Longrightarrow> unat s < 256 \<Longrightarrow> lib_callee link ''shr256_stack_scratch'' m =
      lib_run shr256_asm (after_label shr256_asm ''shr_word_loop'')
        (set_reg T2 (drop_bit 5 s) (set_reg T0 0 (set_reg T6 (s AND 31) (set_reg T1 (drop_bit 5 s) (set_reg T0 32 m1)))))"
  using amount_branches[of s]
  by (subst lib_call[OF _ shr_code(1)], simp add: lib_routines_def, simp add: asm_simps m1_def s_def)+

lemma shl_entry:
  fixes m :: mach and link :: u32
  defines "s \<equiv> rd32 (mem m) (get_reg m A1)"
  defines "m1 \<equiv> set_reg T0 256 (set_reg T6 s (set_reg RA link m))"
  shows "256 \<le> unat s \<Longrightarrow> lib_callee link ''shl256_stack_scratch'' m =
      lib_run shl256_asm (after_label shl256_asm ''shl_zero_result'') m1"
    "unat s < 32 \<Longrightarrow> lib_callee link ''shl256_stack_scratch'' m =
      lib_run shl256_asm (after_label shl256_asm ''shl_bit_shift'') (set_reg T0 32 m1)"
    "32 \<le> unat s \<Longrightarrow> unat s < 256 \<Longrightarrow> lib_callee link ''shl256_stack_scratch'' m =
      lib_run shl256_asm (after_label shl256_asm ''shl_word_loop'')
        (set_reg T2 (7 - drop_bit 5 s) (set_reg T0 7 (set_reg T6 (s AND 31) (set_reg T1 (drop_bit 5 s) (set_reg T0 32 m1)))))"
  using amount_branches[of s]
  by (subst lib_call[OF _ shl_code(1)], simp add: lib_routines_def, simp add: asm_simps m1_def s_def)+

interpretation shr: word_shift shr256_asm "after_label shr256_asm ''shr_word_loop''"
  "after_label shr256_asm ''shr_word_zero''" "after_label shr256_asm ''shr_bit_shift_check''" "\<lambda>k. k" "word_of_nat"
  "''shr256_stack_scratch''" "after_label shr256_asm ''shr_zero_result''" "after_label shr256_asm ''shr_bit_shift''"
  "after_label shr256_asm ''shr_done''" shr_bit_words
proof (unfold_locales, goal_cases)
  case (1 s m link)
  have "unat s < 256 \<Longrightarrow> 32 \<le> unat s \<Longrightarrow> \<not> 256 \<le> unat s \<and> \<not> unat s < 32" by simp
  with 1 shr_entry[of m link] amount_parts[of s] show ?case
    by (cases "256 \<le> unat s"; cases "unat s < 32") (auto simp: mach_simps same_regs_def)
next
  case (5 m)
  then show ?case by (simp add: shr_code(9) asm_simps)
qed (rule shr_cleared shr_bits_reshape shr_check_reshape; assumption)+

interpretation shl: word_shift shl256_asm "after_label shl256_asm ''shl_word_loop''"
  "after_label shl256_asm ''shl_word_zero''" "after_label shl256_asm ''shl_bit_shift_check''" "\<lambda>k. 7 - k" "\<lambda>k. 7 - word_of_nat k"
  "''shl256_stack_scratch''" "after_label shl256_asm ''shl_zero_result''" "after_label shl256_asm ''shl_bit_shift''"
  "after_label shl256_asm ''shl_done''" shl_bit_words
proof (unfold_locales, goal_cases)
  case (1 s m link)
  have "unat s < 256 \<Longrightarrow> 32 \<le> unat s \<Longrightarrow> \<not> 256 \<le> unat s \<and> \<not> unat s < 32" by simp
  with 1 shl_entry[of m link] amount_parts[of s] show ?case
    by (cases "256 \<le> unat s"; cases "unat s < 32") (auto simp: mach_simps same_regs_def)
next
  case (5 m)
  then show ?case by (simp add: shl_code(9) asm_simps)
qed (rule shl_cleared shl_bits_reshape shl_check_reshape; assumption)+

lemma shr256_computes:
  "operands m x y \<Longrightarrow> computes link ''shr256_stack_scratch'' m (get_reg m A0) (shr_result x y) 32"
  unfolding shr_result_def by (rule shr.shifts)

lemma shl256_computes:
  "operands m x y \<Longrightarrow> computes link ''shl256_stack_scratch'' m (get_reg m A0) (shl_result x y) 32"
  unfolding shl_result_def by (rule shl.shifts)

end
