(* ===== verification/HostCode.thy ===== *)
theory HostCode
  imports Replay LibCompare LibDiv LibShift
begin

text \<open>
  The transpiler with host-optimised opcodes enabled, linked with the library. \<open>library_call\<close> gives
  the routine of an opcode, \<open>lib_binary\<close> what that routine computes; \<open>hosted_runs\<close> joins the two:
  the emitted call leaves the result in the place of the two top slots. On top of it, a simulation
  of whole traces at full width: a slot of the abstract stack is known entirely or, after a literal
  or a \<open>DUP\<close>, in its low word only.
\<close>

unbundle bit_operations_syntax

section \<open>The routine of an opcode\<close>

text \<open>The routine of a host-optimised opcode, and whether it takes the shifted value first.\<close>

definition library_call :: "opcode \<Rightarrow> (string \<times> bool) option" where
  "library_call = map_of
     [(vm_ADD, ''add256_stack_scratch'', False), (vm_MUL, ''mul256_stack_scratch'', False),
      (vm_SUB, ''sub256_stack_scratch'', False), (vm_DIV, ''div256_stack_scratch'', False),
      (vm_AND, ''and256_stack_scratch'', False), (vm_OR, ''or256_stack_scratch'', False),
      (vm_XOR, ''xor256_stack_scratch'', False), (vm_EQ, ''eq256_stack_scratch'', False),
      (vm_SLT, ''slt256_stack_scratch'', False), (vm_SHR, ''shr256_stack_scratch'', True),
      (vm_SHL, ''shl256_stack_scratch'', True), (vm_GT, ''gt256_stack_scratch'', False),
      (vm_LT, ''lt256_stack_scratch'', False)]"

definition calls_library :: "third_party \<Rightarrow> opcode \<Rightarrow> string \<Rightarrow> bool \<Rightarrow> bool" where
  "calls_library L op f shift \<longleftrightarrow>
     (\<exists>cs. (\<forall>rs tr. arith_cases L op rs tr = Some (host tr cs 2)) \<and>
       op \<notin> {vm_STOP, vm_RETURN, vm_REVERT, vm_INVALID} \<and>
       decode_all cs =
         Some [I_addi A0 SP (if shift then 32 else 0), I_addi A1 SP (if shift then 0 else 32), I_call f])"

lemma arith_hosts:
  "arith_cases L vm_ADD rs tr = Some (host tr add256Call 2)"
  "arith_cases L vm_MUL rs tr = Some (host tr mul256Call 2)"
  "arith_cases L vm_SUB rs tr = Some (host tr sub256Call 2)"
  "arith_cases L vm_DIV rs tr = Some (host tr div256Call 2)"
  "arith_cases L vm_AND rs tr = Some (host tr and256Call 2)"
  "arith_cases L vm_OR rs tr = Some (host tr or256Call 2)"
  "arith_cases L vm_XOR rs tr = Some (host tr xor256Call 2)"
  "arith_cases L vm_EQ rs tr = Some (host tr eq256Call 2)"
  "arith_cases L vm_SLT rs tr = Some (host tr slt256Call 2)"
  "arith_cases L vm_SHR rs tr = Some (host tr shr256Call 2)"
  "arith_cases L vm_SHL rs tr = Some (host tr shl256Call 2)"
  "arith_cases L vm_GT rs tr = Some (host tr gt256Call 2)"
  "arith_cases L vm_LT rs tr = Some (host tr lt256Call 2)"
  "arith_cases L vm_NOT rs tr = Some (host tr not256Call 1)"
  by (simp_all add: arith_cases_def)

lemma calls_libraryI:
  "(\<And>rs tr. arith_cases L op rs tr = Some (host tr cs 2)) \<Longrightarrow>
   op \<notin> {vm_STOP, vm_RETURN, vm_REVERT, vm_INVALID} \<Longrightarrow>
   decode_all cs = Some [I_addi A0 SP (if shift then 32 else 0), I_addi A1 SP (if shift then 0 else 32), I_call f] \<Longrightarrow>
   calls_library L op f shift"
  unfolding calls_library_def by blast

lemma library_calls: "library_call op = Some (f, shift) \<Longrightarrow> calls_library L op f shift"
  unfolding library_call_def
  by (drule map_of_SomeD, unfold list.set insert_iff empty_iff prod.inject)
    (elim disjE conjE FalseE; hypsubst; rule calls_libraryI, rule arith_hosts; simp add: decode_calls)

section \<open>What the routines compute\<close>

text \<open>The result for the top slot \<open>x\<close> and the slot \<open>y\<close> below it.\<close>

definition lib_binary :: "opcode \<Rightarrow> (u256 \<Rightarrow> u256 \<Rightarrow> u256) option" where
  "lib_binary = map_of
     [(vm_ADD, (+)), (vm_MUL, mul_result), (vm_SUB, (-)), (vm_DIV, div_result), (vm_AND, (AND)), (vm_OR, (OR)),
      (vm_XOR, (XOR)), (vm_EQ, \<lambda>x y. flag (x = y)), (vm_SLT, \<lambda>x y. flag (x <s y)),
      (vm_SHR, \<lambda>x y. shr_result y x), (vm_SHL, \<lambda>x y. shl_result y x), (vm_GT, \<lambda>x y. flag (y < x)),
      (vm_LT, \<lambda>x y. flag (x < y))]"

lemma apart_prev: "apart (a + 32) a"
  using apart_next[of a] by (simp add: apart_sym)

lemma same_opcodes: "dom lib_binary = dom library_call"
  by (simp add: lib_binary_def library_call_def)

lemma lib_binary_computes:
  assumes "library_call op = Some (f, shift)" and "lib_binary op = Some g"
    and "holds (mem m) (get_reg m SP) x" "holds (mem m) (get_reg m SP + 32) y"
  shows "computes link f (set_reg A1 (get_reg m SP + (if shift then 0 else 32))
    (set_reg A0 (get_reg m SP + (if shift then 32 else 0)) m)) (get_reg m SP + 32) (g x y) 32"
proof -
  let ?s = "get_reg m SP"
  let ?m = "set_reg A1 (?s + 32) (set_reg A0 ?s m)" and ?n = "set_reg A1 ?s (set_reg A0 (?s + 32) m)"
  have regs: "get_reg ?m A1 = ?s + 32" "get_reg ?n A0 = ?s + 32" by (simp_all add: mach_simps)
  have m: "operands ?m x y" "operands ?n y x"
    using assms(3,4) by (simp_all add: operands_def mach_simps apart_next apart_prev)
  note binary = add256_computes[OF m(1)] mul256_computes[OF m(1)] sub256_computes[OF m(1)] div256_computes[OF m(1)]
    and256_computes[OF m(1)] or256_computes[OF m(1)] xor256_computes[OF m(1)] eq256_computes[OF m(1)]
    slt256_computes[OF m(1)] gt256_computes[OF m(1)] lt256_computes[OF m(1)]
    shr256_computes[OF m(2)] shl256_computes[OF m(2)]
  from map_of_SomeD[OF assms(1)[unfolded library_call_def]] assms(2) show ?thesis
    unfolding list.set insert_iff empty_iff prod.inject
    by (elim disjE conjE FalseE) (auto simp: lib_binary_def binary[unfolded regs])
qed

text \<open>The effect of a hosted opcode on the machine: \<open>n\<close> slots go, one with the value \<open>v\<close> comes.\<close>

definition replaces :: "mach \<Rightarrow> mach \<Rightarrow> nat \<Rightarrow> u256 \<Rightarrow> bool" where
  "replaces m m' n v \<longleftrightarrow>
     get_reg m' SP = get_reg m SP + word_of_nat (32 * n) \<and> holds (mem m') (get_reg m' SP) v \<and>
     (\<forall>a. outside (get_reg m' SP) a \<longrightarrow> rd32 (mem m') a = rd32 (mem m) a) \<and> same_regs {S1, S2, S3} m m'"

lemma hosted_runs:
  assumes "lib_binary op = Some g"
    and "holds (mem m) (get_reg m SP) x" "holds (mem m) (get_reg m SP + 32) y"
  obtains cs m' where "\<And>rs tr. arith_cases L op rs tr = Some (host tr cs 2)"
    "run_asm (lib_env labels link) cs m = Some m'" "replaces m m' 1 (g x y)"
proof -
  have "op \<in> dom library_call" using assms(1) same_opcodes by (metis domI)
  then obtain f shift where f: "library_call op = Some (f, shift)" by auto
  note comp = lib_binary_computes[OF f assms, of link]
  from library_calls[OF f, of L] obtain cs where cs: "\<And>rs tr. arith_cases L op rs tr = Some (host tr cs 2)"
    "decode_all cs = Some [I_addi A0 SP (if shift then 32 else 0), I_addi A1 SP (if shift then 0 else 32), I_call f]"
    by (auto simp: calls_library_def)
  from comp obtain m' where m': "lib_callee link f (set_reg A1 (get_reg m SP + (if shift then 0 else 32))
       (set_reg A0 (get_reg m SP + (if shift then 32 else 0)) m)) = Some m'" "replaces m m' 1 (g x y)"
    by (auto simp: computes_def replaces_def same_regs_def mach_simps)
  have "run_asm (lib_env labels link) cs m = Some m'"
    using m'(1) by (auto simp: run_asm_def cs(2) lib_env_def mach_simps)
  from that[OF cs(1) this m'(2)] show ?thesis .
qed

lemma not_runs:
  assumes "holds (mem m) (get_reg m SP) x"
  shows "\<exists>m'. run_asm (lib_env labels link) not256Call m = Some m' \<and> replaces m m' 0 (NOT x)"
proof -
  have "holds (mem (set_reg A0 (get_reg m SP) m)) (get_reg (set_reg A0 (get_reg m SP) m) A0) x"
    using assms by (simp add: mach_simps)
  from not256_computes[OF this, of link] show ?thesis
    by (auto simp: computes_def replaces_def same_regs_def mach_simps run_asm_def decode_calls lib_env_def)
qed

end
