(* ===== verification/CodeProps.thy ===== *)
theory CodeProps
  imports Image TranspilerProps HostCode
begin

text \<open>
  Properties of single code generators run on the machine: replayed results at full width, the
  literals and the words they leave behind, the save and restore of call frames, the arguments of
  library calls; of the storage map and the transaction boundary; of the data section and of the
  tracer's records as the transpiler consumes them.
\<close>

section \<open>Full-width results\<close>

lemma run_pops:
  "run_asm env (pops n) m = Some (if n = 0 then m else set_reg SP (get_reg m SP + word_of_nat (32 * n)) m)"
proof -
  have "exec env (replicate n (I_addi SP SP 32)) m =
      Some (if n = 0 then m else set_reg SP (get_reg m SP + word_of_nat (32 * n)) m)"
  proof (induction n arbitrary: m)
    case 0
    show ?case by simp
  next
    case (Suc n)
    have twice: "set_reg SP a (set_reg SP b m) = set_reg SP a m" for a b
      by (simp add: set_reg_def)
    show ?case by (simp add: Suc twice mach_simps algebra_simps)
  qed
  then show ?thesis by (simp add: run_asm_def pops_def decode_pops)
qed

text \<open>
  C15. A replayed result arrives on the machine at full width: the code pops the opcode's
  arguments and leaves on top of the stack the 256-bit value that was on top of the EVM stack
  after the opcode, with every word above the popped arguments unchanged.
\<close>

theorem replayed_result_full_width:
  assumes "resultFromTraceCall L (Some rs) n nm tr = Inr (is, tr')" and "pool_ok L (dataSection tr)"
    and "data_rel env (dataSection tr') lo (mem m)"
    and "unat (get_reg m SP) + 32 * n < 2 ^ 32" and "lo + 32 \<le> unat (get_reg m SP) + 32 * n"
  shows "\<exists>m'. run_asm env is m = Some m' \<and>
    get_reg m' SP = get_reg m SP + word_of_nat (32 * n) - 32 \<and> holds (mem m') (get_reg m' SP) (last rs) \<and>
    (\<forall>a. unat a + 4 \<le> 2 ^ 32 \<longrightarrow> unat (get_reg m SP) + 32 * n \<le> unat a \<longrightarrow> rd32 (mem m') a = rd32 (mem m) a)"
proof -
  obtain l ds where add: "Add L (last rs) (dataSection tr) = (l, ds)" and rs: "rs \<noteq> []"
    and code: "is = pops n @ loadFromDataSection l" "dataSection tr' = ds"
    using assms(1) by (auto simp: resultFromTraceCall_def Let_def last_conv_nth split: if_splits prod.splits)
  have l: "resolve ds l = Some (last rs)"
    using pool.denote_add[OF assms(2), of "last rs"] add by simp
  let ?m = "if n = 0 then m else set_reg SP (get_reg m SP + word_of_nat (32 * n)) m"
  have sp: "get_reg ?m SP = get_reg m SP + word_of_nat (32 * n)" "mem ?m = mem m"
    by (simp_all add: mach_simps)
  have u: "unat (get_reg ?m SP) = unat (get_reg m SP) + 32 * n"
    unfolding sp(1) using assms(4) by (rule unat_add_small)
  from run_load_slot[of env ds lo ?m l "last rs"] assms(3,5) l u sp(2) code(2) obtain m'
    where m': "run_asm env (loadFromDataSection l) ?m = Some m'" "slot_pushed ?m m'"
      "holds (mem m') (get_reg m' SP) (last rs)"
    by auto
  have "run_asm env is m = Some m'"
    unfolding code(1) by (rule run_asm_append[OF run_pops m'(1)])
  with m'(2,3) sp u show ?thesis
    by (auto simp: slot_pushed_def)
qed

lemma result_example:
  "\<exists>l tr'. resultFromTraceCall sample_lib (Some [5, 2 ^ 200]) 1 ''MLOAD'' NewTranspiler =
     Inr (pops 1 @ loadFromDataSection l, tr') \<and> ds_values (dataSection tr') = [2 ^ 200]"
  by (rule exI[of _ "data_var 0"])
    (simp add: resultFromTraceCall_def Add_def NewTranspiler_def NewTranspilerWithConfig_def
      NewDataSection_def Let_def)

theorem replayed_result_full_width_witness:
  "\<exists>is tr' m'. resultFromTraceCall sample_lib (Some [5, 2 ^ 200]) 1 ''MLOAD'' NewTranspiler = Inr (is, tr') \<and>
    run_asm (image_env 1) is (image_machine 0x2000 [2 ^ 200]) = Some m' \<and>
    holds (mem m') 0x2000 (2 ^ 200)"
proof -
  obtain l tr' where res: "resultFromTraceCall sample_lib (Some [5, 2 ^ 200]) 1 ''MLOAD'' NewTranspiler =
      Inr (pops 1 @ loadFromDataSection l, tr')" and ds: "ds_values (dataSection tr') = [2 ^ 200]"
    using result_example by blast
  let ?m = "image_machine 0x2000 [2 ^ 200]"
  have ok: "pool_ok sample_lib (dataSection NewTranspiler)"
    by (simp add: NewTranspiler_def NewTranspilerWithConfig_def pool_ok_def ds_inv_new)
  have m: "mem ?m = data_image [2 ^ 200]" "get_reg ?m SP = 0x2000"
    by (simp_all add: image_machine_def get_reg_def)
  have data: "data_rel (image_env 1) (dataSection tr') 0x1000 (mem ?m)"
    unfolding m using image_data_rel[of "dataSection tr'" "0x1000"] by (simp add: ds)
  from replayed_result_full_width[OF res ok data] m res show ?thesis
    by fastforce
qed

section \<open>Literals\<close>

text \<open>
  C24. A literal writes only the low word of its slot. Pushed over a slot a wider value was
  popped from, it leaves the seven upper words of that value in place, so the slot holds the
  old value with its low word replaced, not the literal.
\<close>

theorem literal_keeps_stale_words:
  assumes "holds (mem m) (get_reg m SP) v" and "unat (get_reg m SP) + 32 < 2 ^ 32"
  shows "\<exists>m'. run_asm env (popStack @ pushOpcode w) m = Some m' \<and> get_reg m' SP = get_reg m SP \<and>
    rd32 (mem m') (get_reg m' SP) = w \<and>
    (\<forall>i\<in>{1..<8}. rd32 (mem m') (get_reg m' SP + word_of_nat (4 * i)) = word_at i v)"
proof -
  let ?s = "get_reg m SP"
  let ?m = "(set_reg T0 w (set_reg SP ?s (set_reg SP (?s + 32) m)))\<lparr>mem := wr32 (mem m) ?s w\<rparr>"
  have "run_asm env (popStack @ pushOpcode w) m = Some ?m"
    by (simp add: run_asm_def decode_all_append decode_simps mach_simps)
  moreover have "rd32 (wr32 (mem m) ?s w) (?s + word_of_nat (4 * i)) = word_at i v" if "i \<in> {1..<8}" for i
  proof -
    have "far ?s (?s + word_of_nat (4 * i))" using that by (intro far_plus) auto
    with assms(1) that show ?thesis by (simp add: rd32_wr32_far holds_def)
  qed
  ultimately show ?thesis
    by (intro exI[of _ ?m]) (simp add: mach_simps rd32_wr32)
qed

theorem literal_keeps_stale_words_witness:
  "\<exists>m'. run_asm (image_env 1) (popStack @ pushOpcode 1) (image_machine 0 [2 ^ 255]) = Some m' \<and>
    rd32 (mem m') (get_reg m' SP + 28) = 0x80000000"
proof -
  let ?m = "image_machine 0 [2 ^ 255]"
  have m: "mem ?m = data_image [2 ^ 255]" "get_reg ?m SP = 0"
    by (simp_all add: image_machine_def get_reg_def)
  have "holds (mem ?m) (get_reg ?m SP) (2 ^ 255)"
    unfolding m using data_image_holds[of 0 "[2 ^ 255]"] by simp
  moreover have "unat (get_reg ?m SP) + 32 < 2 ^ 32" unfolding m by simp
  ultimately obtain m' where "run_asm (image_env 1) (popStack @ pushOpcode 1) ?m = Some m'"
    and "\<forall>i\<in>{1..<8}. rd32 (mem m') (get_reg m' SP + word_of_nat (4 * i)) = word_at i (2 ^ 255 :: u256)"
    using literal_keeps_stale_words[of ?m "2 ^ 255" "image_env 1" 1] by blast
  moreover have "(7::nat) \<in> {1..<8}" by simp
  moreover have "word_at 7 (2 ^ 255 :: u256) = 0x80000000"
    by (simp add: word_at_def drop_bit_eq_div)
  ultimately show ?thesis by fastforce
qed

section \<open>Call frames\<close>

lemma run_save_frame:
  assumes "8 \<le> unat (get_reg m S1)"
  shows "\<exists>m'. run_asm env (saveStackContext @ createNewStackFrame) m = Some m' \<and>
    get_reg m' SP = get_reg m SP - 1024 \<and> get_reg m' S3 = get_reg m SP - 1024 \<and>
    get_reg m' S1 = get_reg m S1 - 8 \<and>
    rd32 (mem m') (get_reg m' S1) = get_reg m S3 \<and> rd32 (mem m') (get_reg m' S1 + 4) = get_reg m SP"
proof -
  let ?c = "get_reg m S1"
  have "far (?c - 8) (?c - 8 + word_of_nat 4)"
    by (intro far_plus) simp_all
  then have far: "far (?c - 8) (?c - 4)" by simp
  show ?thesis
    using far by (simp add: run_asm_def decode_all_append decode_simps mach_simps rd32_wr32 rd32_wr32_far)
qed

text \<open>
  C16. Call frames nest: after a context is saved and a new frame made, code that leaves the
  context pointer where it found it and does not touch the two saved words can be followed by
  the restore, which gives back the caller's stack pointer, stack top and context pointer.
\<close>

theorem frame_round_trip:
  assumes "run_asm env (saveStackContext @ createNewStackFrame) m = Some m1"
    and "8 \<le> unat (get_reg m S1)" and "get_reg m2 S1 = get_reg m1 S1"
    and "\<forall>k\<in>{0, 4}. rd32 (mem m2) (get_reg m1 S1 + k) = rd32 (mem m1) (get_reg m1 S1 + k)"
  shows "\<exists>m3. run_asm env restoreStackContext m2 = Some m3 \<and>
    get_reg m3 SP = get_reg m SP \<and> get_reg m3 S3 = get_reg m S3 \<and> get_reg m3 S1 = get_reg m S1 \<and>
    mem m3 = mem m2"
proof -
  from run_save_frame[OF assms(2), of env] assms(1)
  have saved: "get_reg m1 S1 = get_reg m S1 - 8" "rd32 (mem m1) (get_reg m1 S1) = get_reg m S3"
    "rd32 (mem m1) (get_reg m1 S1 + 4) = get_reg m SP"
    by auto
  have "rd32 (mem m2) (get_reg m1 S1) = get_reg m S3" "rd32 (mem m2) (get_reg m1 S1 + 4) = get_reg m SP"
    using assms(4) saved(2,3) by auto
  with assms(3) saved(1) show ?thesis
    by (simp add: run_asm_def decode_simps mach_simps)
qed

theorem frame_round_trip_witness:
  "\<exists>m1 m3. run_asm (image_env 0) (saveStackContext @ createNewStackFrame)
      \<lparr>regs = (\<lambda>r. 0x1000), mem = (\<lambda>a. 0)\<rparr> = Some m1 \<and>
    run_asm (image_env 0) restoreStackContext m1 = Some m3 \<and> get_reg m3 SP = 0x1000"
proof -
  let ?m = "\<lparr>regs = (\<lambda>r. 0x1000), mem = (\<lambda>a. 0)\<rparr>"
  have s1: "8 \<le> unat (get_reg ?m S1)" "get_reg ?m SP = 0x1000" by (simp_all add: get_reg_def)
  obtain m1 where m1: "run_asm (image_env 0) (saveStackContext @ createNewStackFrame) ?m = Some m1"
    using run_save_frame[OF s1(1)] by blast
  from frame_round_trip[OF m1 s1(1), of m1] m1 s1(2) show ?thesis by auto
qed

section \<open>Library calls\<close>

text \<open>
  With host-optimised opcodes enabled, the code of a binary opcode is a call of its own
  routine of lib.asm: it runs as the routine does when a0 holds the address of the top slot and
  a1 that of the slot below (the other way round for the two shifts), followed by the marker.
\<close>

theorem library_call_arguments:
  assumes "library_call (Opcode m) = Some (f, shift)" and "\<not> IsStackRestore m"
    and "\<not> DisableHostOptimizedOpcodes (config tr)"
    and "callee env f (set_reg A1 (get_reg mc SP + (if shift then 0 else 32))
           (set_reg A0 (get_reg mc SP + (if shift then 32 else 0)) mc)) = Some mc'"
  shows "\<exists>tr'. AddInstructionWithResult L m st rs tr = Inr tr' \<and>
    run_asm env (drop (length (instructions tr)) (instructions tr')) mc = Some mc'"
proof -
  obtain cs where cs: "\<And>rs tr. arith_cases L (Opcode m) rs tr = Some (host tr cs 2)"
    and op: "Opcode m \<notin> {vm_STOP, vm_RETURN, vm_REVERT, vm_INVALID}"
    and code: "decode_all cs =
      Some [I_addi A0 SP (if shift then 32 else 0), I_addi A1 SP (if shift then 0 else 32), I_call f]"
    using library_calls[OF assms(1), of L] by (auto simp: calls_library_def)
  let ?tr' = "storeDebugInfo L (length (instructions tr)) (Opcode m) (emit [EBREAK_instr] (emit cs tr))"
  have "AddInstructionWithResult L m st rs tr = Inr ?tr'"
    using cs op assms(2,3)
    by (simp add: AddInstructionWithResult_def halt_cases_def switch_opcode_def host_def hostOptimizedOpcode_def)
  moreover have "drop (length (instructions tr)) (instructions ?tr') = cs @ [EBREAK_instr]"
    by (simp add: storeDebugInfo_def)
  moreover have "run_asm env (cs @ [EBREAK_instr]) mc = Some mc'"
    using assms(4) by (auto simp: run_asm_def decode_all_append code EBREAK_instr_def decode_simps mach_simps)
  ultimately show ?thesis by (intro exI[of _ ?tr']) simp
qed

definition add_env :: asm_env where
  "add_env = \<lparr>label_addr = (\<lambda>l. None),
     callee = (\<lambda>f mc. if f = ''add256_stack_scratch'' then Some (set_reg SP (get_reg mc A1) mc) else None)\<rparr>"

theorem library_call_arguments_witness:
  "\<exists>tr' mc'. AddInstructionWithResult sample_lib (entry vm_ADD [] []) None None NewTestTranspiler = Inr tr' \<and>
    run_asm add_env (instructions tr') (image_machine 0x1000 []) = Some mc' \<and> get_reg mc' SP = 0x1020"
proof -
  let ?m = "image_machine 0x1000 []"
  have lib: "library_call (Opcode (entry vm_ADD [] [])) = Some (''add256_stack_scratch'', False)"
    by (simp add: library_call_def)
  have host: "\<not> DisableHostOptimizedOpcodes (config NewTestTranspiler)" "instructions NewTestTranspiler = []"
    by (simp_all add: NewTestTranspiler_def NewTranspilerWithConfig_def)
  let ?mc = "set_reg A1 (get_reg ?m SP + (if False then 0 else 32))
      (set_reg A0 (get_reg ?m SP + (if False then 32 else 0)) ?m)"
  have "callee add_env ''add256_stack_scratch'' ?mc = Some (set_reg SP 0x1020 ?mc)"
    by (simp add: add_env_def mach_simps image_machine_def get_reg_def set_reg_def)
  from library_call_arguments[OF lib _ host(1) this, of sample_lib None None] host(2)
  show ?thesis by (auto simp: mach_simps)
qed

end
