(* ===== verification/Assembly.thy ===== *)
theory Assembly
  imports Machine
begin

text \<open>
  The assembly text of \<open>prover/compiler.go\<close>: \<open>generateDataSection\<close>, \<open>toFile\<close> for both runtime
  targets and the two complete files built around them. The library text \<open>resources/lib.asm\<close>,
  which the program embeds, is a parameter. The readers \<open>read_data\<close> and \<open>read_code\<close> are the
  assembler's view of such text; the lemmas show that reading gives back what was printed.
\<close>

section \<open>Text\<close>

definition newline :: char where "newline = CHR 0x0A"

definition tabulator :: char where "tabulator = CHR 0x09"

text \<open>\<open>strings.Join\<close>\<close>

fun join :: "string \<Rightarrow> string list \<Rightarrow> string" where
  "join sep [] = []"
| "join sep [x] = x"
| "join sep (x # y # zs) = x @ sep @ join sep (y # zs)"

section \<open>Printing\<close>

datatype runtime_target = RuntimeUnicorn | RuntimeTargetOpenVM

text \<open>
  The word printed for position \<open>i\<close>: four bytes of the big-endian form, the most significant
  first, from the least significant group of four on.
\<close>

definition data_word :: "bytes \<Rightarrow> nat \<Rightarrow> u32" where
  "data_word bs i =
     (let offset = (7 - i) * 4 in
      ucast (bs ! (offset + 3)) OR push_bit 8 (ucast (bs ! (offset + 2))) OR
      push_bit 16 (ucast (bs ! (offset + 1))) OR push_bit 24 (ucast (bs ! offset)))"

definition word_line :: "u32 \<Rightarrow> string" where
  "word_line w = ''    .word 0x'' @ hex_pad 8 (unat w)"

definition data_lines :: "third_party \<Rightarrow> data_variable \<Rightarrow> string list" where
  "data_lines L d =
     (VarName d @ '':'') #
     map (\<lambda>i. word_line (data_word (Bytes32 L (VarValue d)) i)) [0..<8]"

definition generateDataSection :: "third_party \<Rightarrow> assembly_file \<Rightarrow> string" where
  "generateDataSection L f =
     (if DataSec f = [] then [] else join [newline] (concat (map (data_lines L) (DataSec f))))"

definition openVMPrecompiles :: "string \<rightharpoonup> string" where
  "openVMPrecompiles = map_of
     [(''add256_stack_scratch'', ''openvm_add256_stack_scratch''),
      (''eq256_stack_scratch'', ''openvm_eq256_stack_scratch''),
      (''lt256_stack_scratch'', ''openvm_lt256_stack_scratch''),
      (''gt256_stack_scratch'', ''openvm_gt256_stack_scratch''),
      (''shr256_stack_scratch'', ''openvm_shr256_stack_scratch''),
      (''not256_stack_scratch'', ''openvm_not256_stack_scratch'')]"

definition InstructionEBREAK :: string where
  "InstructionEBREAK = ''EBREAK''"

text \<open>The line of one instruction; a call without an operand panics.\<close>

definition code_line :: "runtime_target \<Rightarrow> instruction \<Rightarrow> string result" where
  "code_line target i =
     (if target = RuntimeTargetOpenVM \<and> Name i = ''call'' then
        bindR (go_index (Operands i) 0) (\<lambda>functionName.
          Inr ([tabulator] @ Name i @ '' '' @
            (case openVMPrecompiles functionName of Some p \<Rightarrow> p | None \<Rightarrow> functionName)))
      else Inr ([tabulator] @ Name i @ '' '' @ join '', '' (Operands i)))"

fun code_lines :: "runtime_target \<Rightarrow> instruction list \<Rightarrow> string list result" where
  "code_lines target [] = Inr []"
| "code_lines target (i # is) =
     (if target \<noteq> RuntimeUnicorn \<and> Name i = InstructionEBREAK then code_lines target is
      else bindR (code_line target i) (\<lambda>l. bindR (code_lines target is) (\<lambda>ls. Inr (l # ls))))"

definition toFile :: "runtime_target \<Rightarrow> assembly_file \<Rightarrow> string result" where
  "toFile target f = bindR (code_lines target (Instructions f)) (\<lambda>ls. Inr (join [newline] ls))"

definition toZkFile :: "assembly_file \<Rightarrow> string result" where
  "toZkFile f = toFile RuntimeTargetOpenVM f"

definition toDebugFile :: "third_party \<Rightarrow> string \<Rightarrow> assembly_file \<Rightarrow> string result" where
  "toDebugFile L libFile f =
     bindR (toFile RuntimeUnicorn f) (\<lambda>instrs.
       Inr ([newline] @ ''.section .data'' @ [newline] @ generateDataSection L f @ [newline, newline] @
            ''.section .text'' @ [newline] @ ''.global execute'' @ [newline] @ ''execute:'' @ [newline] @
            instrs @ '' '' @ [newline] @ ''    jr x0'' @ [newline] @ libFile @ [newline, tabulator]))"

definition ToToolChainCompatibleAssembly :: "third_party \<Rightarrow> string \<Rightarrow> assembly_file \<Rightarrow> string result" where
  "ToToolChainCompatibleAssembly L libFile f =
     bindR (toZkFile f) (\<lambda>instrs.
       Inr ([newline] @ ''.section .data'' @ [newline] @ generateDataSection L f @ [newline, newline] @
            ''.section .text'' @ [newline] @ ''.global execute'' @ [newline] @ ''execute:'' @ [newline] @
            [tabulator] @ ''# Save stack'' @ [newline, tabulator] @ ''mv s2, sp'' @
            [newline, tabulator] @ ''mv s1, ra'' @ [newline, newline] @ instrs @ [newline, newline] @
            [tabulator] @ ''# Restore stack'' @ [newline, tabulator] @ ''mv sp, s2'' @
            [newline, tabulator] @ ''mv ra, s1'' @ [newline, tabulator] @ ''ret'' @
            [newline, newline] @ libFile @ [newline, tabulator]))"

section \<open>Reading\<close>

fun split_at :: "char \<Rightarrow> string \<Rightarrow> string list" where
  "split_at c [] = [[]]"
| "split_at c (x # xs) =
     (if x = c then [] # split_at c xs
      else (case split_at c xs of [] \<Rightarrow> [[x]] | l # ls \<Rightarrow> (x # l) # ls))"

lemma split_at_ne [simp]: "split_at c xs \<noteq> []"
  by (cases xs) (auto split: list.split)

lemma split_at_plain: "c \<notin> set x \<Longrightarrow> split_at c x = [x]"
  by (induction x) auto

lemma split_at_append: "c \<notin> set x \<Longrightarrow> split_at c (x @ c # ys) = x # split_at c ys"
  by (induction x) auto

lemma split_join:
  "ls \<noteq> [] \<Longrightarrow> (\<And>l. l \<in> set ls \<Longrightarrow> c \<notin> set l) \<Longrightarrow> split_at c (join [c] ls) = ls"
proof (induction "[c]" ls rule: join.induct)
  case (3 x y zs)
  then show ?case by (simp add: split_at_append)
qed (simp_all add: split_at_plain)

text \<open>One line of the data section: a word, or the label of the words that follow.\<close>

definition read_word :: "string \<Rightarrow> u32 option" where
  "read_word s =
     (if take 12 s = ''    .word 0x'' then map_option word_of_nat (read_base 16 0 (drop 12 s)) else None)"

fun read_data_lines :: "string list \<Rightarrow> (u32 list \<times> (string \<times> u32 list) list) option" where
  "read_data_lines [] = Some ([], [])"
| "read_data_lines (l # ls) =
     (case read_data_lines ls of
        None \<Rightarrow> None
      | Some (ws, bs) \<Rightarrow>
          (case read_word l of
             Some w \<Rightarrow> Some (w # ws, bs)
           | None \<Rightarrow> if l \<noteq> [] \<and> last l = CHR '':'' then Some ([], (butlast l, ws) # bs) else None))"

definition read_data :: "string \<Rightarrow> (string \<times> u32 list) list option" where
  "read_data s =
     (if s = [] then Some []
      else (case read_data_lines (split_at newline s) of Some ([], bs) \<Rightarrow> Some bs | _ \<Rightarrow> None))"

lemma read_word_printed: "read_word (word_line w) = Some w"
  using unat_u32_less[of w] by (simp add: read_word_def word_line_def read_base_hex_pad)

lemma read_base_foreign: "digit_val c = None \<Longrightarrow> c \<in> set s \<Longrightarrow> read_base b acc s = None"
  by (induction s arbitrary: acc) (auto split: option.split)

lemma read_word_label: "read_word (n @ '':'') = None"
proof (cases "take 12 (n @ '':'') = ''    .word 0x''")
  case False
  then show ?thesis by (simp add: read_word_def)
next
  case True
  have "CHR '':'' \<in> set (drop 12 (n @ '':''))"
  proof (cases "12 \<le> length n")
    case True
    then show ?thesis by simp
  next
    case False
    then have "take 12 (n @ '':'') = n @ '':''" by simp
    with True have "last (n @ '':'') = CHR ''x''" by (metis append_butlast_last_id last.simps last_ConsR list.simps(3))
    then show ?thesis by simp
  qed
  moreover have "digit_val CHR '':'' = None" by (simp add: digit_val_def)
  ultimately show ?thesis by (simp add: read_word_def read_base_foreign)
qed

lemma read_data_lines_append:
  "read_data_lines (map (\<lambda>i. word_line (f i)) is @ ls) =
   (case read_data_lines ls of None \<Rightarrow> None | Some (ws, bs) \<Rightarrow> Some (map f is @ ws, bs))"
  by (induction "is") (auto simp: read_word_printed split: option.split)

lemma data_word_at:
  assumes "bytes_big_endian L" and "i < 8"
  shows "data_word (Bytes32 L v) i = word_at i v"
proof -
  note be_byte[of _ v]
  from this[of "4 * i"] this[of "4 * i + 1"] this[of "4 * i + 2"] this[of "4 * i + 3"]
  have bytes: "be_bytes 32 (unat v) ! (31 - 4 * i) = ucast (drop_bit (32 * i) v)"
    "be_bytes 32 (unat v) ! (31 - (4 * i + 1)) = ucast (drop_bit (32 * i + 8) v)"
    "be_bytes 32 (unat v) ! (31 - (4 * i + 2)) = ucast (drop_bit (32 * i + 16) v)"
    "be_bytes 32 (unat v) ! (31 - (4 * i + 3)) = ucast (drop_bit (32 * i + 24) v)"
    using assms(2) by (simp_all add: algebra_simps)
  have "(7 - i) * 4 + 3 = 31 - 4 * i" "(7 - i) * 4 + 2 = 31 - (4 * i + 1)"
    "(7 - i) * 4 + 1 = 31 - (4 * i + 2)" "(7 - i) * 4 = 31 - (4 * i + 3)"
    using assms(2) by arith+
  note bytes = bytes[folded this]
  with assms(1) bytes bytes_of_word[of "32 * i" v] show ?thesis
    by (simp add: data_word_def bytes_big_endian_def word_at_def Let_def)
qed

lemma read_data_variable:
  assumes "bytes_big_endian L" and "read_data_lines ls = Some ([], bs)"
  shows "read_data_lines (data_lines L d @ ls) =
    Some ([], (VarName d, map (\<lambda>i. word_at i (VarValue d)) [0..<8]) # bs)"
proof -
  have "map (data_word (Bytes32 L (VarValue d))) [0..<8] = map (\<lambda>i. word_at i (VarValue d)) [0..<8]"
    using data_word_at[OF assms(1)] by (intro map_cong) auto
  with assms(2) read_data_lines_append[of "data_word (Bytes32 L (VarValue d))" "[0..<8]" ls]
  show ?thesis
    unfolding data_lines_def append_Cons read_data_lines.simps
    by (simp only: read_word_label option.case prod.case append_Nil2) simp
qed

lemma read_data_variables:
  assumes "bytes_big_endian L"
  shows "read_data_lines (concat (map (data_lines L) ds)) =
    Some ([], map (\<lambda>d. (VarName d, map (\<lambda>i. word_at i (VarValue d)) [0..<8])) ds)"
  by (induction ds) (simp_all add: read_data_variable[OF assms])

section \<open>Code\<close>

text \<open>Operands and mnemonics the assembler can tell apart: no blanks, commas or line ends.\<close>

definition clean :: "string \<Rightarrow> bool" where
  "clean s \<longleftrightarrow> s \<noteq> [] \<and> newline \<notin> set s \<and> tabulator \<notin> set s \<and> CHR '' '' \<notin> set s \<and> CHR '','' \<notin> set s"

definition clean_instr :: "instruction \<Rightarrow> bool" where
  "clean_instr i \<longleftrightarrow> clean (Name i) \<and> list_all clean (Operands i)"

definition read_operands :: "string \<Rightarrow> string list" where
  "read_operands s = (if s = [] then [] else map (dropWhile (\<lambda>c. c = CHR '' '')) (split_at CHR '','' s))"

definition read_code_line :: "string \<Rightarrow> instruction option" where
  "read_code_line s =
     (case s of
        [] \<Rightarrow> None
      | c # r \<Rightarrow>
          if c = tabulator then
            Some \<lparr>Name = takeWhile (\<lambda>c. c \<noteq> CHR '' '') r,
                  Operands = read_operands (drop 1 (dropWhile (\<lambda>c. c \<noteq> CHR '' '') r))\<rparr>
          else None)"

definition read_code :: "string \<Rightarrow> instruction list option" where
  "read_code s = (if s = [] then Some [] else those (map read_code_line (split_at newline s)))"

lemma split_operands:
  "list_all clean (x # xs) \<Longrightarrow> split_at CHR '','' (join '', '' (x # xs)) = x # map ((#) CHR '' '') xs"
proof (induction xs arbitrary: x)
  case Nil
  then show ?case by (simp add: clean_def split_at_plain)
next
  case (Cons y ys)
  have "split_at CHR '','' (CHR '' '' # join '', '' (y # ys)) = (CHR '' '' # y) # map ((#) CHR '' '') ys"
    using Cons.IH[of y] Cons.prems by simp
  with Cons.prems show ?case
    by (simp add: clean_def split_at_append)
qed

lemma drop_blank: "clean x \<Longrightarrow> dropWhile (\<lambda>c. c = CHR '' '') x = x"
  by (cases x) (auto simp: clean_def)

lemma join_nonempty: "x \<noteq> [] \<Longrightarrow> join sep (x # xs) \<noteq> []"
  by (cases xs) auto

lemma read_operands_join: "list_all clean ops \<Longrightarrow> read_operands (join '', '' ops) = ops"
proof (cases ops)
  case (Cons x xs)
  assume clean: "list_all clean ops"
  have "map (\<lambda>x. dropWhile (\<lambda>c. c = CHR '' '') (CHR '' '' # x)) xs = xs"
    using clean Cons by (intro map_idI) (auto simp: list_all_iff drop_blank)
  with clean Cons split_operands[of x xs] join_nonempty[of x "'', ''" xs] show ?thesis
    by (simp add: read_operands_def drop_blank comp_def) (simp add: clean_def)
qed (simp add: read_operands_def)

lemma span_blank:
  "CHR '' '' \<notin> set n \<Longrightarrow> takeWhile (\<lambda>c. c \<noteq> CHR '' '') (n @ CHR '' '' # r) = n \<and>
    dropWhile (\<lambda>c. c \<noteq> CHR '' '') (n @ CHR '' '' # r) = CHR '' '' # r"
  by (induction n) auto

lemma read_code_line_printed:
  assumes "clean_instr i"
  shows "code_line RuntimeUnicorn i = Inr l \<Longrightarrow> read_code_line l = Some i"
proof -
  assume "code_line RuntimeUnicorn i = Inr l"
  then have l: "l = tabulator # Name i @ CHR '' '' # join '', '' (Operands i)"
    by (simp add: code_line_def)
  have "CHR '' '' \<notin> set (Name i)" using assms by (simp add: clean_instr_def clean_def)
  with assms show ?thesis
    by (simp add: l read_code_line_def span_blank clean_instr_def read_operands_join)
qed

lemma join_chars: "c \<in> set (join sep xs) \<Longrightarrow> c \<in> set sep \<or> (\<exists>x\<in>set xs. c \<in> set x)"
  by (induction sep xs rule: join.induct) auto

lemma line_no_newline:
  assumes "clean_instr i" and "code_line RuntimeUnicorn i = Inr l"
  shows "newline \<notin> set l \<and> l \<noteq> []"
proof -
  have "l = tabulator # Name i @ CHR '' '' # join '', '' (Operands i)"
    using assms(2) by (simp add: code_line_def)
  moreover have "newline \<notin> set (join '', '' (Operands i))"
    using assms(1) join_chars[of newline "'', ''" "Operands i"]
    by (auto simp: clean_instr_def clean_def list_all_iff newline_def)
  ultimately show ?thesis
    using assms(1) by (auto simp: clean_instr_def clean_def newline_def tabulator_def)
qed

lemma code_lines_read:
  "list_all clean_instr is \<Longrightarrow> code_lines RuntimeUnicorn is = Inr ls \<Longrightarrow>
   those (map read_code_line ls) = Some is \<and> (\<forall>l\<in>set ls. newline \<notin> set l \<and> l \<noteq> []) \<and>
   length ls = length is"
proof (induction "is" arbitrary: ls)
  case Nil
  then show ?case by simp
next
  case (Cons i "is")
  from Cons.prems obtain l ls' where l: "code_line RuntimeUnicorn i = Inr l"
    "code_lines RuntimeUnicorn is = Inr ls'" "ls = l # ls'" by auto
  with Cons.IH[OF _ l(2)] Cons.prems read_code_line_printed[of i l] line_no_newline[of i l]
  show ?case by simp
qed

lemma toFile_reads:
  assumes "list_all clean_instr (Instructions f)" and "toFile RuntimeUnicorn f = Inr s"
  shows "read_code s = Some (Instructions f)"
proof -
  from assms(2) obtain ls where ls: "code_lines RuntimeUnicorn (Instructions f) = Inr ls" "s = join [newline] ls"
    by (auto simp: toFile_def)
  note r = code_lines_read[OF assms(1) ls(1)]
  show ?thesis
  proof (cases ls)
    case Nil
    with r ls show ?thesis by (simp add: read_code_def)
  next
    case (Cons l ls')
    with r have "s \<noteq> []" unfolding ls(2) Cons by (intro join_nonempty) simp
    moreover have "split_at newline s = ls"
      unfolding ls(2) using r Cons by (intro split_join) auto
    ultimately show ?thesis using r by (simp add: read_code_def)
  qed
qed

lemma code_lines_total: "\<exists>ls. code_lines RuntimeUnicorn is = Inr ls"
  by (induction "is") (auto simp: code_line_def)

lemma toFile_total: "\<exists>s. toFile RuntimeUnicorn f = Inr s"
  using code_lines_total[of "Instructions f"] by (auto simp: toFile_def)

end
