(* ===== verification/AssemblyProps.thy ===== *)
theory AssemblyProps
  imports Assembly TranspilerProps
begin

text \<open>
  Properties of the assembly files: the text of data section and code read back, and the code that
  the text for OpenVM reads back as.
\<close>

section \<open>Emitted code is clean text\<close>

lemma read_base_digits: "read_base b acc s = Some n \<Longrightarrow> c \<in> set s \<Longrightarrow> digit_val c \<noteq> None"
  using read_base_foreign[of c s b acc] by auto

lemma foreign_chars:
  "digit_val newline = None" "digit_val tabulator = None" "digit_val CHR '' '' = None" "digit_val CHR '','' = None"
  by (simp_all add: digit_val_def newline_def tabulator_def)

lemma not_minus: "newline \<noteq> CHR ''-''" "tabulator \<noteq> CHR ''-''"
  by (simp_all add: newline_def tabulator_def)

lemma clean_digits:
  assumes "s \<noteq> []" and "\<And>c. c \<in> set s \<Longrightarrow> digit_val c \<noteq> None \<or> c = CHR ''-''"
  shows "clean s"
  using assms(1) assms(2)[of newline] assms(2)[of tabulator] assms(2)[of "CHR '' ''"] assms(2)[of "CHR '',''"]
  by (auto simp: clean_def foreign_chars not_minus)

lemma read_int_clean: "read_int s = Some k \<Longrightarrow> clean s"
proof (rule clean_digits)
  assume k: "read_int s = Some k"
  then show "s \<noteq> []" by (auto simp: read_int_def)
  fix c assume c: "c \<in> set s"
  obtain x xs where s: "s = x # xs" using c by (cases s) auto
  show "digit_val c \<noteq> None \<or> c = CHR ''-''"
  proof (cases "x = CHR ''-''")
    case True
    with k s obtain n where "read_base 10 0 xs = Some n"
      by (auto simp: read_int_def read_nat_def split: if_splits)
    with c s True read_base_digits show ?thesis by auto
  next
    case False
    with k s obtain n where "read_base 10 0 s = Some n"
      by (auto simp: read_int_def read_nat_def)
    with c read_base_digits show ?thesis by blast
  qed
qed

lemma read_imm_clean: "read_imm12 s = Some k \<Longrightarrow> clean s" "read_imm32 s = Some k \<Longrightarrow> clean s"
  by (auto simp: read_imm12_def read_imm32_def intro: read_int_clean split: option.splits if_splits)

lemma read_reg_clean: "read_reg s = Some r \<Longrightarrow> clean s"
  unfolding read_reg_def reg_names_def
  by (drule map_of_SomeD) (auto simp: clean_def newline_def tabulator_def)

lemma clean_append: "clean s \<Longrightarrow> newline \<notin> set t \<Longrightarrow> tabulator \<notin> set t \<Longrightarrow> CHR '' '' \<notin> set t \<Longrightarrow>
  CHR '','' \<notin> set t \<Longrightarrow> clean (s @ t)"
  by (auto simp: clean_def)

lemma read_addr_clean: "read_addr s = Some p \<Longrightarrow> clean s"
proof -
  let ?a = "takeWhile (\<lambda>c. c \<noteq> CHR ''('') s" and ?b = "dropWhile (\<lambda>c. c \<noteq> CHR ''('') s"
  assume "read_addr s = Some p"
  then obtain c r k x where b: "?b = c # r" and r: "r \<noteq> []" "last r = CHR '')''"
    and k: "read_imm12 ?a = Some k" and x: "read_reg (butlast r) = Some x"
    by (auto simp: read_addr_def split: list.splits option.splits if_splits)
  have c: "c = CHR ''(''"
    using b hd_dropWhile[of "\<lambda>c. c \<noteq> CHR ''(''" s] by auto
  have "r = butlast r @ [CHR '')'']" using r by (metis append_butlast_last_id)
  moreover have "s = ?a @ ?b" by simp
  ultimately have s: "s = ?a @ (CHR ''('' # butlast r @ [CHR '')''])" using b c by metis
  have "clean (?a @ (CHR ''('' # butlast r @ [CHR '')'']))"
    using read_imm_clean(1)[OF k] read_reg_clean[OF x]
    by (intro clean_append) (auto simp: clean_def newline_def tabulator_def)
  with s show ?thesis by simp
qed

lemma data_var_clean: "clean (data_var i)"
proof -
  have "digit d \<notin> {newline, tabulator, CHR '' '', CHR '',''}" if "d < 10" for d
    using that less_16_cases[of d] by (auto simp: digit_def newline_def tabulator_def)
  then have "{newline, tabulator, CHR '' '', CHR '',''} \<inter> set (show_nat i) = {}"
    using set_show_nat by fastforce
  then show ?thesis
    by (auto simp: data_var_def clean_def newline_def tabulator_def)
qed

lemma label_clean: "resolve ds l = Some v \<Longrightarrow> clean l"
  using data_var_clean by (auto simp: resolve_iff)

lemma lib_clean: "f \<in> set lib_globals \<Longrightarrow> clean f"
  by (auto simp: lib_globals_def clean_def newline_def tabulator_def)

lemma mnemonic_clean:
  "clean ''addi''" "clean ''li''" "clean ''la''" "clean ''lw''" "clean ''sw''" "clean ''lb''" "clean ''sb''"
  "clean ''mv''" "clean ''call''" "clean ''EBREAK''" "clean ''NOP''"
  by (simp_all add: clean_def newline_def tabulator_def)

lemma decode_clean:
  assumes "decode i = Some c" and "operand_ok ds c"
  shows "clean_instr i"
proof -
  have "clean (Name i)"
    using assms(1) mnemonic_clean by (auto simp: decode_def split: if_splits)
  moreover have "list_all clean (Operands i)"
    using assms by (auto simp: decode_defs dest: read_reg_clean read_imm_clean read_addr_clean
        label_clean lib_clean split: if_splits list.splits option.splits)
  ultimately show ?thesis by (simp add: clean_instr_def)
qed

lemma code_ok_clean: "code_ok ds is \<Longrightarrow> list_all clean_instr is"
proof (induction "is")
  case Nil
  show ?case by simp
next
  case (Cons i "is")
  then have "code_ok ds [i]" "code_ok ds is"
    using code_ok_append[of ds "[i]" "is"] by simp_all
  moreover from this(1) have "clean_instr i"
    by (auto simp: code_ok_def intro: decode_clean split: option.splits)
  ultimately show ?case using Cons.IH by simp
qed

section \<open>Reading the files back\<close>

text \<open>
  C17. The code text of a transpiled trace, whose memory copies stay in the first \<open>2 ^ 32\<close> bytes where
  the configuration emits them, reads back as the generated instructions: printing an assembly
  file for the debug target loses nothing of a program the transpiler makes.
\<close>

theorem code_text_round_trip:
  assumes "ProcessExecution L ins st (NewTranspilerWithConfig cfg) = Inr (tr', sn)"
    and "hex_injective L" and "list_all (mcopy_fits cfg) ins"
  shows "\<exists>s. toFile RuntimeUnicorn (ToAssembly tr') = Inr s \<and>
    read_code s = Some (Instructions (ToAssembly tr'))"
proof -
  have "tr_inv L tr'"
    using ProcessExecution_inv[OF assms(1) tr_inv_new[OF assms(2)]] assms(3)
    by (simp add: NewTranspilerWithConfig_def)
  then have "list_all clean_instr (Instructions (ToAssembly tr'))"
    by (auto simp: tr_inv_def ToAssembly_def intro: code_ok_clean)
  with toFile_reads toFile_total show ?thesis by blast
qed

theorem code_text_round_trip_witness:
  "\<exists>tr' sn s. ProcessExecution sample_lib copy_trace (Some demo_state)
      (NewTranspilerWithConfig (config NewTestTranspiler)) = Inr (tr', sn) \<and>
    toFile RuntimeUnicorn (ToAssembly tr') = Inr s \<and> read_code s = Some (Instructions (ToAssembly tr'))"
  using copy_runs[of "NewTranspilerWithConfig (config NewTestTranspiler)"]
    code_text_round_trip[OF _ sample_lib_hex copy_trace_fits] by blast

text \<open>
  C18. The data text reads back as the data section with its memory layout: each label followed by
  the eight little-endian words of its value, the least significant first, which is the layout
  the generated loads expect.
\<close>

theorem data_text_round_trip:
  assumes "bytes_big_endian L" and "list_all (\<lambda>d. newline \<notin> set (VarName d)) (DataSec f)"
  shows "read_data (generateDataSection L f) =
    Some (map (\<lambda>d. (VarName d, map (\<lambda>i. word_at i (VarValue d)) [0..<8])) (DataSec f))"
proof (cases "DataSec f")
  case Nil
  then show ?thesis by (simp add: generateDataSection_def read_data_def)
next
  case (Cons d ds)
  let ?ls = "concat (map (data_lines L) (DataSec f))"
  have "newline \<notin> set (word_line w)" for w
  proof -
    have "CHR 0x0A \<noteq> digit (n mod 16)" for n
      using digit_not_newline[of "n mod 16"] by (metis mod_less_divisor zero_less_numeral)
    then have "newline \<notin> set (hex_pad k n)" for k n
      by (induction k arbitrary: n) (simp_all add: newline_def)
    then show ?thesis by (simp add: word_line_def newline_def)
  qed
  then have "newline \<notin> set l" if "l \<in> set ?ls" for l
    using assms(2) that by (auto simp: data_lines_def list_all_iff newline_def)
  moreover have ne: "?ls \<noteq> []" by (simp add: Cons data_lines_def)
  ultimately have split: "split_at newline (join [newline] ?ls) = ?ls" by (intro split_join)
  have "join [newline] ?ls \<noteq> []"
    using join_nonempty[of "VarName d @ '':''" "[newline]"] by (simp add: Cons data_lines_def)
  moreover have "generateDataSection L f = join [newline] ?ls"
    using Cons by (simp only: generateDataSection_def list.distinct if_False)
  ultimately show ?thesis
    by (simp only: read_data_def split if_False read_data_variables[OF assms(1)]
        option.case prod.case list.case)
qed

theorem data_text_round_trip_witness:
  "read_data (generateDataSection sample_lib
      \<lparr>Instructions = [], DataSec = [\<lparr>VarName = ''data_var_0'', VarValue = 5\<rparr>]\<rparr>) =
    Some [(''data_var_0'', map (\<lambda>i. word_at i 5) [0..<8])]"
  using data_text_round_trip[OF sample_lib_bytes, of
    "\<lparr>Instructions = [], DataSec = [\<lparr>VarName = ''data_var_0'', VarValue = 5\<rparr>]\<rparr>"]
  by (simp add: newline_def)

section \<open>The OpenVM text\<close>

text \<open>What the OpenVM target prints, as instructions: no markers, calls of its own routines.\<close>

definition openvm_instr :: "instruction \<Rightarrow> instruction" where
  "openvm_instr i =
     (if Name i = ''call'' then
        instr ''call'' [(case openVMPrecompiles (hd (Operands i)) of Some p \<Rightarrow> p | None \<Rightarrow> hd (Operands i))]
      else i)"

definition openvm_code :: "instruction list \<Rightarrow> instruction list" where
  "openvm_code is = map openvm_instr (filter (\<lambda>i. Name i \<noteq> InstructionEBREAK) is)"

lemma openvm_lines:
  "list_all (\<lambda>i. Name i = ''call'' \<longrightarrow> Operands i \<noteq> []) is \<Longrightarrow>
   code_lines RuntimeTargetOpenVM is = code_lines RuntimeUnicorn (openvm_code is)"
  unfolding openvm_code_def
proof (induction "is")
  case Nil
  show ?case by simp
next
  case (Cons i "is")
  then have IH: "code_lines RuntimeTargetOpenVM is =
      code_lines RuntimeUnicorn (map openvm_instr (filter (\<lambda>i. Name i \<noteq> InstructionEBREAK) is))"
    by simp
  have "code_line RuntimeTargetOpenVM i = code_line RuntimeUnicorn (openvm_instr i)"
  proof (cases "Name i = ''call''")
    case True
    with Cons.prems obtain g gs where "Operands i = g # gs" by (cases "Operands i") auto
    then have "go_index (Operands i) 0 = Inr (hd (Operands i))" by (simp add: go_index_def)
    with True show ?thesis by (simp add: code_line_def openvm_instr_def)
  qed (simp add: code_line_def openvm_instr_def)
  with IH show ?case by simp
qed

lemma toZkFile_openvm_code:
  assumes "list_all (\<lambda>i. Name i = ''call'' \<longrightarrow> Operands i \<noteq> []) (Instructions f)"
  shows "toZkFile f = toFile RuntimeUnicorn (f\<lparr>Instructions := openvm_code (Instructions f)\<rparr>)"
  using openvm_lines[OF assms] by (simp add: toZkFile_def toFile_def)

lemma precompile_clean: "openVMPrecompiles f = Some p \<Longrightarrow> clean p"
  unfolding openVMPrecompiles_def
  by (drule map_of_SomeD) (auto simp: clean_def newline_def tabulator_def)

lemma openvm_code_clean:
  assumes "list_all clean_instr is" and "list_all (\<lambda>i. Name i = ''call'' \<longrightarrow> Operands i \<noteq> []) is"
  shows "list_all clean_instr (openvm_code is)"
proof -
  have "clean_instr (openvm_instr i)" if "i \<in> set is" for i
  proof (cases "Name i = ''call''")
    case True
    with that assms(2) obtain g gs where g: "Operands i = g # gs"
      by (cases "Operands i") (auto simp: list_all_iff)
    have "clean g" using assms(1) that g by (auto simp: list_all_iff clean_instr_def)
    then have "clean (case openVMPrecompiles g of Some p \<Rightarrow> p | None \<Rightarrow> g)"
      using precompile_clean by (auto split: option.split)
    moreover have "hd (Operands i) = g" using g by simp
    ultimately show ?thesis
      using True mnemonic_clean(9) by (simp add: openvm_instr_def clean_instr_def cong: option.case_cong)
  next
    case False
    then show ?thesis using that assms(1) by (simp add: openvm_instr_def list_all_iff)
  qed
  then show ?thesis by (auto simp: openvm_code_def list_all_iff)
qed

text \<open>The printed text reads back as these instructions.\<close>

lemma zk_text_reads:
  assumes "list_all clean_instr (Instructions f)"
    and "list_all (\<lambda>i. Name i = ''call'' \<longrightarrow> Operands i \<noteq> []) (Instructions f)"
  shows "\<exists>s. toZkFile f = Inr s \<and> read_code s = Some (openvm_code (Instructions f))"
proof -
  let ?f = "f\<lparr>Instructions := openvm_code (Instructions f)\<rparr>"
  have clean: "list_all clean_instr (Instructions ?f)" using openvm_code_clean[OF assms] by simp
  obtain s where s: "toFile RuntimeUnicorn ?f = Inr s" using toFile_total by blast
  from toFile_reads[OF clean s] s toZkFile_openvm_code[OF assms(2)] show ?thesis by simp
qed

end
