(* ===== verification/WideCode.thy ===== *)
theory WideCode
  imports HostCode
begin

text \<open>
  The code of a trace at full width, when hosted opcodes call the library. An abstract slot is
  known entirely (\<open>Full\<close>), or, after a literal or a \<open>DUP\<close>, in its low word only (\<open>Low\<close>).
  \<open>wide_step\<close> runs the abstract stack instructions and the hosted opcodes on such slots;
  \<open>wide_sim\<close> interprets the simulation of StackCode on the machine linked with the library, and
  \<open>wide_plan\<close> gives the instructions of a trace entry.
\<close>

unbundle bit_operations_syntax

section \<open>Slots\<close>

datatype slot = Full u256 | Low u32

fun low_of :: "slot \<Rightarrow> u32" where
  "low_of (Full v) = word_at 0 v"
| "low_of (Low w) = w"

definition set_low :: "u256 \<Rightarrow> u32 \<Rightarrow> u256" where
  "set_low v w = of_words (w # map (\<lambda>j. word_at j v) [1..<8])"

fun with_low :: "slot \<Rightarrow> u32 \<Rightarrow> slot" where
  "with_low (Full v) w = Full (set_low v w)"
| "with_low (Low _) w = Low w"

lemma low_of_with_low [simp]: "low_of (with_low s w) = w"
  by (cases s) (simp_all add: set_low_def word_at_of_words)

definition slot_at :: "memory \<Rightarrow> u32 \<Rightarrow> slot \<Rightarrow> bool" where
  "slot_at mm a s = (case s of Full v \<Rightarrow> holds mm a v | Low w \<Rightarrow> rd32 mm a = w)"

lemma slot_at_low: "slot_at mm a s \<Longrightarrow> rd32 mm a = low_of s"
  using holds_at[of mm a _ 0] by (cases s) (auto simp: slot_at_def)

lemma slot_at_cong:
  assumes "\<And>j. j < 8 \<Longrightarrow> rd32 mm' (a + word_of_nat (4 * j)) = rd32 mm (a + word_of_nat (4 * j))"
  shows "slot_at mm' a s \<longleftrightarrow> slot_at mm a s"
  using assms assms[of 0] by (cases s) (simp_all add: slot_at_def holds_def)

lemma slot_at_Low: "slot_at mm a s \<Longrightarrow> slot_at mm a (Low (low_of s))"
  using slot_at_low[of mm a s] by (simp add: slot_at_def)

text \<open>Some value is in every slot.\<close>

definition approx :: "slot \<Rightarrow> u256 \<Rightarrow> bool" where
  "approx s v = (case s of Full v' \<Rightarrow> v = v' | Low w \<Rightarrow> word_at 0 v = w)"

lemma slot_value: "slot_at mm a s \<Longrightarrow> \<exists>v. holds mm a v \<and> approx s v"
proof -
  assume s: "slot_at mm a s"
  have h: "holds mm a (of_words (slot_words mm a))" by (rule holds_of_words) simp
  then have "rd32 mm a = word_at 0 (of_words (slot_words mm a))" using holds_at[OF h, of 0] by simp
  with s h show ?thesis by (cases s) (auto simp: slot_at_def approx_def)
qed

lemma approx_low: "approx s v \<Longrightarrow> word_at 0 v = low_of s"
  by (cases s) (simp_all add: approx_def)

text \<open>Writing the low word of a slot.\<close>

lemma slot_at_write:
  assumes "slot_at mm a s" shows "slot_at (wr32 mm a w) a (with_low s w)"
proof (cases s)
  case (Full v)
  have "rd32 (wr32 mm a w) (a + word_of_nat (4 * j)) = word_at j (set_low v w)" if "j < 8" for j
  proof (cases j)
    case 0
    then show ?thesis by (simp add: rd32_wr32 set_low_def word_at_of_words)
  next
    case (Suc i)
    have "far a (a + word_of_nat (4 * j))" using far_words[of 0 j a] Suc that by simp
    moreover have "rd32 mm (a + word_of_nat (4 * j)) = word_at j v"
      using assms that Full by (simp add: slot_at_def holds_def)
    moreover have "word_at j (set_low v w) = word_at j v"
      using Suc that by (simp add: set_low_def word_at_of_words del: upt_rec_numeral)
    ultimately show ?thesis by (simp add: rd32_wr32_far)
  qed
  with Full show ?thesis by (simp add: slot_at_def holds_def)
qed (simp add: slot_at_def rd32_wr32)

section \<open>Hosted opcodes on slots\<close>

text \<open>Opcodes whose low result word is a function of the low words of the operands.\<close>

definition wordwise :: "opcode list" where
  "wordwise = [vm_ADD, vm_SUB, vm_AND, vm_OR, vm_XOR]"

fun not_slot :: "slot \<Rightarrow> slot" where
  "not_slot (Full v) = Full (NOT v)"
| "not_slot (Low w) = Low (NOT w)"

definition compute_slots :: "opcode \<Rightarrow> slot list \<Rightarrow> slot list option" where
  "compute_slots op ss =
     (if op = vm_NOT then (case ss of [] \<Rightarrow> None | s # r \<Rightarrow> Some (not_slot s # r))
      else case lib_binary op of None \<Rightarrow> None | Some g \<Rightarrow>
        (case ss of
           Full x # Full y # r \<Rightarrow> Some (Full (g x y) # r)
         | a # b # r \<Rightarrow>
             if op \<in> set wordwise then Some (Low (word_at 0 (g (ucast (low_of a)) (ucast (low_of b)))) # r) else None
         | _ \<Rightarrow> None))"

lemma low_add: "word_at 0 (x + y) = word_at 0 x + word_at 0 y"
proof -
  have "(unat x + unat y) mod 2 ^ 256 mod 2 ^ 32 = (unat x + unat y) mod 2 ^ 32"
    by (rule mod_mod_cancel) (simp add: le_imp_power_dvd)
  then show ?thesis
    unfolding word_unat_eq_iff by (simp add: unat_word_ariths unat_word_at mod_add_eq)
qed

lemma low_sub: "word_at 0 (x - y) = word_at 0 x - word_at 0 y"
  using low_add[of "x - y" y] by (simp add: algebra_simps)

lemma wordwise_low:
  assumes "op \<in> set wordwise" "lib_binary op = Some g"
    and "word_at 0 x = word_at 0 x'" "word_at 0 y = word_at 0 y'"
  shows "word_at 0 (g x y) = word_at 0 (g x' y')"
  using assms by (auto simp: wordwise_def lib_binary_def low_add low_sub word_at_bitwise)

text \<open>What a call leaves agrees with the abstract result.\<close>

lemma compute_slots_binary:
  assumes "compute_slots op ss = Some ss'" "op \<noteq> vm_NOT"
  obtains g a b r s where "lib_binary op = Some g" "ss = a # b # r" "ss' = s # r"
    "\<And>x y. approx a x \<Longrightarrow> approx b y \<Longrightarrow> approx s (g x y)"
proof -
  from assms obtain g where g: "lib_binary op = Some g" by (auto simp: compute_slots_def split: option.splits)
  from assms g obtain a b r where ss: "ss = a # b # r"
    by (auto simp: compute_slots_def split: list.splits slot.splits)
  show ?thesis
  proof (cases "\<exists>x y. a = Full x \<and> b = Full y")
    case True
    then obtain x y where "a = Full x" "b = Full y" by blast
    with assms g ss show ?thesis
      by (intro that[OF g ss, of "Full (g x y)"]) (simp_all add: compute_slots_def approx_def)
  next
    case False
    let ?w = "word_at 0 (g (ucast (low_of a)) (ucast (low_of b)))"
    from False assms g ss have w: "op \<in> set wordwise" "ss' = Low ?w # r"
      by (auto simp: compute_slots_def split: slot.splits if_splits)
    have low: "word_at 0 (ucast (v :: u32)) = v" for v
      by (rule bit_word_eqI) (auto simp: word_at_def bit_simps dest: bit_imp_le_length)
    have "approx (Low ?w) (g x y)" if "approx a x" "approx b y" for x y
      using wordwise_low[OF w(1) g, of x "ucast (low_of a)" y "ucast (low_of b)"] that
      by (simp add: approx_def[of "Low _"] approx_low low)
    with w(2) show ?thesis by (intro that[OF g ss])
  qed
qed

lemma not_slot_approx: "approx s v \<Longrightarrow> approx (not_slot s) (NOT v)"
  by (cases s) (simp_all add: approx_def word_at_not)


section \<open>The relation\<close>

definition wide_rel :: "asm_env \<Rightarrow> data_section \<Rightarrow> nat \<Rightarrow> nat \<Rightarrow> slot list \<Rightarrow> mach \<Rightarrow> bool" where
  "wide_rel env ds lo cap ss m \<longleftrightarrow>
     unat (get_reg m SP) + 32 * length ss = lo + 32 * cap \<and> lo + 32 * cap < 2 ^ 32 \<and>
     length ss \<le> cap \<and> data_rel env ds lo (mem m) \<and>
     (\<forall>i<length ss. slot_at (mem m) (get_reg m SP + word_of_nat (32 * i)) (ss ! i))"

lemma wide_relD:
  assumes "wide_rel env ds lo cap ss m"
  shows "unat (get_reg m SP) + 32 * length ss = lo + 32 * cap" "lo + 32 * cap < 2 ^ 32"
    "length ss \<le> cap" "data_rel env ds lo (mem m)"
    "i < length ss \<Longrightarrow> slot_at (mem m) (get_reg m SP + word_of_nat (32 * i)) (ss ! i)"
  using assms by (simp_all add: wide_rel_def)

lemma wide_rel_room:
  "wide_rel env ds lo cap ss m \<Longrightarrow> length ss < cap \<Longrightarrow> lo + 32 \<le> unat (get_reg m SP)"
  using wide_relD(1) by fastforce

text \<open>The words of slot \<open>i\<close> above an address \<open>s\<close>.\<close>

lemma slot_word_unat:
  assumes "unat (s :: u32) + 32 * n \<le> 2 ^ 32 - 1" "i < n" "j < 8"
  shows "unat (s + word_of_nat (32 * i) + word_of_nat (4 * j)) = unat s + 32 * i + 4 * j"
proof -
  have "unat s + (32 * i + 4 * j) < 2 ^ 32" using assms by simp
  then show ?thesis using unat_add_small[of s "32 * i + 4 * j"] by (simp add: algebra_simps)
qed

text \<open>
  Memory may change below the stack pointer and in the data-free room only: what a push does, and
  what pops leave.
\<close>

lemma wide_rel_shrink:
  assumes "wide_rel env ds lo cap (s # ss) m" and "get_reg m' SP = get_reg m SP + 32" "mem m' = mem m"
  shows "wide_rel env ds lo cap ss m'"
proof -
  note D = wide_relD[OF assms(1)]
  have "unat (get_reg m SP + word_of_nat 32) = unat (get_reg m SP) + 32"
    using D(1,2) by (intro unat_add_small) simp
  moreover have "slot_at (mem m) (get_reg m SP + 32 + word_of_nat (32 * i)) (ss ! i)" if "i < length ss" for i
    using D(5)[of "Suc i"] that by (simp add: algebra_simps)
  ultimately show ?thesis
    using D(1-4) assms(2,3) by (simp add: wide_rel_def)
qed

lemma wide_rel_push:
  assumes rel: "wide_rel env ds lo cap ss m" and room: "length ss < cap"
    and push: "slot_pushed m m'" and s: "slot_at (mem m') (get_reg m' SP) s"
  shows "wide_rel env ds lo cap (s # ss) m'"
proof -
  note D = wide_relD[OF rel]
  have lo: "lo + 32 \<le> unat (get_reg m SP)" using wide_rel_room[OF rel room] .
  have sp': "get_reg m' SP = get_reg m SP - 32" using push by (simp add: slot_pushed_def)
  have "unat (get_reg m' SP) = unat (get_reg m SP) - 32"
    unfolding sp' using lo by (intro unat_sub32) simp
  then have base: "unat (get_reg m' SP) + 32 * length (s # ss) = lo + 32 * cap" using D(1) lo by simp
  have data: "data_rel env ds lo (mem m')"
    using data_rel_same_below[OF D(4) slot_pushed_below[OF push lo]] D(2) by simp
  have old: "slot_at (mem m') (get_reg m SP + word_of_nat (32 * i)) (ss ! i)" if i: "i < length ss" for i
  proof -
    have "unat (get_reg m SP) + 32 * length ss \<le> 2 ^ 32 - 1" using D(1,2) by simp
    note u = slot_word_unat[OF this i]
    have "rd32 (mem m') (get_reg m SP + word_of_nat (32 * i) + word_of_nat (4 * j)) =
        rd32 (mem m) (get_reg m SP + word_of_nat (32 * i) + word_of_nat (4 * j))" if "j < 8" for j
      using push u[OF that] that i D(1,2) by (simp add: slot_pushed_def)
    from slot_at_cong[OF this] D(5)[OF i] show ?thesis by blast
  qed
  have "slot_at (mem m') (get_reg m' SP + word_of_nat (32 * i)) ((s # ss) ! i)" if "i < length (s # ss)" for i
  proof (cases i)
    case 0
    with s show ?thesis by simp
  next
    case (Suc j)
    then have addr: "get_reg m' SP + word_of_nat (32 * i) = get_reg m SP + word_of_nat (32 * j)"
      by (simp add: sp' algebra_simps)
    show ?thesis unfolding addr using old[of j] that Suc by simp
  qed
  with base data room D(2) show ?thesis unfolding wide_rel_def by (intro conjI) simp_all
qed

text \<open>Changing one slot in place.\<close>

lemma outside_slot:
  assumes "unat a + 4 \<le> 2 ^ 32" "unat d + 32 \<le> 2 ^ 32" "unat a + 4 \<le> unat d \<or> unat d + 32 \<le> unat a"
  shows "outside d a"
proof -
  have "far (d + word_of_nat (4 * j)) a" if j: "j < 8" for j
  proof -
    have u: "unat (d + word_of_nat (4 * j)) = unat d + 4 * j" using assms(2) j by (intro unat_add_small) simp
    from assms(3) show ?thesis
    proof
      assume "unat a + 4 \<le> unat d"
      then show ?thesis using u j assms(2) by (subst far_sym) (intro far_below, simp_all)
    next
      assume "unat d + 32 \<le> unat a"
      then show ?thesis using u j assms(1) by (intro far_below) simp_all
    qed
  qed
  then show ?thesis by (simp add: outside_def)
qed

lemma wide_rel_update:
  assumes rel: "wide_rel env ds lo cap ss m" and k: "k < length ss"
    and sp: "get_reg m' SP = get_reg m SP"
    and out: "\<And>a. outside (get_reg m SP + word_of_nat (32 * k)) a \<Longrightarrow> rd32 (mem m') a = rd32 (mem m) a"
    and s: "slot_at (mem m') (get_reg m SP + word_of_nat (32 * k)) s"
  shows "wide_rel env ds lo cap (ss[k := s]) m'"
proof -
  note D = wide_relD[OF rel]
  let ?d = "get_reg m SP + word_of_nat (32 * k)"
  have small: "unat (get_reg m SP) + 32 * length ss \<le> 2 ^ 32 - 1" using D(1,2) by simp
  have d: "unat ?d = unat (get_reg m SP) + 32 * k" using slot_word_unat[OF small k, of 0] by simp
  have d32: "unat ?d + 32 \<le> 2 ^ 32" using d small k by simp
  have "slot_at (mem m') (get_reg m SP + word_of_nat (32 * i)) (ss[k := s] ! i)" if i: "i < length ss" for i
  proof (cases "i = k")
    case True
    with s k show ?thesis by simp
  next
    case False
    have "rd32 (mem m') (get_reg m SP + word_of_nat (32 * i) + word_of_nat (4 * j)) =
        rd32 (mem m) (get_reg m SP + word_of_nat (32 * i) + word_of_nat (4 * j))" if "j < 8" for j
      using slot_word_unat[OF small i that] d d32 that False small i
      by (intro out outside_slot) (auto simp: not_less dest!: le_neq_implies_less)
    from slot_at_cong[OF this] D(5)[OF i] False show ?thesis by simp
  qed
  moreover have "same_below lo (mem m) (mem m')"
    unfolding same_below_def using out[OF outside_slot[OF _ d32]] d D(1,2,3) k by auto
  ultimately show ?thesis
    using D(1-3) data_rel_same_below[OF D(4)] sp D(2) unfolding wide_rel_def by simp
qed


section \<open>Steps\<close>

datatype wide_op = Stack stack_op | Compute opcode

fun wide_step :: "nat \<Rightarrow> wide_op \<Rightarrow> slot list \<Rightarrow> slot list option" where
  "wide_step cap (Stack Pop) ss = (case ss of [] \<Rightarrow> None | _ # r \<Rightarrow> Some r)"
| "wide_step cap (Stack (PushWord w)) ss = (if length ss < cap then Some (Low w # ss) else None)"
| "wide_step cap (Stack (PushValue v)) ss = (if length ss < cap then Some (Full v # ss) else None)"
| "wide_step cap (Stack (Dup k)) ss =
     (if 1 \<le> k \<and> k \<le> 16 \<and> k \<le> length ss \<and> length ss < cap then Some (Low (low_of (ss ! (k - 1))) # ss) else None)"
| "wide_step cap (Stack (Swap k)) ss =
     (if 1 \<le> k \<and> k \<le> 16 \<and> k < length ss
      then Some (ss[0 := with_low (ss ! 0) (low_of (ss ! k)), k := with_low (ss ! k) (low_of (ss ! 0))]) else None)"
| "wide_step cap (Stack Mark) ss = Some ss"
| "wide_step cap (Compute op) ss = compute_slots op ss"

fun wide_lowers :: "third_party \<Rightarrow> data_section \<Rightarrow> wide_op \<Rightarrow> instruction list \<Rightarrow> bool" where
  "wide_lowers L ds (Stack i) is = lowers ds i is"
| "wide_lowers L ds (Compute op) is = (\<exists>n. \<forall>rs tr. arith_cases L op rs tr = Some (host tr is n))"

lemma wide_code_unique:
  assumes "arith_cases L op rs tr = Some (host tr cs n)" "arith_cases L op rs tr = Some (host tr cs' n')"
    and "\<not> DisableHostOptimizedOpcodes (config tr)"
  shows "cs = cs'"
  using assms by (simp add: host_def hostOptimizedOpcode_def emit_def) (metis append_same_eq same_append_eq
    transpiler.select_convs(1) transpiler.surjective transpiler.update_convs(1))

lemma slot_pushed_low:
  "rd32 (mem m') (get_reg m' SP) = w \<Longrightarrow> slot_at (mem m') (get_reg m' SP) (Low w)"
  by (simp add: slot_at_def)

text \<open>A hosted binary opcode.\<close>

lemma wide_rel_binary:
  assumes rel: "wide_rel env ds lo cap (a # b # r) m" and rep: "replaces m m' 1 v"
    and s: "approx s v"
  shows "wide_rel env ds lo cap (s # r) m'"
proof -
  let ?m = "set_reg SP (get_reg m SP + 32) m"
  have shrunk: "wide_rel env ds lo cap (b # r) ?m"
    using rel by (rule wide_rel_shrink) (simp_all add: mach_simps)
  have "slot_at (mem m') (get_reg m' SP) s"
    using rep s holds_at[of "mem m'" "get_reg m' SP" v 0]
    by (cases s) (auto simp: slot_at_def approx_def replaces_def)
  then have "wide_rel env ds lo cap ((b # r)[0 := s]) m'"
    using rep by (intro wide_rel_update[OF shrunk]) (simp_all add: replaces_def mach_simps)
  then show ?thesis by simp
qed

lemma wide_rel_not:
  assumes rel: "wide_rel env ds lo cap (a # r) m" and rep: "replaces m m' 0 v" and s: "approx s v"
  shows "wide_rel env ds lo cap (s # r) m'"
proof -
  have "slot_at (mem m') (get_reg m' SP) s"
    using rep s holds_at[of "mem m'" "get_reg m' SP" v 0]
    by (cases s) (auto simp: slot_at_def approx_def replaces_def)
  then have "wide_rel env ds lo cap ((a # r)[0 := s]) m'"
    using rep by (intro wide_rel_update[OF rel]) (simp_all add: replaces_def mach_simps)
  then show ?thesis by simp
qed

lemma wide_rel_swap:
  assumes rel: "wide_rel env ds lo cap ss m" and k: "1 \<le> k" "k \<le> 16" "k < length ss"
  shows "\<exists>m'. run_asm env (SwapOpcode (word_of_nat k)) m = Some m' \<and>
    wide_rel env ds lo cap (ss[0 := with_low (ss ! 0) (low_of (ss ! k)), k := with_low (ss ! k) (low_of (ss ! 0))]) m'"
proof -
  note D = wide_relD[OF rel]
  let ?s = "get_reg m SP" and ?b = "get_reg m SP + word_of_nat (32 * k)"
  have ne: "ss \<noteq> []" using k by auto
  have low: "rd32 (mem m) ?s = low_of (ss ! 0)" "rd32 (mem m) ?b = low_of (ss ! k)"
    using slot_at_low[OF D(5), of 0] slot_at_low[OF D(5), of k] k ne by simp_all
  let ?m = "set_reg T1 (low_of (ss ! k)) (set_reg T0 (low_of (ss ! 0)) m)"
  let ?m1 = "?m\<lparr>mem := wr32 (mem m) ?s (low_of (ss ! k))\<rparr>"
  let ?m2 = "?m1\<lparr>mem := wr32 (mem ?m1) ?b (low_of (ss ! 0))\<rparr>"
  have self: "outside d a \<Longrightarrow> far d a" for d a by (auto simp: outside_def dest: spec[of _ 0])
  have r0: "wide_rel env ds lo cap ss ?m" using rel by (simp add: wide_rel_def mach_simps)
  have r1: "wide_rel env ds lo cap (ss[0 := with_low (ss ! 0) (low_of (ss ! k))]) ?m1"
    using k ne D(5)[of 0] by (intro wide_rel_update[OF r0])
      (simp_all add: mach_simps rd32_wr32_far self slot_at_write)
  have at_k: "slot_at (mem ?m1) ?b (ss ! k)"
    using wide_relD(5)[OF r1, of k] k by (simp add: mach_simps)
  have "wide_rel env ds lo cap
      (ss[0 := with_low (ss ! 0) (low_of (ss ! k)), k := with_low (ss ! k) (low_of (ss ! 0))]) ?m2"
    using k slot_at_write[OF at_k] by (intro wide_rel_update[OF r1]) (simp_all add: mach_simps rd32_wr32_far self)
  moreover have "run_asm env (SwapOpcode (word_of_nat k)) m = Some ?m2"
    unfolding run_swap[OF k(2)] low by (simp add: mach_simps)
  ultimately show ?thesis by blast
qed


lemma host_enabled: "\<not> DisableHostOptimizedOpcodes (config NewTestTranspiler)"
  by (simp add: NewTestTranspiler_def NewTranspilerWithConfig_def)

lemma compute_simulates:
  assumes "wide_lowers L ds (Compute op) is" and rel: "wide_rel (lib_env labels link) ds lo cap ss m"
    and step: "compute_slots op ss = Some ss'"
  shows "\<exists>m'. run_asm (lib_env labels link) is m = Some m' \<and> wide_rel (lib_env labels link) ds lo cap ss' m'"
proof -
  from assms(1) obtain n where code: "\<And>rs tr. arith_cases L op rs tr = Some (host tr is n)" by auto
  note here = code[of None NewTestTranspiler]
  note D = wide_relD[OF rel]
  show ?thesis
  proof (cases "op = vm_NOT")
    case True
    with step obtain a r where ss: "ss = a # r" "ss' = not_slot a # r"
      by (auto simp: compute_slots_def split: list.splits)
    from wide_code_unique[OF here _ host_enabled] True have "is = not256Call" by (metis arith_hosts(14))
    from D(5)[of 0] ss slot_value[of "mem m" "get_reg m SP" a] obtain x
      where x: "holds (mem m) (get_reg m SP) x" "approx a x" by auto
    from not_runs[OF x(1), of labels link] wide_rel_not[OF rel[unfolded ss(1)]] not_slot_approx[OF x(2)]
    show ?thesis unfolding \<open>is = _\<close> ss(2) by blast
  next
    case False
    from compute_slots_binary[OF step this] obtain g a b r s where g: "lib_binary op = Some g"
      and ss: "ss = a # b # r" "ss' = s # r" and ok: "\<And>x y. approx a x \<Longrightarrow> approx b y \<Longrightarrow> approx s (g x y)"
      by metis
    from D(5)[of 0] ss slot_value[of "mem m" "get_reg m SP" a] obtain x
      where x: "holds (mem m) (get_reg m SP) x" "approx a x" by auto
    from D(5)[of 1] ss slot_value[of "mem m" "get_reg m SP + 32" b] obtain y
      where y: "holds (mem m) (get_reg m SP + 32) y" "approx b y" by auto
    from hosted_runs[OF g x(1) y(1), of L labels link] obtain cs m' where
      m': "\<And>rs tr. arith_cases L op rs tr = Some (host tr cs 2)" "run_asm (lib_env labels link) cs m = Some m'"
        "replaces m m' 1 (g x y)" by blast
    from wide_code_unique[OF here m'(1) host_enabled] have "is = cs" .
    with m'(2) wide_rel_binary[OF rel[unfolded ss(1)] m'(3) ok[OF x(2) y(2)]] ss(2) show ?thesis by blast
  qed
qed

lemma wide_step_simulates:
  assumes "wide_lowers L ds i is" and rel: "wide_rel (lib_env labels link) ds lo cap ss m"
    and step: "wide_step cap i ss = Some ss'"
  shows "\<exists>m'. run_asm (lib_env labels link) is m = Some m' \<and> wide_rel (lib_env labels link) ds lo cap ss' m'"
proof (cases i)
  case (Compute op)
  with compute_simulates[of L ds op "is" labels link lo cap ss m ss'] assms show ?thesis by simp
next
  case (Stack j)
  note D = wide_relD[OF rel]
  show ?thesis
  proof (cases j)
    case Pop
    with Stack step obtain s where ss: "ss = s # ss'" by (auto split: list.splits)
    let ?m = "set_reg SP (get_reg m SP + 32) m"
    from wide_rel_shrink[OF rel[unfolded ss], of ?m] Stack Pop assms(1) show ?thesis
      by (simp add: run_asm_def decode_pop mach_simps)
  next
    case (PushWord w)
    with Stack step have room: "length ss < cap" and ss: "ss' = Low w # ss" by (auto split: if_splits)
    with wide_rel_room[OF rel room] run_push[of m "lib_env labels link" w] Stack PushWord assms(1)
      wide_rel_push[OF rel room _ slot_pushed_low] show ?thesis by fastforce
  next
    case (PushValue v)
    with Stack step have room: "length ss < cap" and ss: "ss' = Full v # ss" by (auto split: if_splits)
    from PushValue Stack assms(1) obtain l where l: "resolve ds l = Some v" "is = loadFromDataSection l" by auto
    from run_load_slot[OF D(4) l(1) wide_rel_room[OF rel room]] obtain m'
      where m': "run_asm (lib_env labels link) is m = Some m'" "slot_pushed m m'" "holds (mem m') (get_reg m' SP) v"
      using l(2) by blast
    from m'(3) have "slot_at (mem m') (get_reg m' SP) (Full v)" by (simp add: slot_at_def)
    from wide_rel_push[OF rel room m'(2) this] m'(1) ss show ?thesis by blast
  next
    case (Dup k)
    with Stack step have k: "1 \<le> k" "k \<le> 16" "k \<le> length ss" and room: "length ss < cap"
      and ss: "ss' = Low (low_of (ss ! (k - 1))) # ss" by (auto split: if_splits)
    have "k - 1 < length ss" using k by simp
    note low = slot_at_low[OF D(5)[OF this]]
    from wide_rel_room[OF rel room] run_dup[OF k(1,2), of m "lib_env labels link"] obtain m' where
      m': "run_asm (lib_env labels link) (DupOpcode (word_of_nat k)) m = Some m'" "slot_pushed m m'"
        "rd32 (mem m') (get_reg m' SP) = low_of (ss ! (k - 1))"
      unfolding low by auto
    from wide_rel_push[OF rel room m'(2) slot_pushed_low[OF m'(3)]] m'(1) ss Stack Dup assms(1)
    show ?thesis by auto
  next
    case (Swap k)
    with Stack step assms(1) wide_rel_swap[OF rel] show ?thesis by (auto split: if_splits)
  next
    case Mark
    with Stack step assms(1) rel show ?thesis by (auto simp: run_asm_def EBREAK_instr_def decode_simps)
  qed
qed

interpretation wide_sim: simulation "wide_step cap" "run_asm (lib_env labels link)" "wide_lowers L ds"
  "wide_rel (lib_env labels link) ds lo cap"
  for cap labels link L ds lo
  by unfold_locales (rule wide_step_simulates)


section \<open>The instructions of a trace entry\<close>

text \<open>
  The plan of an entry when hosted opcodes are enabled; calls, returns and memory copies have code
  of their own in this configuration and no plan here.
\<close>

definition wide_plan :: "third_party \<Rightarrow> evm_instruction_metadata \<Rightarrow> evm_execution_state option
    \<Rightarrow> u256 list option \<Rightarrow> replay_state \<Rightarrow> wide_op list option" where
  "wide_plan L m st rs r =
     (if IsStackRestore m \<or> Opcode m \<in> set call_opcodes \<union> {vm_RETURN, vm_REVERT, vm_INVALID, vm_MCOPY} then None
      else if Opcode m = vm_STOP then Some []
      else if dummy_arity (Opcode m) \<noteq> None then Some [Compute (Opcode m), Stack Mark]
      else if Opcode m = vm_ISZERO then Some [Stack (PushWord 0), Compute vm_EQ, Stack Mark]
      else Some (map Stack (body_plan L m st rs r @ [Mark])))"

definition wide_emits :: "third_party \<Rightarrow> transpiler \<Rightarrow> transpiler \<Rightarrow> wide_op list \<Rightarrow> bool" where
  "wide_emits L tr tr' p \<longleftrightarrow>
     config tr' = config tr \<and> (\<exists>vs. ds_values (dataSection tr') = ds_values (dataSection tr) @ vs) \<and>
     (pool_ok L (dataSection tr) \<longrightarrow> pool_ok L (dataSection tr') \<and>
       (\<exists>iss. instructions tr' = instructions tr @ concat iss \<and>
              list_all2 (wide_lowers L (dataSection tr')) p iss))"

lemma wide_emits_stack: "emits_code L tr tr' p \<Longrightarrow> wide_emits L tr tr' (map Stack p)"
  by (auto simp: emits_code_def emits_def wide_emits_def list_all2_map1)

lemma wide_lowers_mono:
  "ds_values ds' = ds_values ds @ vs \<Longrightarrow> wide_lowers L ds i is \<Longrightarrow> wide_lowers L ds' i is"
  by (cases i) (auto dest: lowers_mono)

lemma wide_emits_refl [simp]: "wide_emits L tr tr []"
  by (auto simp: wide_emits_def)

lemma wide_emits_trans:
  assumes "wide_emits L a b p" and "wide_emits L b c q"
  shows "wide_emits L a c (p @ q)"
proof -
  obtain vs ws where vals: "ds_values (dataSection b) = ds_values (dataSection a) @ vs"
    "ds_values (dataSection c) = ds_values (dataSection b) @ ws"
    using assms by (auto simp: wide_emits_def)
  have "\<exists>iss. instructions c = instructions a @ concat iss \<and> list_all2 (wide_lowers L (dataSection c)) (p @ q) iss"
    if "pool_ok L (dataSection a)"
  proof -
    from assms that obtain is1 is2 where
      e1: "instructions b = instructions a @ concat is1" "list_all2 (wide_lowers L (dataSection b)) p is1" and
      e2: "instructions c = instructions b @ concat is2" "list_all2 (wide_lowers L (dataSection c)) q is2"
      by (auto simp: wide_emits_def)
    have "list_all2 (wide_lowers L (dataSection c)) p is1"
      using e1(2) wide_lowers_mono[OF vals(2)] by (rule list_all2_mono) simp
    with e1 e2 show ?thesis
      by (intro exI[of _ "is1 @ is2"]) (simp add: list_all2_appendI)
  qed
  with assms vals show ?thesis by (auto simp: wide_emits_def)
qed

lemma wide_emits_compute:
  assumes "\<And>rs tr. arith_cases L op rs tr = Some (host tr cs n)"
  shows "wide_emits L tr (emit cs tr) [Compute op]"
  using assms by (auto simp: wide_emits_def emit_def intro!: exI[of _ "[cs]"])

text \<open>One entry.\<close>

lemma dummy_hosts:
  assumes "dummy_arity op \<noteq> None"
  obtains cs n where "\<And>rs tr. arith_cases L op rs tr = Some (host tr cs n)"
proof -
  from assms have "op \<in> fst ` set [(vm_ADD, 2 :: nat), (vm_MUL, 2), (vm_SUB, 2), (vm_DIV, 2), (vm_AND, 2), (vm_OR, 2),
      (vm_XOR, 2), (vm_EQ, 2), (vm_SLT, 2), (vm_SHR, 2), (vm_SHL, 2), (vm_GT, 2), (vm_LT, 2), (vm_NOT, 1)]"
    unfolding dummy_arity_def by (simp only: map_of_eq_None_iff not_not set_map)
  then have "\<exists>cs n. \<forall>rs tr. arith_cases L op rs tr = Some (host tr cs n)"
    unfolding list.set image_insert image_empty insert_iff empty_iff fst_conv
    by (elim disjE FalseE; hypsubst) (rule exI, rule exI, intro allI, rule arith_hosts)+
  then show ?thesis using that by blast
qed

lemma wide_step_refines:
  assumes inv: "tr_inv L tr" and host: "\<not> DisableHostOptimizedOpcodes (config tr)" and st: "go_sized st"
    and res: "AddInstructionWithResult L m st rs tr = Inr tr'"
    and plan: "wide_plan L m st rs (replay_of tr) = Some p"
  shows "wide_emits L tr tr' p \<and> replay_of tr' = next_state L m (replay_of tr)"
proof -
  have m: "\<not> IsStackRestore m" "Opcode m \<notin> set call_opcodes"
    "Opcode m \<notin> {vm_RETURN, vm_REVERT, vm_INVALID, vm_MCOPY}"
    using plan by (auto simp: wide_plan_def split: if_splits)
  show ?thesis
  proof (cases "Opcode m = vm_STOP")
    case True
    then have "tr' = tr" "p = []"
      using res plan m by (auto simp: AddInstructionWithResult_def halt_cases_def wide_plan_def split: if_splits)
    moreover have "plain m" using m True by (simp add: plain_def call_opcodes_def)
    ultimately show ?thesis by (simp add: next_state_plain)
  next
    case False
    with m have "halt_cases L (Opcode m) tr = None" by (simp add: halt_cases_def Let_def)
    with res m obtain t where t: "switch_opcode L m st rs tr = Inr t"
      and tr': "tr' = storeDebugInfo L (length (instructions tr)) (Opcode m) (emit [EBREAK_instr] t)"
      by (auto simp: AddInstructionWithResult_def)
    have mark: "wide_emits L tr t q \<Longrightarrow> wide_emits L tr tr' (q @ [Stack Mark])" for q
      using wide_emits_trans[OF _ wide_emits_stack[OF emits_to_code[OF emits_mark]], of L tr t q]
      by (simp add: tr' storeDebugInfo_def wide_emits_def)
    have same: "replay_of tr' = replay_of t" by (simp add: tr')
    consider (hosted) "dummy_arity (Opcode m) \<noteq> None" "p = [Compute (Opcode m), Stack Mark]"
      | (iszero) "Opcode m = vm_ISZERO" "p = [Stack (PushWord 0), Compute vm_EQ, Stack Mark]"
      | (replayed) "dummy_arity (Opcode m) = None" "Opcode m \<noteq> vm_ISZERO"
          "p = map Stack (body_plan L m st rs (replay_of tr) @ [Mark])"
      using plan False m by (simp add: wide_plan_def split: if_splits)
    then show ?thesis
    proof cases
      case hosted
      from dummy_hosts[OF hosted(1), of L] obtain cs n
        where cs: "\<And>rs tr. arith_cases L (Opcode m) rs tr = Some (host tr cs n)" by blast
      with t host have "t = emit cs tr"
        by (simp add: switch_opcode_def host_def hostOptimizedOpcode_def)
      moreover have "plain m" using cs m(1) by (rule plain_groups(1))
      ultimately show ?thesis
        using mark[of "[Compute (Opcode m)]"] wide_emits_compute[OF cs, of tr] hosted(2) same
        by (simp add: next_state_plain)
    next
      case iszero
      with t host have t': "t = emit eq256Call (emit (pushOpcode 0) tr)"
        by (simp add: switch_opcode_def host_def hostOptimizedOpcode_def arith_cases_def push_cases_def
            stack_cases_def env_cases_def Let_def word_le_nat_alt)
      have "wide_emits L tr t ([Stack (PushWord 0)] @ [Compute vm_EQ])"
        unfolding t' using wide_emits_stack[OF emits_to_code[OF emits_push], of L tr 0]
        by (intro wide_emits_trans[OF _ wide_emits_compute[OF arith_hosts(8)]]) simp
      moreover have "plain m" using m(1) iszero by (simp add: plain_def call_opcodes_def)
      ultimately show ?thesis
        using mark[of "[Stack (PushWord 0), Compute vm_EQ]"] iszero(2) same by (simp add: t' next_state_plain)
    next
      case replayed
      have "replayable m tr" using replayed m by (simp add: replayable_def not_hosted_def mcopy_off_def)
      from refines_switch[OF inv m(1) this st t]
      have "wide_emits L tr t (map Stack (body_plan L m st rs (replay_of tr)))"
        "replay_of t = next_state L m (replay_of tr)"
        by (auto simp: refines_step_def wide_emits_stack)
      with mark replayed(3) same show ?thesis by simp
    qed
  qed
qed


section \<open>The whole program\<close>

fun wide_trace_plan :: "third_party \<Rightarrow> evm_instruction_metadata list \<Rightarrow> evm_execution_state option
    \<Rightarrow> nat list \<Rightarrow> replay_state \<Rightarrow> wide_op list option" where
  "wide_trace_plan L ins st [] r = Some []"
| "wide_trace_plan L ins st (i # is) r =
     (case wide_plan L (ins ! i) st (result_for ins i) r of None \<Rightarrow> None
      | Some p \<Rightarrow> map_option ((@) p) (wide_trace_plan L ins st is (next_state L (ins ! i) r)))"

fun wide_steps :: "nat \<Rightarrow> wide_op list \<Rightarrow> slot list \<Rightarrow> slot list option" where
  "wide_steps cap [] ss = Some ss"
| "wide_steps cap (i # is) ss = (case wide_step cap i ss of None \<Rightarrow> None | Some ss' \<Rightarrow> wide_steps cap is ss')"

lemma wide_steps_aruns: "wide_steps cap is ss = wide_sim.aruns cap is ss"
  by (induction "is" arbitrary: ss) (simp_all split: option.split)

lemma wide_trace_refines:
  assumes "tracing.run L ins st is tr = Inr tr'" and "tr_inv L tr"
    and "\<not> DisableHostOptimizedOpcodes (config tr)" and "go_sized st"
    and "wide_trace_plan L ins st is (replay_of tr) = Some p"
  shows "wide_emits L tr tr' p"
  using assms(1-3,5)
proof (induction "is" arbitrary: tr p)
  case Nil
  then show ?case by simp
next
  case (Cons i "is")
  from Cons.prems(1) obtain t where t: "trace_step L ins st i tr = Inr t"
    and rest: "tracing.run L ins st is t = Inr tr'" by auto
  from t obtain rs where i: "i < length ins" and rs: "result_stack ins i = Inr rs"
    and add: "AddInstructionWithResult L (ins ! i) st rs tr = Inr t"
    by (auto simp: trace_step_def go_index_eq_Inr)
  from Cons.prems(4) obtain p1 p2 where p1: "wide_plan L (ins ! i) st (result_for ins i) (replay_of tr) = Some p1"
    and p2: "wide_trace_plan L ins st is (next_state L (ins ! i) (replay_of tr)) = Some p2" and p: "p = p1 @ p2"
    by (auto split: option.splits)
  from wide_step_refines[OF Cons.prems(2,3) assms(4) add] result_stack_for[OF rs] p1
  have step: "wide_emits L tr t p1" and r: "replay_of t = next_state L (ins ! i) (replay_of tr)"
    by simp_all
  have "mcopy_fits (config tr) (ins ! i)" using p1 by (auto simp: mcopy_fits_def mcopy_off_def wide_plan_def split: if_splits)
  from step_ok_AddInstruction[OF this, of L st rs] add Cons.prems(2) have "tr_inv L t" "config t = config tr"
    by (auto simp: steps_to_def tr_le_def)
  with Cons.IH[OF rest] Cons.prems(3) p2 r have "wide_emits L t tr' p2" by simp
  from wide_emits_trans[OF step this] show ?case by (simp add: p)
qed

lemma wide_run_concat:
  "wide_sim.cruns labels link iss m = Some m' \<Longrightarrow> run_asm (lib_env labels link) (concat iss) m = Some m'"
  by (induction iss arbitrary: m) (auto simp: bind_eq_Some_conv intro: run_asm_append)

lemma wide_emitted_runs:
  assumes "wide_emits L tr tr' p" and "pool_ok L (dataSection tr)"
    and "wide_steps cap p ss = Some ss'" and "wide_rel (lib_env labels link) (dataSection tr') lo cap ss m"
  shows "\<exists>m'. run_asm (lib_env labels link) (drop (length (instructions tr)) (instructions tr')) m = Some m' \<and>
    wide_rel (lib_env labels link) (dataSection tr') lo cap ss' m'"
proof -
  from assms(1,2) obtain iss where iss: "instructions tr' = instructions tr @ concat iss"
    "list_all2 (wide_lowers L (dataSection tr')) p iss"
    by (auto simp: wide_emits_def)
  from wide_sim.runs[OF iss(2) assms(4)] assms(3) obtain m'
    where "wide_sim.cruns labels link iss m = Some m'" "wide_rel (lib_env labels link) (dataSection tr') lo cap ss' m'"
    by (auto simp: wide_steps_aruns)
  with iss(1) wide_run_concat show ?thesis by fastforce
qed

lemma wide_process_emits:
  assumes "ProcessExecution L ins st tr = Inr (tr', sn)" and "tr_inv L tr"
    and "\<not> DisableHostOptimizedOpcodes (config tr)" and "go_sized st"
    and "wide_trace_plan L ins st [0..<length ins] (replay_of tr) = Some p"
  shows "wide_emits L tr tr' p"
  by (rule wide_trace_refines[OF ProcessExecution_Inr[OF assms(1)] assms(2-5)])

end
