(* ===== verification/Unicorn.thy ===== *)
theory Unicorn
  imports Machine
begin

text \<open>
  The test runner \<open>prover/unicorn_runner.go\<close>: it loads a program into the Unicorn emulator, sets up
  its memory and stack registers, and takes a snapshot of the 256-bit stack at every \<open>EBREAK\<close>. The
  emulator is a parameter: \<open>uc_view\<close> is what a hook can read of it, \<open>uc_lib\<close> what its calls do.
  \<open>view_of\<close> shows a machine of Machine.thy through that interface.
\<close>

section \<open>Reading the stack\<close>

record uc_view =
  RegRead :: "string \<Rightarrow> u64 \<times> string option"
  MemRead :: "u64 \<Rightarrow> u64 \<Rightarrow> bytes result"
  PcWrite :: "u64 \<Rightarrow> string option"

text \<open>\<open>binary.LittleEndian.Uint32\<close> and \<open>binary.BigEndian.PutUint32\<close> at an offset of an array.\<close>

definition little_endian32 :: "bytes \<Rightarrow> u32 result" where
  "little_endian32 bs =
     (case bs of
        b0 # b1 # b2 # b3 # _ \<Rightarrow>
          Inr (ucast b0 OR push_bit 8 (ucast b1) OR push_bit 16 (ucast b2) OR push_bit 24 (ucast b3))
      | _ \<Rightarrow> Inl (Panic ''index out of range''))"

definition put_be32 :: "nat \<Rightarrow> u32 \<Rightarrow> bytes \<Rightarrow> bytes" where
  "put_be32 start w bs =
     take start bs @ [ucast (drop_bit 24 w), ucast (drop_bit 16 w), ucast (drop_bit 8 w), ucast w] @
     drop (start + 4) bs"

text \<open>The eight words of entry \<open>i\<close>, each put at its big-endian place.\<close>

fun read_words :: "uc_view \<Rightarrow> u64 \<Rightarrow> nat list \<Rightarrow> bytes \<Rightarrow> bytes result" where
  "read_words mu base [] res = Inr res"
| "read_words mu base (k # ks) res =
     bindR (MemRead mu (base + word_of_nat k * 4) 4) (\<lambda>data.
     bindR (little_endian32 data) (\<lambda>word.
       read_words mu base ks (put_be32 ((7 - k) * 4) word res)))"

fun read_entries :: "third_party \<Rightarrow> uc_view \<Rightarrow> u64 \<Rightarrow> nat list \<Rightarrow> u256 list \<Rightarrow> u256 list result" where
  "read_entries L mu sp [] stack = Inr stack"
| "read_entries L mu sp (i # is) stack =
     bindR (read_words mu (sp + word_of_nat i * 8 * 4) [0..<8] (replicate 32 0)) (\<lambda>res.
       read_entries L mu sp is (stack[length stack - 1 - i := SetBytes L res]))"

definition printStackState :: "third_party \<Rightarrow> uc_view \<Rightarrow> u64 \<Rightarrow> u64 \<Rightarrow> u256 list result" where
  "printStackState L mu stackBase memSize =
     (let sp = fst (RegRead mu ''sp'');
          (logicalStackTop, err) = RegRead mu ''s3'';
          stackTop = (if err \<noteq> None \<or> logicalStackTop = 0 then stackBase + memSize - 16 else logicalStackTop)
      in if sp > stackTop then
           Inl (Err (''stack pointer ('' @ show_nat (unat sp) @ '') exceeds stack top ('' @
             show_nat (unat stackTop) @ '')''))
         else
           (let numWords = (stackTop - sp) div 4; numEntries = numWords div 8
            in read_entries L mu sp [0..<unat numEntries] (replicate (unat numEntries) 0)))"

section \<open>Running a program\<close>

definition EbreakInstr :: u32 where
  "EbreakInstr = 0x00100073"

text \<open>
  The code hook, before each instruction: a snapshot at an \<open>EBREAK\<close>, any error a panic. The
  instruction is skipped by moving the program counter.
\<close>

record hook_event =
  evAddr :: u64
  evSize :: u64
  evView :: uc_view

definition RuntimeError :: "string \<Rightarrow> string \<Rightarrow> string" where
  "RuntimeError stage e = stage @ '' error: '' @ e"

definition panics :: "'a result \<Rightarrow> 'a result" where
  "panics r = (case r of Inl (Err e) \<Rightarrow> Inl (Panic (RuntimeError ''runtime'' e)) | _ \<Rightarrow> r)"

definition code_hook :: "third_party \<Rightarrow> u64 \<Rightarrow> u64 \<Rightarrow> hook_event \<Rightarrow> u256 list list \<Rightarrow> u256 list list result" where
  "code_hook L stackAddr memSize e snapshots =
     bindR (panics (MemRead (evView e) (evAddr e) (evSize e))) (\<lambda>instrBytes.
     bindR (little_endian32 instrBytes) (\<lambda>instr.
       if instr = EbreakInstr then
         bindR (panics (printStackState L (evView e) stackAddr memSize)) (\<lambda>snapshot.
           case RegRead (evView e) ''pc'' of
             (_, Some err) \<Rightarrow> Inl (Panic (RuntimeError ''runtime'' err))
           | (pc, None) \<Rightarrow>
               (case PcWrite (evView e) (pc + 4) of
                  Some err \<Rightarrow> Inl (Panic (RuntimeError ''runtime'' err))
                | None \<Rightarrow> Inr (snapshots @ [snapshot])))
       else Inr snapshots))"

fun run_hooks :: "third_party \<Rightarrow> u64 \<Rightarrow> u64 \<Rightarrow> hook_event list \<Rightarrow> u256 list list \<Rightarrow> u256 list list result" where
  "run_hooks L stackAddr memSize [] snapshots = Inr snapshots"
| "run_hooks L stackAddr memSize (e # es) snapshots =
     bindR (code_hook L stackAddr memSize e snapshots) (run_hooks L stackAddr memSize es)"

text \<open>The sections of an ELF file that are written to memory.\<close>

record elf_section =
  secIsProgbits :: bool
  secSize :: nat
  secAddr :: u64
  secData :: "bytes option"

definition elf_writes :: "elf_section list \<Rightarrow> (u64 \<times> bytes) list" where
  "elf_writes secs =
     map (\<lambda>s. (secAddr s, the (secData s)))
       (filter (\<lambda>s. \<not> (\<not> secIsProgbits s \<or> secSize s = 0 \<or> secAddr s = 0) \<and> secData s \<noteq> None) secs)"

datatype uc_call = NewUnicorn | MemMap u64 u64 | RegWrite string u64 | HookAdd | LoadElf bytes | HookDel | CloseUc

text \<open>
  The emulator: each call's error and effect, and the instructions a started program executes
  with the error it ends with, if any.
\<close>

record 'u uc_lib =
  uc_do :: "uc_call \<Rightarrow> 'u \<Rightarrow> string option \<times> 'u"
  uc_start :: "'u \<Rightarrow> (hook_event list \<times> string option) \<times> 'u"

fun perform :: "'u uc_lib \<Rightarrow> string \<Rightarrow> uc_call list \<Rightarrow> 'u \<Rightarrow> unit result \<times> 'u" where
  "perform U stage [] u = (Inr (), u)"
| "perform U stage (c # cs) u =
     (case uc_do U c u of
        (Some e, u') \<Rightarrow> (Inl (Err (RuntimeError stage e)), u')
      | (None, u') \<Rightarrow> perform U stage cs u')"

definition codeAddr :: u64 where "codeAddr = 0x10000"
definition stackAddr :: u64 where "stackAddr = 0x7fff0000"
definition memSize :: u64 where "memSize = 0x10000"
definition stackTop :: u64 where "stackTop = stackAddr + memSize - 16"
definition contextStackTop :: u64 where "contextStackTop = 0x6fff0000"

definition setup_calls :: "bytes \<Rightarrow> uc_call list" where
  "setup_calls bytecode =
     [MemMap 0 memSize, MemMap codeAddr memSize, MemMap stackAddr memSize,
      RegWrite ''sp'' stackTop, RegWrite ''s3'' stackTop, RegWrite ''s1'' contextStackTop,
      MemMap (contextStackTop - 0x10000) 0x10000, HookAdd, LoadElf bytecode]"

definition VmRunner_Execute :: "third_party \<Rightarrow> 'u uc_lib \<Rightarrow> bytes \<Rightarrow> 'u \<Rightarrow> u256 list list result \<times> 'u" where
  "VmRunner_Execute L U bytecode u =
     (case uc_do U NewUnicorn u of
        (Some e, u0) \<Rightarrow> (Inl (Err e), u0)
      | (None, u0) \<Rightarrow>
          (case perform U ''pre-runtime'' (setup_calls bytecode) u0 of
             (Inl e, u1) \<Rightarrow> (Inl e, u1)
           | (Inr _, u1) \<Rightarrow>
               (case uc_start U u1 of
                  ((events, err), u2) \<Rightarrow>
                    (case run_hooks L stackAddr memSize events [] of
                       Inl e \<Rightarrow> (Inl e, u2)
                     | Inr snapshots \<Rightarrow>
                         (case err of
                            Some e \<Rightarrow> (Inl (Err (RuntimeError ''runtime'' e)), u2)
                          | None \<Rightarrow>
                              (case perform U ''post-runtime'' [HookDel, CloseUc] u2 of
                                 (Inl e, u3) \<Rightarrow> (Inl e, u3)
                               | (Inr _, u3) \<Rightarrow> (Inr snapshots, u3)))))))"

section \<open>A machine seen through the emulator\<close>

definition view_of :: "mach \<Rightarrow> uc_view" where
  "view_of m =
     \<lparr> RegRead = (\<lambda>r. (if r = ''sp'' then ucast (get_reg m SP)
                       else if r = ''s3'' then ucast (get_reg m S3) else 0, None)),
       MemRead = (\<lambda>a n. Inr (map (\<lambda>k. mem m (ucast (a + word_of_nat k))) [0..<unat n])),
       PcWrite = (\<lambda>pc. None) \<rparr>"

lemma unat_ucast_down: "unat (ucast (a :: u64) :: u32) = unat a mod 2 ^ 32"
  by (simp add: unsigned_ucast_eq take_bit_eq_mod)

lemma ucast_add_u32: "(ucast (a + k :: u64) :: u32) = ucast a + ucast k"
proof -
  have "(unat a + unat k) mod 2 ^ 64 mod 2 ^ 32 = (unat a + unat k) mod 2 ^ 32"
    by (rule mod_mod_cancel) simp
  then show ?thesis
    unfolding word_unat_eq_iff by (simp add: unat_word_ariths unat_ucast_down mod_add_eq)
qed

lemma ucast_of_nat_down: "(ucast (word_of_nat n :: u64) :: u32) = word_of_nat n"
proof -
  have "n mod 2 ^ 64 mod 2 ^ 32 = n mod 2 ^ 32" by (rule mod_mod_cancel) simp
  then show ?thesis unfolding word_unat_eq_iff by (simp add: unat_ucast_down unat_of_nat)
qed

lemma view_word:
  "\<exists>data. MemRead (view_of m) a 4 = Inr data \<and> little_endian32 data = Inr (rd32 (mem m) (ucast a))"
proof -
  have "unat (4 :: u64) = 4" by simp
  moreover have "[0..<4] = [0, 1, 2, 3 :: nat]" by (simp add: upt_rec)
  ultimately show ?thesis
    by (simp add: view_of_def little_endian32_def rd32_def ucast_add_u32)
qed

lemma read_words_view:
  "read_words (view_of m) base (k # ks) res =
   read_words (view_of m) base ks (put_be32 ((7 - k) * 4) (rd32 (mem m) (ucast (base + word_of_nat k * 4))) res)"
  using view_word[of m "base + word_of_nat k * 4"] by auto

lemma word_at_byte:
  "c \<le> 24 \<Longrightarrow> (ucast (drop_bit c (word_at i v)) :: u8) = ucast (drop_bit (32 * i + c) v)"
  by (rule bit_word_eqI) (auto simp: word_at_def bit_simps add_ac)

lemma eight: "[0..<8] = [0, 1, 2, 3, 4, 5, 6, 7 :: nat]"
  by (simp add: upt_rec)

text \<open>The eight words of a slot, put in their places, are the big-endian form of its value.\<close>

lemma words_to_bytes:
  "fold (\<lambda>k. put_be32 ((7 - k) * 4) (word_at k v)) [0..<8] (replicate 32 0) = be_bytes 32 (unat v)"
proof -
  let ?b = "\<lambda>k. ucast (drop_bit (8 * k) v) :: u8"
  have "be_bytes 32 (unat v) = map (\<lambda>j. ?b (31 - j)) [0..<32]"
  proof (rule nth_equalityI)
    fix j assume "j < length (be_bytes 32 (unat v))"
    with be_byte[of "31 - j" v] show "be_bytes 32 (unat v) ! j = map (\<lambda>j. ?b (31 - j)) [0..<32] ! j" by simp
  qed simp
  also have "\<dots> = fold (\<lambda>k. put_be32 ((7 - k) * 4) (word_at k v)) [0..<8] (replicate 32 0)"
    unfolding eight
    by (simp add: put_be32_def word_at_byte[of 24] word_at_byte[of 16] word_at_byte[of 8]
        word_at_byte[of 0, simplified] upt_rec)
  finally show ?thesis by simp
qed

section \<open>Snapshots\<close>

lemma read_words_all:
  "read_words (view_of m) base ks res =
   Inr (fold (\<lambda>k. put_be32 ((7 - k) * 4) (rd32 (mem m) (ucast (base + word_of_nat k * 4)))) ks res)"
  by (induction ks arbitrary: res) (simp_all add: read_words_view del: read_words.simps(2))

lemma entry_read:
  assumes "holds (mem m) (ucast base) v"
  shows "read_words (view_of m) base [0..<8] (replicate 32 0) = Inr (be_bytes 32 (unat v))"
proof -
  have "rd32 (mem m) (ucast (base + word_of_nat k * 4)) = word_at k v" if "k < 8" for k
  proof -
    have "(ucast (word_of_nat k * 4 :: u64) :: u32) = word_of_nat (4 * k)"
      using ucast_of_nat_down[of "k * 4"] by (simp add: mult.commute)
    with assms that show ?thesis by (simp add: ucast_add_u32 holds_def)
  qed
  then have "fold (\<lambda>k. put_be32 ((7 - k) * 4) (rd32 (mem m) (ucast (base + word_of_nat k * 4)))) [0..<8] (replicate 32 0) =
      fold (\<lambda>k. put_be32 ((7 - k) * 4) (word_at k v)) [0..<8] (replicate 32 0)"
    by (intro fold_cong) simp_all
  then show ?thesis by (simp only: read_words_all words_to_bytes)
qed

lemma read_entries_append:
  "read_entries L mu sp (is @ js) st = bindR (read_entries L mu sp is st) (read_entries L mu sp js)"
  by (induction "is" arbitrary: st) (simp_all add: bindR_assoc)

lemma read_entries_view:
  assumes "bytes_big_endian L" and "k \<le> length vs"
    and "\<And>i. i < length vs \<Longrightarrow> holds (mem m) (ucast (sp + word_of_nat i * 8 * 4)) (vs ! i)"
  shows "read_entries L (view_of m) sp [0..<k] (replicate (length vs) 0) =
    Inr (replicate (length vs - k) 0 @ rev (take k vs))"
  using assms(2)
proof (induction k)
  case (Suc k)
  have "unat (vs ! k) < 2 ^ LENGTH(256)" by (rule unsigned_less)
  then have "SetBytes L (be_bytes 32 (unat (vs ! k))) = vs ! k"
    using assms(1) be_nat_be_bytes[of 32 "unat (vs ! k)"] by (simp add: bytes_big_endian_def)
  moreover have "replicate (length vs - k) 0 = replicate (length vs - Suc k) 0 @ [0 :: u256]"
    using Suc.prems by (metis Suc_diff_Suc Suc_le_lessD replicate_Suc replicate_append_same)
  ultimately show ?case
    using Suc entry_read[OF assms(3)[of k]]
    by (simp add: read_entries_append take_Suc_conv_app_nth list_update_append)
qed simp

text \<open>A stack pointer above the stack top is an error, never a snapshot.\<close>

lemma snapshot_overflow:
  assumes "get_reg m S3 < get_reg m SP" and "get_reg m S3 \<noteq> 0"
  shows "\<exists>e. printStackState L (view_of m) base msize = Inl (Err e)"
proof -
  let ?sp = "ucast (get_reg m SP) :: u64" and ?top = "ucast (get_reg m S3) :: u64"
  have u: "unat ?sp = unat (get_reg m SP)" "unat ?top = unat (get_reg m S3)"
    by (simp_all add: unat_ucast_up)
  have "?top \<noteq> 0" using assms(2) u(2) by (metis unsigned_0 unsigned_eq_0_iff)
  moreover have "?top < ?sp" using assms(1) u by (simp add: word_less_nat_alt)
  ultimately show ?thesis by (simp add: printStackState_def view_of_def Let_def)
qed

end
