(* ===== verification/OpenVM.thy ===== *)
theory OpenVM
  imports AssemblyProps WideCode Unicorn
begin

text \<open>
  The program as the OpenVM target runs it: a 32-bit RISC-V guest in which the calls of
  \<open>openVMPrecompiles\<close> go to the Rust functions of \<open>prover/openvm/bigint/src/lib.rs\<close> and every other
  call to the routine of lib.asm. The \<open>U256\<close> of the ruint crate is a parameter (\<open>ruint\<close>), and so is
  what a compiled Rust function does to the registers and to its own stack frame (\<open>frame\<close>, under
  the C calling convention \<open>c_abi\<close>). The last section relates a run of the printed instructions to
  a run of the generated ones linked with lib.asm alone.
\<close>

unbundle bit_operations_syntax

section \<open>The crate of the big integers\<close>

record ruint =
  from_le_bytes :: "u8 list \<Rightarrow> u256"
  to_le_bytes :: "u256 \<Rightarrow> u8 list"
  from_u32 :: "u32 \<Rightarrow> u256"
  uint_add :: "u256 \<Rightarrow> u256 \<Rightarrow> u256"
  uint_shr :: "u256 \<Rightarrow> u256 \<Rightarrow> u256"
  uint_not :: "u256 \<Rightarrow> u256"
  uint_eq :: "u256 \<Rightarrow> u256 \<Rightarrow> bool"
  uint_lt :: "u256 \<Rightarrow> u256 \<Rightarrow> bool"
  uint_gt :: "u256 \<Rightarrow> u256 \<Rightarrow> bool"

definition le_bytes :: "u256 \<Rightarrow> u8 list" where
  "le_bytes v = map (\<lambda>k. ucast (drop_bit (8 * k) v)) [0..<32]"

text \<open>
  What the crate documents: little-endian bytes, addition modulo \<open>2 ^ 256\<close>, a logical shift for
  amounts below 256, the complement and the unsigned order.
\<close>

definition ruint_documented :: "ruint \<Rightarrow> bool" where
  "ruint_documented R \<longleftrightarrow>
     (\<forall>v. from_le_bytes R (le_bytes v) = v) \<and> (\<forall>v. to_le_bytes R v = le_bytes v) \<and>
     (\<forall>w. from_u32 R w = ucast w) \<and> (\<forall>a b. uint_add R a b = a + b) \<and>
     (\<forall>v s. s < 256 \<longrightarrow> uint_shr R v s = drop_bit (unat s) v) \<and> (\<forall>v. uint_not R v = NOT v) \<and>
     (\<forall>a b. uint_eq R a b \<longleftrightarrow> a = b) \<and> (\<forall>a b. uint_lt R a b \<longleftrightarrow> a < b) \<and> (\<forall>a b. uint_gt R a b \<longleftrightarrow> b < a)"

definition sample_ruint :: ruint where
  "sample_ruint =
     \<lparr>from_le_bytes = \<lambda>bs. word_of_nat (be_nat (rev bs)), to_le_bytes = le_bytes, from_u32 = ucast,
      uint_add = (+), uint_shr = \<lambda>v s. drop_bit (unat s) v, uint_not = NOT,
      uint_eq = (=), uint_lt = (<), uint_gt = \<lambda>a b. b < a\<rparr>"

lemma le_bytes_be: "rev (le_bytes v) = be_bytes 32 (unat v)"
proof (rule nth_equalityI)
  show len: "length (rev (le_bytes v)) = length (be_bytes 32 (unat v))" by (simp add: le_bytes_def)
  fix i assume "i < length (rev (le_bytes v))"
  then have i: "i < 32" by (simp add: le_bytes_def)
  then have "31 - (31 - i) = i" by simp
  with be_byte[of "31 - i" v] i show "rev (le_bytes v) ! i = be_bytes 32 (unat v) ! i"
    by (simp add: rev_nth le_bytes_def)
qed

lemma sample_ruint_documented: "ruint_documented sample_ruint"
  using unat_u256_less by (simp add: ruint_documented_def sample_ruint_def le_bytes_be be_nat_be_bytes)

section \<open>The functions of the guest\<close>

text \<open>\<open>u32::to_le_bytes\<close> and \<open>u32::from_le_bytes\<close>.\<close>

definition word_bytes :: "u32 \<Rightarrow> u8 list" where
  "word_bytes w = [ucast w, ucast (drop_bit 8 w), ucast (drop_bit 16 w), ucast (drop_bit 24 w)]"

definition bytes_word :: "u8 list \<Rightarrow> u32" where
  "bytes_word bs = ucast (bs ! 0) OR push_bit 8 (ucast (bs ! 1)) OR push_bit 16 (ucast (bs ! 2)) OR
     push_bit 24 (ucast (bs ! 3))"

definition u256_from_words :: "ruint \<Rightarrow> u32 \<Rightarrow> memory \<Rightarrow> u256" where
  "u256_from_words R p mm =
     from_le_bytes R (concat (map (\<lambda>i. word_bytes (rd32 mm (p + word_of_nat (4 * i)))) [0..<8]))"

definition u256_to_words :: "ruint \<Rightarrow> u256 \<Rightarrow> u32 \<Rightarrow> memory \<Rightarrow> memory" where
  "u256_to_words R v p mm =
     bytemem.write_words
       (map (\<lambda>i. (p + word_of_nat (4 * i), bytes_word (map (\<lambda>j. to_le_bytes R v ! (i * 4 + j)) [0..<4]))) [0..<8]) mm"

definition openvm_add256_stack_scratch :: "ruint \<Rightarrow> u32 \<Rightarrow> u32 \<Rightarrow> memory \<Rightarrow> memory" where
  "openvm_add256_stack_scratch R num1_ptr num2_ptr mm =
     (let a = u256_from_words R num1_ptr mm; b = u256_from_words R num2_ptr mm
      in u256_to_words R (uint_add R a b) num2_ptr mm)"

definition openvm_eq256_stack_scratch :: "ruint \<Rightarrow> u32 \<Rightarrow> u32 \<Rightarrow> memory \<Rightarrow> memory" where
  "openvm_eq256_stack_scratch R num1_ptr num2_ptr mm =
     (let a = u256_from_words R num1_ptr mm; b = u256_from_words R num2_ptr mm;
          result = (if uint_eq R a b then from_u32 R 1 else from_u32 R 0)
      in u256_to_words R result num2_ptr mm)"

definition openvm_lt256_stack_scratch :: "ruint \<Rightarrow> u32 \<Rightarrow> u32 \<Rightarrow> memory \<Rightarrow> memory" where
  "openvm_lt256_stack_scratch R num1_ptr num2_ptr mm =
     (let a = u256_from_words R num1_ptr mm; b = u256_from_words R num2_ptr mm;
          result = (if uint_lt R a b then from_u32 R 1 else from_u32 R 0)
      in u256_to_words R result num2_ptr mm)"

definition openvm_gt256_stack_scratch :: "ruint \<Rightarrow> u32 \<Rightarrow> u32 \<Rightarrow> memory \<Rightarrow> memory" where
  "openvm_gt256_stack_scratch R num1_ptr num2_ptr mm =
     (let a = u256_from_words R num1_ptr mm; b = u256_from_words R num2_ptr mm;
          result = (if uint_gt R a b then from_u32 R 1 else from_u32 R 0)
      in u256_to_words R result num2_ptr mm)"

definition openvm_shr256_stack_scratch :: "ruint \<Rightarrow> u32 \<Rightarrow> u32 \<Rightarrow> memory \<Rightarrow> memory" where
  "openvm_shr256_stack_scratch R value_ptr shift_ptr mm =
     (let v = u256_from_words R value_ptr mm; shift = u256_from_words R shift_ptr mm
      in u256_to_words R (uint_shr R v shift) shift_ptr mm)"

definition openvm_not256_stack_scratch :: "ruint \<Rightarrow> u32 \<Rightarrow> memory \<Rightarrow> memory" where
  "openvm_not256_stack_scratch R value_ptr mm =
     (let v = u256_from_words R value_ptr mm in u256_to_words R (uint_not R v) value_ptr mm)"

text \<open>The exported functions by name, with the pointers of their calling convention, \<open>a0\<close> and \<open>a1\<close>.\<close>

definition guest_functions :: "ruint \<Rightarrow> string \<rightharpoonup> (u32 \<Rightarrow> u32 \<Rightarrow> memory \<Rightarrow> memory)" where
  "guest_functions R = map_of
     [(''openvm_add256_stack_scratch'', openvm_add256_stack_scratch R),
      (''openvm_eq256_stack_scratch'', openvm_eq256_stack_scratch R),
      (''openvm_lt256_stack_scratch'', openvm_lt256_stack_scratch R),
      (''openvm_gt256_stack_scratch'', openvm_gt256_stack_scratch R),
      (''openvm_shr256_stack_scratch'', openvm_shr256_stack_scratch R),
      (''openvm_not256_stack_scratch'', \<lambda>p _. openvm_not256_stack_scratch R p)]"

text \<open>
  The C calling convention: a function returns with the stack pointer and the saved registers it
  was called with, and keeps its frame below the stack pointer.
\<close>

definition c_abi :: "(mach \<Rightarrow> mach) \<Rightarrow> bool" where
  "c_abi frame \<longleftrightarrow>
     (\<forall>m. same_regs {SP, S1, S2, S3} m (frame m) \<and> (\<forall>a. get_reg m SP \<le> a \<longrightarrow> mem (frame m) a = mem m a))"

definition openvm_callee :: "ruint \<Rightarrow> (mach \<Rightarrow> mach) \<Rightarrow> u32 \<Rightarrow> string \<Rightarrow> mach \<Rightarrow> mach option" where
  "openvm_callee R frame link f m =
     (case guest_functions R f of
        Some g \<Rightarrow>
          (let m' = frame (set_reg RA link m)
           in Some (m'\<lparr>mem := g (get_reg m A0) (get_reg m A1) (mem m')\<rparr>))
      | None \<Rightarrow> lib_callee link f m)"

definition openvm_env :: "ruint \<Rightarrow> (mach \<Rightarrow> mach) \<Rightarrow> (string \<Rightarrow> u32 option) \<Rightarrow> u32 \<Rightarrow> asm_env" where
  "openvm_env R frame labels link = \<lparr>label_addr = labels, callee = openvm_callee R frame link\<rparr>"

section \<open>Words and bytes\<close>

lemma nth_le_bytes: "k < 32 \<Longrightarrow> le_bytes v ! k = ucast (drop_bit (8 * k) v)"
  by (simp add: le_bytes_def)

lemma word_bytes_at:
  "word_bytes (word_at i v) = map (\<lambda>j. ucast (drop_bit (8 * (4 * i + j)) v)) [0, 1, 2, 3]"
  using word_at_byte[of 0 i v] word_at_byte[of 8 i v] word_at_byte[of 16 i v] word_at_byte[of 24 i v]
  by (simp add: word_bytes_def algebra_simps)

lemma words_le_bytes: "concat (map (\<lambda>i. word_bytes (word_at i v)) [0..<8]) = le_bytes v"
  unfolding word_bytes_at le_bytes_def by (simp add: upt_rec)

lemma bytes_word_at:
  assumes "i < 8" shows "bytes_word (map (\<lambda>j. le_bytes v ! (i * 4 + j)) [0..<4]) = word_at i v"
proof -
  have "map (\<lambda>j. le_bytes v ! (i * 4 + j)) [0..<4] = word_bytes (word_at i v)"
    using assms by (simp add: word_bytes_at upt_rec nth_le_bytes algebra_simps)
  moreover have "bytes_word (word_bytes w) = w" for w
  proof (rule bit_word_eqI)
    fix n assume "n < LENGTH(32)"
    then consider "n < 8" | "8 \<le> n" "n < 16" | "16 \<le> n" "n < 24" | "24 \<le> n" "n < 32"
      by force
    then show "bit (bytes_word (word_bytes w)) n = bit w n"
      by cases (auto simp: bytes_word_def word_bytes_def bit_simps)
  qed
  ultimately show ?thesis by simp
qed

lemma from_words:
  assumes "ruint_documented R" and "holds mm p v" shows "u256_from_words R p mm = v"
proof -
  have eq: "map (\<lambda>i. word_bytes (rd32 mm (p + word_of_nat (4 * i)))) [0..<8] =
      map (\<lambda>i. word_bytes (word_at i v)) [0..<8]"
    using assms(2) by (intro map_cong) (simp_all add: holds_def del: of_nat_mult)
  show ?thesis
    unfolding u256_from_words_def eq words_le_bytes using assms(1) by (simp add: ruint_documented_def)
qed

lemma to_words:
  assumes "ruint_documented R"
  shows "holds (u256_to_words R v p mm) p v"
    "outside p a \<Longrightarrow> rd32 (u256_to_words R v p mm) a = rd32 mm a"
proof -
  have bytes: "to_le_bytes R v = le_bytes v" using assms by (simp add: ruint_documented_def)
  have words: "map (\<lambda>i. (p + word_of_nat (4 * i), bytes_word (map (\<lambda>j. le_bytes v ! (i * 4 + j)) [0..<4]))) [0..<8] =
      map (\<lambda>i. (p + word_of_nat (4 * i), word_at i v)) [0..<8]"
    using bytes_word_at by (intro map_cong) simp_all
  have eq: "u256_to_words R v p mm =
      bytemem.write_words (map (\<lambda>i. (p + word_of_nat (4 * i), word_at i v)) [0..<8]) mm"
    unfolding u256_to_words_def bytes words by (rule refl)
  show "holds (u256_to_words R v p mm) p v" unfolding eq by (rule holds_written)
  show "rd32 (u256_to_words R v p mm) a = rd32 mm a" if "outside p a"
    unfolding eq using that by (rule written_outside)
qed

section \<open>The printed instructions\<close>

fun redirect :: "rv \<Rightarrow> rv" where
  "redirect (I_call f) = I_call (case openVMPrecompiles f of Some p \<Rightarrow> p | None \<Rightarrow> f)"
| "redirect c = c"

lemma decode_names:
  assumes "decode i = Some c"
  shows "Name i = InstructionEBREAK \<longleftrightarrow> c = I_ebreak"
    "Name i = ''call'' \<Longrightarrow> \<exists>f. Operands i = [f] \<and> c = I_call f" "Name i \<noteq> ''call'' \<Longrightarrow> redirect c = c"
  using assms by (auto simp: decode_defs InstructionEBREAK_def split: if_splits list.splits option.splits)

lemma decode_openvm_instr:
  assumes "decode i = Some c" shows "decode (openvm_instr i) = Some (redirect c)"
proof (cases "Name i = ''call''")
  case True
  from decode_names(2)[OF assms True] obtain f where f: "Operands i = [f]" "c = I_call f" by blast
  have "openvm_instr i = instr ''call'' [case openVMPrecompiles f of Some p \<Rightarrow> p | None \<Rightarrow> f]"
    using True f by (simp add: openvm_instr_def cong: option.case_cong)
  then show ?thesis using f by (simp add: decode_defs)
next
  case False
  then show ?thesis using assms decode_names(3)[OF assms False] by (simp add: openvm_instr_def)
qed

lemma decode_openvm_code:
  "decode_all is = Some cs \<Longrightarrow> decode_all (openvm_code is) = Some (map redirect (filter (\<lambda>c. c \<noteq> I_ebreak) cs))"
proof (induction "is" arbitrary: cs)
  case Nil
  then show ?case by (simp add: openvm_code_def)
next
  case (Cons i "is")
  then obtain c ds where c: "decode i = Some c" "decode_all is = Some ds" "cs = c # ds"
    by (auto split: option.splits)
  from Cons.IH[OF c(2)] decode_openvm_instr[OF c(1)] decode_names(1)[OF c(1)] c(3)
  show ?case by (simp add: openvm_code_def)
qed

text \<open>A program that calls no redirected routine runs as it does linked with lib.asm alone.\<close>

definition own_call :: "string \<Rightarrow> bool" where
  "own_call f \<longleftrightarrow> openVMPrecompiles f = None \<and> guest_functions sample_ruint f = None"

lemma guest_names: "guest_functions R f = None \<longleftrightarrow> guest_functions R' f = None"
  by (simp add: guest_functions_def map_of_eq_None_iff)

lemma openvm_exec:
  "(\<And>f. I_call f \<in> set cs \<Longrightarrow> own_call f) \<Longrightarrow>
   exec (openvm_env R frame labels link) (map redirect (filter (\<lambda>c. c \<noteq> I_ebreak) cs)) m =
   exec (lib_env labels link) cs m"
proof (induction cs arbitrary: m)
  case Nil
  show ?case by simp
next
  case (Cons c cs)
  have own: "openVMPrecompiles f = None" "guest_functions R f = None" if "c = I_call f" for f
    using Cons.prems[of f] that guest_names[of R f sample_ruint] by (auto simp: own_call_def)
  have "exec1 (openvm_env R frame labels link) (redirect c) m' = exec1 (lib_env labels link) c m'" for m'
    by (cases c) (auto simp: openvm_env_def lib_env_def openvm_callee_def own)
  moreover have "exec (openvm_env R frame labels link) (map redirect (filter (\<lambda>c. c \<noteq> I_ebreak) cs)) m' =
      exec (lib_env labels link) cs m'" for m'
    using Cons.prems by (intro Cons.IH) simp
  ultimately show ?case by (auto split: option.split)
qed

definition own_calls :: "instruction list \<Rightarrow> bool" where
  "own_calls is \<longleftrightarrow> list_all (\<lambda>i. Name i = ''call'' \<longrightarrow> list_all own_call (Operands i)) is"

lemma decoded_call: "decode_all is = Some cs \<Longrightarrow> I_call f \<in> set cs \<Longrightarrow> \<exists>i\<in>set is. Name i = ''call'' \<and> Operands i = [f]"
proof (induction "is" arbitrary: cs)
  case (Cons i "is")
  then obtain c ds where c: "decode i = Some c" "decode_all is = Some ds" "cs = c # ds"
    by (auto split: option.splits)
  show ?case
  proof (cases "I_call f \<in> set ds")
    case True
    with Cons.IH[OF c(2)] show ?thesis by auto
  next
    case False
    with Cons.prems(2) c(3) have "c = I_call f" by auto
    moreover from this decode_names(3)[OF c(1)] have "Name i = ''call'' \<or> redirect (I_call f) = I_call f" by auto
    moreover have "decode i = Some (I_call f) \<Longrightarrow> Name i = ''call''"
      by (auto simp: decode_defs split: if_splits list.splits option.splits)
    ultimately show ?thesis using c(1) decode_names(2)[OF c(1)] by auto
  qed
qed simp

lemma openvm_run:
  assumes "own_calls is" and "run_asm (lib_env labels link) is m = Some m'"
  shows "run_asm (openvm_env R frame labels link) (openvm_code is) m = Some m'"
proof -
  from assms(2) obtain cs where cs: "decode_all is = Some cs" "exec (lib_env labels link) cs m = Some m'"
    by (auto simp: run_asm_def split: option.splits)
  have "own_call f" if "I_call f \<in> set cs" for f
    using decoded_call[OF cs(1) that] assms(1) by (auto simp: own_calls_def list_all_iff)
  from openvm_exec[OF this] cs(2) show ?thesis
    by (simp add: run_asm_def decode_openvm_code[OF cs(1)])
qed

section \<open>A call of the guest\<close>

lemma guest_words:
  assumes "ruint_documented R" and "holds mm p x" and "holds mm q y"
  shows "openvm_add256_stack_scratch R p q mm = u256_to_words R (x + y) q mm"
    "openvm_eq256_stack_scratch R p q mm = u256_to_words R (flag (x = y)) q mm"
    "openvm_lt256_stack_scratch R p q mm = u256_to_words R (flag (x < y)) q mm"
    "openvm_gt256_stack_scratch R p q mm = u256_to_words R (flag (y < x)) q mm"
    "y < 256 \<Longrightarrow> openvm_shr256_stack_scratch R p q mm = u256_to_words R (drop_bit (unat y) x) q mm"
    "openvm_not256_stack_scratch R p mm = u256_to_words R (NOT x) p mm"
  using assms(1) from_words[OF assms(1,2)] from_words[OF assms(1,3)]
  by (simp_all add: openvm_add256_stack_scratch_def openvm_eq256_stack_scratch_def openvm_lt256_stack_scratch_def
      openvm_gt256_stack_scratch_def openvm_shr256_stack_scratch_def openvm_not256_stack_scratch_def
      ruint_documented_def flag_def)

lemma rd32_cong: "(\<And>j. j \<in> {0, 1, 2, 3} \<Longrightarrow> mm' (a + j) = mm (a + j)) \<Longrightarrow> rd32 mm' a = rd32 mm a"
  unfolding rd32_def by (metis add.right_neutral insertCI)

lemma abi_holds:
  assumes "c_abi frame" and "get_reg m SP \<le> a" and "unat a + 32 \<le> 2 ^ 32"
  shows "holds (mem (frame m)) a v \<longleftrightarrow> holds (mem m) a v"
proof -
  have "mem (frame m) (a + word_of_nat (4 * i) + j) = mem m (a + word_of_nat (4 * i) + j)"
    if "i < 8" "j \<in> {0, 1, 2, 3}" for i j
  proof -
    have "unat (a + word_of_nat (4 * i)) = unat a + 4 * i" using assms(3) that by (intro unat_add_small) simp
    moreover have "unat j \<le> 3" using that(2) by auto
    ultimately have "unat (a + word_of_nat (4 * i) + j) = unat a + 4 * i + unat j"
      using assms(3) that(1) by (subst unat_plus_if') simp
    then have "a \<le> a + word_of_nat (4 * i) + j" by (simp add: word_le_nat_alt)
    with assms(1,2) show ?thesis unfolding c_abi_def by (meson order.trans)
  qed
  then have "rd32 (mem (frame m)) (a + word_of_nat (4 * i)) = rd32 (mem m) (a + word_of_nat (4 * i))" if "i < 8" for i
    using that by (intro rd32_cong) blast
  then show ?thesis by (simp add: holds_def del: of_nat_mult)
qed

text \<open>
  A redirected call with the pointers \<open>sp + p\<close> and \<open>sp + q\<close>: the function writes \<open>v\<close> at the second
  one, and the stack pointer stays.
\<close>

definition guest_leaves :: "mach \<Rightarrow> mach \<Rightarrow> u256 \<Rightarrow> u256 \<Rightarrow> bool" where
  "guest_leaves m m' x y \<longleftrightarrow>
     get_reg m' SP = get_reg m SP \<and> holds (mem m') (get_reg m SP) x \<and>
     holds (mem m') (get_reg m SP + 32) y \<and> same_regs {S1, S2, S3} m m'"

lemma guest_call_runs:
  assumes code: "decode_all cs = Some [I_addi A0 SP p, I_addi A1 SP q, I_call f]"
    and f: "openVMPrecompiles f = Some h" "guest_functions R h = Some g"
  shows "run_asm (openvm_env R frame labels link) (openvm_code cs) m =
    (let m' = frame (set_reg RA link (set_reg A1 (get_reg m SP + word_of_int q)
        (set_reg A0 (get_reg m SP + word_of_int p) m)))
     in Some (m'\<lparr>mem := g (get_reg m SP + word_of_int p) (get_reg m SP + word_of_int q) (mem m')\<rparr>))"
  using f by (simp add: run_asm_def decode_openvm_code[OF code] openvm_env_def openvm_callee_def mach_simps Let_def)

lemma guest_call:
  assumes R: "ruint_documented R" and abi: "c_abi frame" and room: "unat (get_reg m SP) + 64 \<le> 2 ^ 32"
    and pq: "(p, q) = (0, 32) \<or> (p, q) = (32, 0)"
    and x: "holds (mem m) (get_reg m SP + word_of_int p) x" and y: "holds (mem m) (get_reg m SP + word_of_int q) y"
    and code: "decode_all cs = Some [I_addi A0 SP p, I_addi A1 SP q, I_call f]"
    and f: "openVMPrecompiles f = Some h" "guest_functions R h = Some g"
    and g: "\<And>a b mm. holds mm a x \<Longrightarrow> holds mm b y \<Longrightarrow> g a b mm = u256_to_words R v b mm"
  shows "\<exists>m'. run_asm (openvm_env R frame labels link) (openvm_code cs) m = Some m' \<and>
    get_reg m' SP = get_reg m SP \<and> holds (mem m') (get_reg m SP + word_of_int p) x \<and>
    holds (mem m') (get_reg m SP + word_of_int q) v \<and> same_regs {S1, S2, S3} m m'"
proof -
  let ?s = "get_reg m SP" and ?a = "get_reg m SP + word_of_int p" and ?b = "get_reg m SP + word_of_int q"
  let ?m = "set_reg RA link (set_reg A1 ?b (set_reg A0 ?a m))"
  have regs: "get_reg ?m SP = ?s" "mem ?m = mem m" "same_regs {S1, S2, S3} m ?m"
    by (simp_all add: mach_simps same_regs_def)
  have u: "unat (?s + 32) = unat ?s + 32" using room unat_add_small[of ?s 32] by simp
  have keep: "holds (mem (frame ?m)) d w" if "holds (mem m) d w" "d = ?s \<or> d = ?s + 32" for d w
    using abi_holds[OF abi, of ?m d w] that room regs(1,2) u by (auto simp: word_le_nat_alt)
  have slots: "?a = ?s \<or> ?a = ?s + 32" "?b = ?s \<or> ?b = ?s + 32" "apart ?b ?a"
    using pq by (auto simp: apart_next apart_prev)
  let ?m' = "(frame ?m)\<lparr>mem := u256_to_words R v ?b (mem (frame ?m))\<rparr>"
  have "run_asm (openvm_env R frame labels link) (openvm_code cs) m = Some ?m'"
    using guest_call_runs[OF code f, of frame labels link m] g[OF keep[OF x slots(1)] keep[OF y slots(2)]]
    by (simp add: Let_def)
  moreover have "holds (mem ?m') ?a x"
    using keep[OF x slots(1)] to_words(2)[OF R apart_outside[OF slots(3)]] by (simp add: holds_def del: of_nat_mult)
  moreover have "holds (mem ?m') ?b v" using to_words(1)[OF R] by simp
  moreover have "get_reg ?m' SP = ?s" "same_regs {S1, S2, S3} m ?m'"
    using abi regs by (auto simp: c_abi_def same_regs_def mach_simps)
  ultimately show ?thesis by blast
qed

text \<open>The redirected binary opcodes, with the code they emit.\<close>

lemma redirected:
  "openVMPrecompiles ''add256_stack_scratch'' = Some ''openvm_add256_stack_scratch''"
  "openVMPrecompiles ''eq256_stack_scratch'' = Some ''openvm_eq256_stack_scratch''"
  "openVMPrecompiles ''lt256_stack_scratch'' = Some ''openvm_lt256_stack_scratch''"
  "openVMPrecompiles ''gt256_stack_scratch'' = Some ''openvm_gt256_stack_scratch''"
  "openVMPrecompiles ''shr256_stack_scratch'' = Some ''openvm_shr256_stack_scratch''"
  by (simp_all add: openVMPrecompiles_def)

lemma guest_named:
  "guest_functions R ''openvm_add256_stack_scratch'' = Some (openvm_add256_stack_scratch R)"
  "guest_functions R ''openvm_eq256_stack_scratch'' = Some (openvm_eq256_stack_scratch R)"
  "guest_functions R ''openvm_lt256_stack_scratch'' = Some (openvm_lt256_stack_scratch R)"
  "guest_functions R ''openvm_gt256_stack_scratch'' = Some (openvm_gt256_stack_scratch R)"
  "guest_functions R ''openvm_shr256_stack_scratch'' = Some (openvm_shr256_stack_scratch R)"
  by (simp_all add: guest_functions_def)

lemma guest_binary:
  assumes R: "ruint_documented R" and abi: "c_abi frame" and room: "unat (get_reg m SP) + 64 \<le> 2 ^ 32"
    and x: "holds (mem m) (get_reg m SP) x" and y: "holds (mem m) (get_reg m SP + 32) y"
    and op: "op \<in> {vm_ADD, vm_EQ, vm_LT, vm_GT}" "lib_binary op = Some g"
  shows "\<exists>cs m'. (\<forall>rs tr. arith_cases L op rs tr = Some (host tr cs 2)) \<and>
    run_asm (openvm_env R frame labels link) (openvm_code cs) m = Some m' \<and> guest_leaves m m' x (g x y)"
proof -
  let ?runs = "\<lambda>cs v. \<exists>m'. run_asm (openvm_env R frame labels link) (openvm_code cs) m = Some m' \<and>
    guest_leaves m m' x v"
  note call = guest_call[OF R abi room, of 0 32, simplified, OF x y, folded guest_leaves_def]
  consider "op = vm_ADD" "g = (+)" | "op = vm_EQ" "g = (\<lambda>x y. flag (x = y))"
    | "op = vm_LT" "g = (\<lambda>x y. flag (x < y))" | "op = vm_GT" "g = (\<lambda>x y. flag (y < x))"
    using op by (auto simp: lib_binary_def)
  then show ?thesis
  proof cases
    case 1
    have "?runs add256Call (x + y)"
      by (rule call[OF decode_calls(1) redirected(1) guest_named(1) guest_words(1)[OF R]])
    then show ?thesis unfolding 1 using arith_hosts(1) by blast
  next
    case 2
    have "?runs eq256Call (flag (x = y))"
      by (rule call[OF decode_calls(12) redirected(2) guest_named(2) guest_words(2)[OF R]])
    then show ?thesis unfolding 2 using arith_hosts(8) by blast
  next
    case 3
    have "?runs lt256Call (flag (x < y))"
      by (rule call[OF decode_calls(14) redirected(3) guest_named(3) guest_words(3)[OF R]])
    then show ?thesis unfolding 3 using arith_hosts(13) by blast
  next
    case 4
    have "?runs gt256Call (flag (y < x))"
      by (rule call[OF decode_calls(13) redirected(4) guest_named(4) guest_words(4)[OF R]])
    then show ?thesis unfolding 4 using arith_hosts(12) by blast
  qed
qed

lemma guest_shift:
  assumes R: "ruint_documented R" and abi: "c_abi frame" and room: "unat (get_reg m SP) + 64 \<le> 2 ^ 32"
    and s: "holds (mem m) (get_reg m SP) s" and v: "holds (mem m) (get_reg m SP + 32) v" and small: "s < 256"
  shows "\<exists>m'. run_asm (openvm_env R frame labels link) (openvm_code shr256Call) m = Some m' \<and>
    guest_leaves m m' (drop_bit (unat s) v) v"
proof -
  have "\<exists>m'. run_asm (openvm_env R frame labels link) (openvm_code shr256Call) m = Some m' \<and>
    get_reg m' SP = get_reg m SP \<and> holds (mem m') (get_reg m SP + word_of_int 32) v \<and>
    holds (mem m') (get_reg m SP + word_of_int 0) (drop_bit (unat s) v) \<and> same_regs {S1, S2, S3} m m'"
    by (rule guest_call[OF R abi room _ _ _ decode_calls(9) redirected(5) guest_named(5)
          guest_words(5)[OF R _ _ small]]) (use s v in simp_all)
  then show ?thesis by (auto simp: guest_leaves_def)
qed

section \<open>Programs without redirected calls\<close>

text \<open>The opcodes whose routine is lib.asm's on OpenVM too.\<close>

definition own_opcodes :: "opcode list" where
  "own_opcodes = [vm_MUL, vm_SUB, vm_DIV, vm_AND, vm_OR, vm_XOR, vm_SLT, vm_SHL]"

lemma own_call_names:
  "own_call ''mul256_stack_scratch''" "own_call ''sub256_stack_scratch''" "own_call ''div256_stack_scratch''"
  "own_call ''and256_stack_scratch''" "own_call ''or256_stack_scratch''" "own_call ''xor256_stack_scratch''"
  "own_call ''slt256_stack_scratch''" "own_call ''shl256_stack_scratch''"
  by (simp_all add: own_call_def openVMPrecompiles_def guest_functions_def)

lemma own_call_code:
  "own_calls mul256Call" "own_calls sub256Call" "own_calls div256Call" "own_calls and256Call" "own_calls or256Call"
  "own_calls xor256Call" "own_calls slt256Call" "own_calls shl256Call"
  by (simp_all add: own_calls_def call_defs own_call_names)

lemma own_calls_concat: "own_calls (concat iss) \<longleftrightarrow> list_all own_calls iss"
  by (induction iss) (simp_all add: own_calls_def)

lemma own_calls_append: "own_calls (xs @ ys) \<longleftrightarrow> own_calls xs \<and> own_calls ys"
  by (simp add: own_calls_def)

lemma own_arith_code:
  "op \<in> set own_opcodes \<Longrightarrow> \<exists>cs. (\<forall>rs tr. arith_cases L op rs tr = Some (host tr cs 2)) \<and> own_calls cs"
  unfolding own_opcodes_def list.set insert_iff empty_iff
  by (elim disjE FalseE; use arith_hosts[of L] own_call_code in blast)

lemma own_arith:
  assumes "op \<in> set own_opcodes" and "arith_cases L op None NewTestTranspiler = Some (host NewTestTranspiler cs n)"
  shows "own_calls cs"
  using own_arith_code[OF assms(1), of L] wide_code_unique[OF assms(2) _ host_enabled] by blast

lemma own_stack: "lowers ds i is \<Longrightarrow> own_calls is"
  by (cases i) (auto simp: own_calls_def popStack_def pushOpcode_def DupOpcode_def SwapOpcode_def
      loadFromDataSection_def EBREAK_instr_def Let_def list_all_iff)

fun own_op :: "wide_op \<Rightarrow> bool" where
  "own_op (Stack i) = True"
| "own_op (Compute op) = (op \<in> set own_opcodes)"

lemma own_lowers: "wide_lowers L ds i is \<Longrightarrow> own_op i \<Longrightarrow> own_calls is"
  by (cases i) (auto intro: own_stack own_arith)

lemma own_program:
  "list_all2 (wide_lowers L ds) p iss \<Longrightarrow> list_all own_op p \<Longrightarrow> own_calls (concat iss)"
proof (induction p iss rule: list_all2_induct)
  case Nil
  show ?case by (simp add: own_calls_def)
qed (auto simp: own_calls_append intro: own_lowers)

lemma wide_rel_env: "label_addr env = label_addr env' \<Longrightarrow> wide_rel env ds lo cap ss m \<longleftrightarrow> wide_rel env' ds lo cap ss m"
  by (simp add: wide_rel_def data_rel_def)

lemma openvm_labels: "label_addr (openvm_env R frame labels link) = label_addr (lib_env labels link)"
  by (simp add: openvm_env_def lib_env_def)

lemma planned_copies:
  "wide_trace_plan L ins st is r = Some p \<Longrightarrow> i \<in> set is \<Longrightarrow> mcopy_fits cfg (ins ! i)"
proof (induction "is" arbitrary: r p)
  case (Cons j "is")
  then obtain p1 p2 where p: "wide_plan L (ins ! j) st (result_for ins j) r = Some p1"
    "wide_trace_plan L ins st is (next_state L (ins ! j) r) = Some p2"
    by (auto split: option.splits)
  from p(1) have "mcopy_fits cfg (ins ! j)"
    by (auto simp: mcopy_fits_def mcopy_off_def wide_plan_def split: if_splits)
  with Cons.IH[OF p(2)] Cons.prems(2) show ?case by auto
qed simp

lemma code_ok_operands: "code_ok ds is \<Longrightarrow> list_all (\<lambda>i. Name i = ''call'' \<longrightarrow> Operands i \<noteq> []) is"
proof (induction "is")
  case (Cons i "is")
  then have "code_ok ds [i]" "code_ok ds is" using code_ok_append[of ds "[i]" "is"] by simp_all
  with Cons.IH show ?case by (auto simp: code_ok_def dest: decode_names(2) split: option.splits)
qed simp

lemma openvm_code_unmarked: "list_all (\<lambda>i. Name i \<noteq> InstructionEBREAK) (openvm_code is)"
  by (auto simp: openvm_code_def openvm_instr_def list_all_iff InstructionEBREAK_def)

lemma openvm_code_marked: "openvm_code (is @ [EBREAK_instr]) = openvm_code is"
  by (simp add: openvm_code_def EBREAK_instr_def InstructionEBREAK_def)

lemma id_abi: "c_abi id"
  by (simp add: c_abi_def)

end
