(* ===== verification/LibProps.thy ===== *)
theory LibProps
  imports CodeProps OpenVM
begin

text \<open>
  Properties of the transpiler with host-optimised opcodes: where a call gives the EVM's result and
  where it does not, and the run of a whole trace at full width. \<open>lib_env\<close> links the generated
  instructions with lib.asm on 32-bit registers, which is how OpenVM runs the routines it does not
  replace; \<open>openvm_env\<close> is the OpenVM program, in which the calls of the printed text go to the
  functions of the bigint crate where \<open>openVMPrecompiles\<close> says so. The 64-bit registers of the
  Unicorn test runner are not modelled; the text of a property says where it needs the width.
\<close>

unbundle bit_operations_syntax

section \<open>One hosted opcode\<close>

text \<open>The EVM's result for the top slot \<open>x\<close> and the slot \<open>y\<close> below it.\<close>

definition evm_binary :: "opcode \<Rightarrow> (u256 \<Rightarrow> u256 \<Rightarrow> u256) option" where
  "evm_binary = map_of
     [(vm_ADD, (+)), (vm_MUL, (*)), (vm_SUB, (-)), (vm_DIV, \<lambda>x y. if y = 0 then 0 else x div y),
      (vm_AND, (AND)), (vm_OR, (OR)), (vm_XOR, (XOR)), (vm_EQ, \<lambda>x y. flag (x = y)), (vm_SLT, \<lambda>x y. flag (x <s y)),
      (vm_SHR, \<lambda>x y. if 256 \<le> x then 0 else drop_bit (unat x) y),
      (vm_SHL, \<lambda>x y. if 256 \<le> x then 0 else push_bit (unat x) y), (vm_GT, \<lambda>x y. flag (y < x)),
      (vm_LT, \<lambda>x y. flag (x < y))]"

lemma hosted_entry:
  assumes "lib_binary (Opcode m) = Some g" and "\<not> IsStackRestore m" and "\<not> DisableHostOptimizedOpcodes (config tr)"
    and "holds (mem mc) (get_reg mc SP) x" and "holds (mem mc) (get_reg mc SP + 32) y"
  shows "\<exists>tr' mc'. AddInstructionWithResult L m st rs tr = Inr tr' \<and>
    run_asm (lib_env labels link) (drop (length (instructions tr)) (instructions tr')) mc = Some mc' \<and>
    replaces mc mc' 1 (g x y)"
proof -
  from hosted_runs[OF assms(1,4,5), of L labels link] obtain cs mc' where
    cs: "\<And>rs tr. arith_cases L (Opcode m) rs tr = Some (host tr cs 2)"
    and mc': "run_asm (lib_env labels link) cs mc = Some mc'" "replaces mc mc' 1 (g x y)" by blast
  have "Opcode m \<notin> {vm_STOP, vm_RETURN, vm_REVERT, vm_INVALID}"
  proof
    assume "Opcode m \<in> {vm_STOP, vm_RETURN, vm_REVERT, vm_INVALID}"
    then have "lib_binary (Opcode m) = None" by (auto simp: lib_binary_def)
    with assms(1) show False by simp
  qed
  then have none: "halt_cases L (Opcode m) tr = None" by (simp add: halt_cases_def Let_def)
  let ?tr' = "storeDebugInfo L (length (instructions tr)) (Opcode m) (emit [EBREAK_instr] (emit cs tr))"
  have "AddInstructionWithResult L m st rs tr = Inr ?tr'"
    using cs assms(2,3) none
    by (simp add: AddInstructionWithResult_def switch_opcode_def host_def hostOptimizedOpcode_def)
  moreover have "drop (length (instructions tr)) (instructions ?tr') = cs @ [EBREAK_instr]"
    by (simp add: storeDebugInfo_def)
  moreover have "run_asm (lib_env labels link) (cs @ [EBREAK_instr]) mc = Some mc'"
    by (rule run_asm_append[OF mc'(1)]) (simp add: run_asm_def EBREAK_instr_def decode_simps)
  ultimately show ?thesis using mc'(2) by (intro exI[of _ ?tr']) simp
qed

text \<open>A machine with two values on its stack.\<close>

definition two_slots :: "u256 \<Rightarrow> u256 \<Rightarrow> mach" where
  "two_slots x y = image_machine 0 [x, y]"

lemma two_slots_hold:
  "get_reg (two_slots x y) SP = 0" "holds (mem (two_slots x y)) 0 x" "holds (mem (two_slots x y)) 32 y"
  using data_image_holds[of 0 "[x, y]"] data_image_holds[of 1 "[x, y]"]
  by (simp_all add: two_slots_def image_machine_def get_reg_def)

lemma NewTestTranspiler_empty: "instructions NewTestTranspiler = []"
  by (simp add: NewTestTranspiler_def NewTranspilerWithConfig_def)

text \<open>The code of one hosted opcode, and the code that calls no redirected routine as printed for OpenVM.\<close>

lemma emitted_code:
  assumes "\<And>rs tr. arith_cases L (Opcode m) rs tr = Some (host tr cs 2)" and "\<not> IsStackRestore m"
    and "\<not> DisableHostOptimizedOpcodes (config tr)" and "Opcode m \<in> dom lib_binary"
    and "AddInstructionWithResult L m st rs tr = Inr tr'"
  shows "drop (length (instructions tr)) (instructions tr') = cs @ [EBREAK_instr]"
proof -
  have "halt_cases L (Opcode m) tr = None"
    using assms(4) by (auto simp: halt_cases_def Let_def lib_binary_def)
  with assms show ?thesis
    by (auto simp: AddInstructionWithResult_def switch_opcode_def host_def hostOptimizedOpcode_def storeDebugInfo_def)
qed

lemma own_emitted:
  assumes "Opcode m \<in> set own_opcodes" and "\<not> IsStackRestore m" and "\<not> DisableHostOptimizedOpcodes (config tr)"
    and "AddInstructionWithResult L m st rs tr = Inr tr'"
  shows "own_calls (drop (length (instructions tr)) (instructions tr'))"
proof -
  have "Opcode m \<in> dom lib_binary" using assms(1) by (auto simp: own_opcodes_def lib_binary_def)
  moreover obtain cs where "\<And>rs tr. arith_cases L (Opcode m) rs tr = Some (host tr cs 2)" "own_calls cs"
    using own_arith_code[OF assms(1), of L] by blast
  ultimately show ?thesis
    using emitted_code[OF _ assms(2,3) _ assms(4)] by (simp add: own_calls_append) (simp add: own_calls_def EBREAK_instr_def)
qed

lemma hosted_entry_openvm:
  assumes "Opcode m \<in> set own_opcodes"
    and "lib_binary (Opcode m) = Some g" and "\<not> IsStackRestore m" and "\<not> DisableHostOptimizedOpcodes (config tr)"
    and "holds (mem mc) (get_reg mc SP) x" and "holds (mem mc) (get_reg mc SP + 32) y"
  shows "\<exists>tr' mc'. AddInstructionWithResult L m st rs tr = Inr tr' \<and>
    run_asm (openvm_env R frame labels link) (openvm_code (drop (length (instructions tr)) (instructions tr'))) mc =
      Some mc' \<and> replaces mc mc' 1 (g x y)"
proof -
  from hosted_entry[OF assms(2-6), of L st rs labels link] obtain tr' mc' where
    t: "AddInstructionWithResult L m st rs tr = Inr tr'"
    and r: "run_asm (lib_env labels link) (drop (length (instructions tr)) (instructions tr')) mc = Some mc'"
      "replaces mc mc' 1 (g x y)" by blast
  have "own_calls (drop (length (instructions tr)) (instructions tr'))"
    using own_emitted[OF assms(1,3,4) t] .
  from openvm_run[OF this r(1)] t r(2) show ?thesis by blast
qed

text \<open>
  C3. On OpenVM the code emitted for SUB, AND, OR, XOR and SLT, which call lib.asm there, computes the
  EVM's result at full width: with \<open>x\<close> in the top slot and \<open>y\<close> below it, the printed instructions
  run to their end, pop one slot and leave the 256-bit result of \<open>x\<close> and \<open>y\<close>, for SUB \<open>x - y\<close>, in the
  new top slot; every word of memory outside that slot and the registers \<open>s1\<close>, \<open>s2\<close> and \<open>s3\<close> are
  unchanged. The argument and temporary registers and \<open>ra\<close> are not part of the statement.
\<close>

theorem hosted_opcode_is_the_evms:
  assumes "Opcode m \<in> {vm_SUB, vm_AND, vm_OR, vm_XOR, vm_SLT}"
    and "evm_binary (Opcode m) = Some g" and "\<not> IsStackRestore m" and "\<not> DisableHostOptimizedOpcodes (config tr)"
    and "holds (mem mc) (get_reg mc SP) x" and "holds (mem mc) (get_reg mc SP + 32) y"
  shows "\<exists>tr' mc'. AddInstructionWithResult L m st rs tr = Inr tr' \<and>
    run_asm (openvm_env R frame labels link) (openvm_code (drop (length (instructions tr)) (instructions tr'))) mc =
      Some mc' \<and> replaces mc mc' 1 (g x y)"
proof (rule hosted_entry_openvm[OF _ _ assms(3-6)])
  show "lib_binary (Opcode m) = Some g" "Opcode m \<in> set own_opcodes"
    using assms(1,2) by (auto simp: lib_binary_def evm_binary_def own_opcodes_def)
qed

theorem hosted_opcode_is_the_evms_witness:
  "\<exists>tr' mc'. AddInstructionWithResult sample_lib (entry vm_SUB [] []) None None NewTestTranspiler = Inr tr' \<and>
    run_asm (openvm_env sample_ruint id Map.empty 0x400) (openvm_code (instructions tr')) (two_slots 1 2) = Some mc' \<and>
    holds (mem mc') 32 (- 1)"
proof -
  have "evm_binary (Opcode (entry vm_SUB [] [])) = Some (-)" by (simp add: evm_binary_def)
  from hosted_opcode_is_the_evms[OF _ this _ host_enabled, of "two_slots 1 2" 1 2 sample_lib None None sample_ruint id
      Map.empty "0x400"] two_slots_hold[of 1 2] NewTestTranspiler_empty
  show ?thesis by (auto simp: replaces_def)
qed

text \<open>
  C10. The product of lib.asm, on 32-bit registers as under OpenVM, is bounded to 32-bit operands: the
  code of MUL leaves the product where both operands are below \<open>2 ^ 32\<close>, and zero for every other
  pair.
\<close>

theorem hosted_product_bound:
  assumes "Opcode m = vm_MUL" and "\<not> IsStackRestore m" and "\<not> DisableHostOptimizedOpcodes (config tr)"
    and "holds (mem mc) (get_reg mc SP) x" and "holds (mem mc) (get_reg mc SP + 32) y"
  shows "\<exists>tr' mc'. AddInstructionWithResult L m st rs tr = Inr tr' \<and>
    run_asm (lib_env labels link) (drop (length (instructions tr)) (instructions tr')) mc = Some mc' \<and>
    replaces mc mc' 1 (if x < 2 ^ 32 \<and> y < 2 ^ 32 then x * y else 0)"
proof -
  have "lib_binary (Opcode m) = Some mul_result" using assms(1) by (simp add: lib_binary_def)
  from hosted_entry[OF this assms(2-5)] show ?thesis unfolding mul_result_def .
qed

theorem hosted_product_bound_witness:
  "\<exists>tr' mc'. AddInstructionWithResult sample_lib (entry vm_MUL [] []) None None NewTestTranspiler = Inr tr' \<and>
    run_asm (lib_env Map.empty 0x400) (instructions tr') (two_slots (2 ^ 32) 1) = Some mc' \<and>
    holds (mem mc') 32 0"
  using hosted_product_bound[of "entry vm_MUL [] []" NewTestTranspiler "two_slots (2 ^ 32) 1" "2 ^ 32" 1
      sample_lib None None Map.empty "0x400"] host_enabled two_slots_hold[of "2 ^ 32" 1] NewTestTranspiler_empty
  by (auto simp: replaces_def)

lemma small_low: "v < 2 ^ 32 \<Longrightarrow> unat (word_at 0 v) = unat v"
  by (simp add: unat_word_at word_less_nat_alt)

lemma div_small:
  assumes "x < 2 ^ 32" "y < 2 ^ 32"
  shows "div_result x y = (if x = 0 \<or> y = 0 then 0 else if x < y then 8 else x div y)"
proof -
  note low = small_low[OF assms(1)] small_low[OF assms(2)]
  have "word_at 0 y = 0 \<longleftrightarrow> y = 0" using low(2) by (metis unat_eq_zero)
  moreover have "word_at 0 x < word_at 0 y \<longleftrightarrow> x < y" using low by (simp add: word_less_nat_alt)
  moreover have "word_of_nat (unat x div unat y) = x div y" by (metis unat_div_distrib of_nat_unat ucast_id)
  ultimately show ?thesis by (simp add: div_result_def Let_def low)
qed

text \<open>
  C11. The quotient of lib.asm, on 32-bit registers as under OpenVM, looks at the low words only, and a dividend whose low word is smaller
  than the divisor's, but not zero, gives 8, the number of words of the loop before it: the code
  of DIV leaves the EVM's quotient of 32-bit operands only where the quotient is not zero or the
  dividend or the divisor is.
\<close>

theorem hosted_quotient_bound:
  assumes "Opcode m = vm_DIV" and "\<not> IsStackRestore m" and "\<not> DisableHostOptimizedOpcodes (config tr)"
    and "holds (mem mc) (get_reg mc SP) x" and "holds (mem mc) (get_reg mc SP + 32) y"
    and "x < 2 ^ 32" and "y < 2 ^ 32"
  shows "\<exists>tr' mc'. AddInstructionWithResult L m st rs tr = Inr tr' \<and>
    run_asm (lib_env labels link) (drop (length (instructions tr)) (instructions tr')) mc = Some mc' \<and>
    replaces mc mc' 1 (if x = 0 \<or> y = 0 then 0 else if x < y then 8 else x div y)"
proof -
  have "lib_binary (Opcode m) = Some div_result" using assms(1) by (simp add: lib_binary_def)
  from hosted_entry[OF this assms(2-5), of L st rs labels link]
  show ?thesis unfolding div_small[OF assms(6,7)] .
qed


theorem hosted_quotient_bound_witness:
  "\<exists>tr' mc'. AddInstructionWithResult sample_lib (entry vm_DIV [] []) None None NewTestTranspiler = Inr tr' \<and>
    run_asm (lib_env Map.empty 0x400) (instructions tr') (two_slots 1 2) = Some mc' \<and>
    holds (mem mc') 32 8"
proof -
  have "(1 :: u256) < 2 ^ 32" "(2 :: u256) < 2 ^ 32" by simp_all
  from hosted_quotient_bound[OF _ _ host_enabled _ _ this, of "entry vm_DIV [] []" "two_slots 1 2" sample_lib None None
      Map.empty "0x400"] two_slots_hold[of 1 2] NewTestTranspiler_empty
  show ?thesis by (auto simp: replaces_def)
qed

section \<open>Shifts\<close>

text \<open>Words that start out zero above position \<open>8 - w\<close> are what \<open>shl\<close> spreads over the value.\<close>

lemma copies_zero:
  "\<forall>i<k + w. ws ! ord i = 0 \<Longrightarrow> 0 < w \<Longrightarrow> k + n + w = 8 \<Longrightarrow> length ws = 8 \<Longrightarrow> \<forall>i<8. ord i < 8 \<Longrightarrow>
   length (copies ord w n k ws) = 8 \<and> (\<forall>i<8. copies ord w n k ws ! ord i = 0)"
proof (induction n arbitrary: k ws)
  case 0
  then show ?case by simp
next
  case (Suc n)
  let ?ws = "ws[ord (k + w) := ws ! ord k]"
  have "ws ! ord k = 0" using Suc.prems(1,2) by simp
  then have "?ws ! ord i = 0" if "i < Suc k + w" for i
    using Suc.prems that by (cases "i = k + w") (simp_all add: nth_list_update)
  with Suc.IH[of "Suc k" ?ws] Suc.prems(2-5) show ?case by simp
qed

lemma clears_zero:
  "\<forall>i<8. ws ! ord i = 0 \<Longrightarrow> length ws = 8 \<Longrightarrow> k + n \<le> 8 \<Longrightarrow> \<forall>i<8. ord i < 8 \<Longrightarrow>
   length (clears ord n k ws) = 8 \<and> (\<forall>i<8. clears ord n k ws ! ord i = 0)"
proof (induction n arbitrary: k ws)
  case (Suc n)
  have "ws[ord k := 0] ! ord i = 0" if "i < 8" for i
    using Suc.prems that by (simp add: nth_list_update)
  with Suc.IH[of "ws[ord k := 0]" "Suc k"] Suc.prems(2-4) show ?case by simp
qed simp

lemma moved_top_zero:
  assumes "length ws = 8" "0 < w" "w < 8" "\<And>j. 8 - w \<le> j \<Longrightarrow> j < 8 \<Longrightarrow> ws ! j = 0"
  shows "moved (\<lambda>k. 7 - k) w ws = replicate 8 0"
proof -
  let ?o = "\<lambda>k. 7 - k :: nat"
  have "\<forall>i<0 + w. ws ! ?o i = 0" using assms(2,3) by (intro allI impI assms(4)) auto
  have small: "\<forall>i<8. ?o i < 8" by auto
  from copies_zero[OF \<open>\<forall>i<0 + w. _\<close> assms(2) _ assms(1) small, of "8 - w"] assms(3) have
    "\<forall>i<8. copies ?o w (8 - w) 0 ws ! ?o i = 0" "length (copies ?o w (8 - w) 0 ws) = 8" by simp_all
  from clears_zero[OF this _ small, of "8 - w" w] assms(3) have
    z: "length (moved ?o w ws) = 8" "\<forall>i<8. moved ?o w ws ! ?o i = 0" by (simp_all add: moved_def)
  have "moved ?o w ws ! j = 0" if "j < 8" for j
    using z(2)[rule_format, of "7 - j"] that by simp
  with z(1) show ?thesis by (intro nth_equalityI) simp_all
qed

lemma shl_bits_zero: "shl_bit_words t (replicate 8 0) = replicate 8 0"
  by (rule nth_equalityI) (auto simp: shl_bit_words_def)

lemma shl_zero:
  assumes "32 \<le> s" "s < 256" "unat v < 2 ^ (256 - 32 * (unat s div 32))"
  shows "shl_result v s = 0"
proof -
  let ?w = "unat s div 32" and ?ws = "map (\<lambda>j. word_at j v) [0..<8]"
  have n: "32 \<le> unat s" "unat s < 256" using assms(1,2) by (simp_all add: word_le_nat_alt word_less_nat_alt)
  then have low: "unat (word_at 0 s) = unat s" by (simp add: unat_word_at)
  have w: "0 < ?w" "?w < 8" using n by auto
  have zero: "word_at j v = 0" if "8 - ?w \<le> j" "j < 8" for j
  proof -
    have "256 - 32 * ?w \<le> 32 * j" using that by simp
    then have "(2 :: nat) ^ (256 - 32 * ?w) \<le> 2 ^ (32 * j)" by (intro power_increasing) simp_all
    with assms(3) have "unat v < (2 ^ 32) ^ j" unfolding power_mult[symmetric] by linarith
    then have "unat (word_at j v) = 0" unfolding unat_word_at by simp
    then show ?thesis by (simp only: unat_eq_zero)
  qed
  have "moved (\<lambda>k. 7 - k) ?w ?ws = replicate 8 0"
    by (rule moved_top_zero) (use w zero in simp_all)
  moreover have "of_words (replicate 8 0) = 0" by (simp add: of_words_def numeral_eq_Suc)
  ultimately show ?thesis
    using n by (simp add: shl_result_def shift_result_def shifted_def low Let_def shl_bits_zero)
qed

text \<open>
  C12. The left shift of lib.asm moves words towards the low end: for an amount of 32 to 255 the
  code of SHL leaves zero for every value that loses no whole word by the shift, whatever the
  EVM's result.
\<close>

theorem hosted_shl_clears:
  assumes "Opcode m = vm_SHL" and "\<not> IsStackRestore m" and "\<not> DisableHostOptimizedOpcodes (config tr)"
    and "holds (mem mc) (get_reg mc SP) s" and "holds (mem mc) (get_reg mc SP + 32) v"
    and "32 \<le> s" and "s < 256" and "unat v < 2 ^ (256 - 32 * (unat s div 32))"
  shows "\<exists>tr' mc'. AddInstructionWithResult L m st rs tr = Inr tr' \<and>
    run_asm (lib_env labels link) (drop (length (instructions tr)) (instructions tr')) mc = Some mc' \<and>
    replaces mc mc' 1 0"
proof -
  have "lib_binary (Opcode m) = Some (\<lambda>x y. shl_result y x)" using assms(1) by (simp add: lib_binary_def)
  from hosted_entry[OF this assms(2-5), of L st rs labels link] show ?thesis
    unfolding shl_zero[OF assms(6-8)] .
qed

theorem hosted_shl_clears_witness:
  "\<exists>tr' mc'. AddInstructionWithResult sample_lib (entry vm_SHL [] []) None None NewTestTranspiler = Inr tr' \<and>
    run_asm (lib_env Map.empty 0x400) (instructions tr') (two_slots 32 1) = Some mc' \<and>
    holds (mem mc') 32 0"
proof -
  have "(32 :: u256) \<le> 32" "(32 :: u256) < 256" "unat (1 :: u256) < 2 ^ (256 - 32 * (unat (32 :: u256) div 32))"
    by simp_all
  from hosted_shl_clears[OF _ _ host_enabled _ _ this, of "entry vm_SHL [] []" "two_slots 32 1" sample_lib None None
      Map.empty "0x400"] two_slots_hold[of 32 1] NewTestTranspiler_empty
  show ?thesis by (auto simp: replaces_def)
qed


section \<open>Redirected calls\<close>

lemma room_two_slots: "unat (get_reg (two_slots x y) SP) + 64 \<le> 2 ^ 32"
  by (simp add: two_slots_hold)

text \<open>
  C13. On OpenVM the calls of ADD, EQ, LT and GT go to Rust functions that keep the stack pointer, as
  every function of the C calling convention does, where the routines of lib.asm pop a slot: the
  printed code leaves the EVM's result one slot too low, with the first operand still on top of
  it. The bigint crate's arithmetic and the frame of the compiled function are parameters, under
  their documentation and under the calling convention.
\<close>

theorem guest_calls_keep_an_operand:
  assumes "ruint_documented R" and "c_abi frame" and "Opcode m \<in> {vm_ADD, vm_EQ, vm_LT, vm_GT}"
    and "evm_binary (Opcode m) = Some g" and "\<not> IsStackRestore m" and "\<not> DisableHostOptimizedOpcodes (config tr)"
    and "holds (mem mc) (get_reg mc SP) x" and "holds (mem mc) (get_reg mc SP + 32) y"
    and "unat (get_reg mc SP) + 64 \<le> 2 ^ 32"
  shows "\<exists>tr' mc'. AddInstructionWithResult L m st rs tr = Inr tr' \<and>
    run_asm (openvm_env R frame labels link) (openvm_code (drop (length (instructions tr)) (instructions tr'))) mc =
      Some mc' \<and> get_reg mc' SP = get_reg mc SP \<and> holds (mem mc') (get_reg mc SP) x \<and>
    holds (mem mc') (get_reg mc SP + 32) (g x y)"
proof -
  have g: "lib_binary (Opcode m) = Some g" using assms(3,4) by (auto simp: lib_binary_def evm_binary_def)
  from hosted_entry[OF g assms(5-8), of L st rs labels link] obtain tr' where
    t: "AddInstructionWithResult L m st rs tr = Inr tr'" by blast
  from guest_binary[OF assms(1,2,9,7,8,3) g, of L labels link] obtain cs mc' where
    cs: "\<And>rs tr. arith_cases L (Opcode m) rs tr = Some (host tr cs 2)"
    and r: "run_asm (openvm_env R frame labels link) (openvm_code cs) mc = Some mc'" "guest_leaves mc mc' x (g x y)"
    by blast
  have "drop (length (instructions tr)) (instructions tr') = cs @ [EBREAK_instr]"
    using emitted_code[OF cs assms(5,6) domI[of lib_binary, OF g] t] .
  with t r show ?thesis by (auto simp: openvm_code_marked guest_leaves_def)
qed

theorem guest_calls_keep_an_operand_witness:
  "\<exists>tr' mc'. AddInstructionWithResult sample_lib (entry vm_ADD [] []) None None NewTestTranspiler = Inr tr' \<and>
    run_asm (openvm_env sample_ruint id Map.empty 0x400) (openvm_code (instructions tr')) (two_slots 3 5) = Some mc' \<and>
    get_reg mc' SP = 0 \<and> holds (mem mc') 0 3 \<and> holds (mem mc') 32 8"
proof -
  have "evm_binary (Opcode (entry vm_ADD [] [])) = Some (+)" by (simp add: evm_binary_def)
  from guest_calls_keep_an_operand[OF sample_ruint_documented id_abi _ this _ host_enabled _ _ room_two_slots, of 3 5 3 5
      sample_lib None None Map.empty "0x400"] two_slots_hold[of 3 5] NewTestTranspiler_empty
  show ?thesis by auto
qed

text \<open>
  C19. On OpenVM the call of SHR goes to a Rust function that writes at its second pointer, the slot of
  the shift amount: for an amount below 256 the printed code leaves the EVM's result on top of
  the stack and the shifted value below it, where the EVM pops both operands.
\<close>

theorem guest_shift_keeps_the_value:
  assumes "ruint_documented R" and "c_abi frame" and "Opcode m = vm_SHR"
    and "\<not> IsStackRestore m" and "\<not> DisableHostOptimizedOpcodes (config tr)"
    and "holds (mem mc) (get_reg mc SP) s" and "holds (mem mc) (get_reg mc SP + 32) v"
    and "unat (get_reg mc SP) + 64 \<le> 2 ^ 32" and "s < 256"
  shows "\<exists>tr' mc'. AddInstructionWithResult L m st rs tr = Inr tr' \<and>
    run_asm (openvm_env R frame labels link) (openvm_code (drop (length (instructions tr)) (instructions tr'))) mc =
      Some mc' \<and> get_reg mc' SP = get_reg mc SP \<and> holds (mem mc') (get_reg mc SP) (drop_bit (unat s) v) \<and>
    holds (mem mc') (get_reg mc SP + 32) v"
proof -
  have g: "lib_binary (Opcode m) = Some (\<lambda>x y. shr_result y x)" using assms(3) by (simp add: lib_binary_def)
  from hosted_entry[OF g assms(4-7), of L st rs labels link] obtain tr' where
    t: "AddInstructionWithResult L m st rs tr = Inr tr'" by blast
  from guest_shift[OF assms(1,2,8,6,7,9), of labels link] obtain mc' where
    r: "run_asm (openvm_env R frame labels link) (openvm_code shr256Call) mc = Some mc'"
      "guest_leaves mc mc' (drop_bit (unat s) v) v" by blast
  have cs: "arith_cases L (Opcode m) rs tr = Some (host tr shr256Call 2)" for rs tr
    unfolding assms(3) by (rule arith_hosts)
  have "drop (length (instructions tr)) (instructions tr') = shr256Call @ [EBREAK_instr]"
    using emitted_code[OF cs assms(4,5) domI[of lib_binary, OF g] t] .
  with t r show ?thesis by (auto simp: openvm_code_marked guest_leaves_def)
qed

theorem guest_shift_keeps_the_value_witness:
  "\<exists>tr' mc'. AddInstructionWithResult sample_lib (entry vm_SHR [] []) None None NewTestTranspiler = Inr tr' \<and>
    run_asm (openvm_env sample_ruint id Map.empty 0x400) (openvm_code (instructions tr')) (two_slots 1 4) = Some mc' \<and>
    get_reg mc' SP = 0 \<and> holds (mem mc') 0 2 \<and> holds (mem mc') 32 4"
proof -
  have "(1 :: u256) < 256" "drop_bit (unat (1 :: u256)) 4 = (2 :: u256)" by simp_all
  with guest_shift_keeps_the_value[OF sample_ruint_documented id_abi _ _ host_enabled _ _ room_two_slots,
      of "entry vm_SHR [] []" 1 4 1 4 sample_lib None None Map.empty "0x400"] two_slots_hold[of 1 4] NewTestTranspiler_empty
  show ?thesis by (auto simp del: unsigned_1)
qed

section \<open>Literals under hosted opcodes\<close>

lemma push_over_stale:
  assumes "holds (mem m) (get_reg m SP - 32) old" and "holds (mem m) (get_reg m SP) x"
    and "32 \<le> unat (get_reg m SP)" and "unat (get_reg m SP) + 32 \<le> 2 ^ 32"
  shows "\<exists>m'. run_asm env (pushOpcode w) m = Some m' \<and> get_reg m' SP = get_reg m SP - 32 \<and>
    holds (mem m') (get_reg m SP - 32) (set_low old w) \<and> holds (mem m') (get_reg m SP) x"
proof -
  let ?s = "get_reg m SP"
  let ?m = "(set_reg T0 (word_of_int (sint w)) (set_reg SP (?s - 32) m))\<lparr>mem := wr32 (mem m) (?s - 32) w\<rparr>"
  have "run_asm env (pushOpcode w) m = Some ?m"
    by (simp add: run_asm_def decode_push mach_simps)
  moreover have "holds (mem ?m) (?s - 32) (set_low old w)"
    using slot_at_write[of "mem m" "?s - 32" "Full old" w] assms(1) by (simp add: slot_at_def)
  moreover have "rd32 (mem ?m) (?s + word_of_nat (4 * j)) = rd32 (mem m) (?s + word_of_nat (4 * j))" if "j < 8" for j
  proof -
    have "unat (?s + word_of_nat (4 * j)) = unat ?s + 4 * j" using assms(4) that by (intro unat_add_small) simp
    then have "far (?s - 32) (?s + word_of_nat (4 * j))"
      using assms(3,4) that unat_sub32[OF assms(3)] by (intro far_below) simp_all
    then show ?thesis by (simp add: rd32_wr32_far)
  qed
  then have "holds (mem ?m) ?s x" using assms(2) by (simp add: holds_def)
  ultimately show ?thesis by (intro exI[of _ ?m]) (simp add: mach_simps)
qed

text \<open>
  C23. ISZERO compares with a literal whose upper words are stale: with \<open>old\<close> the value last popped
  from the slot below the stack, the code leaves 1 exactly when the argument is \<open>old\<close> with its
  low word cleared. After a wide value was popped, ISZERO of zero gives 0. The comparison is the one
  of lib.asm; the effect does not depend on the width of the registers.
\<close>

theorem hosted_iszero_reads_stale_words:
  assumes "Opcode m = vm_ISZERO" and "\<not> IsStackRestore m" and "\<not> DisableHostOptimizedOpcodes (config tr)"
    and "holds (mem mc) (get_reg mc SP) x" and "holds (mem mc) (get_reg mc SP - 32) old"
    and "32 \<le> unat (get_reg mc SP)" and "unat (get_reg mc SP) + 32 \<le> 2 ^ 32"
  shows "\<exists>tr' mc'. AddInstructionWithResult L m st rs tr = Inr tr' \<and>
    run_asm (lib_env labels link) (drop (length (instructions tr)) (instructions tr')) mc = Some mc' \<and>
    get_reg mc' SP = get_reg mc SP \<and> holds (mem mc') (get_reg mc' SP) (flag (set_low old 0 = x))"
proof -
  from push_over_stale[OF assms(5,4,6,7), of "lib_env labels link" 0] obtain m1 where
    m1: "run_asm (lib_env labels link) (pushOpcode 0) mc = Some m1" "get_reg m1 SP = get_reg mc SP - 32"
      "holds (mem m1) (get_reg m1 SP) (set_low old 0)" "holds (mem m1) (get_reg m1 SP + 32) x"
    by auto
  have "lib_binary vm_EQ = Some (\<lambda>x y. flag (x = y))" by (simp add: lib_binary_def)
  from hosted_runs[OF this m1(3,4), of L labels link] obtain cs m2 where
    cs: "\<And>rs tr. arith_cases L vm_EQ rs tr = Some (host tr cs 2)"
    and m2: "run_asm (lib_env labels link) cs m1 = Some m2" "replaces m1 m2 1 (flag (set_low old 0 = x))" by blast
  have "cs = eq256Call" using wide_code_unique[OF cs arith_hosts(8) assms(3)] .
  let ?tr' = "storeDebugInfo L (length (instructions tr)) (Opcode m)
      (emit [EBREAK_instr] (emit eq256Call (emit (pushOpcode 0) tr)))"
  have "AddInstructionWithResult L m st rs tr = Inr ?tr'"
    using assms(1-3)
    by (simp add: AddInstructionWithResult_def halt_cases_def switch_opcode_def host_def hostOptimizedOpcode_def
        arith_cases_def push_cases_def stack_cases_def env_cases_def Let_def word_le_nat_alt)
  moreover have "drop (length (instructions tr)) (instructions ?tr') = (pushOpcode 0 @ eq256Call) @ [EBREAK_instr]"
    by (simp add: storeDebugInfo_def)
  moreover have "run_asm (lib_env labels link) ((pushOpcode 0 @ eq256Call) @ [EBREAK_instr]) mc = Some m2"
    using m2(1) \<open>cs = eq256Call\<close>
    by (intro run_asm_append[OF run_asm_append[OF m1(1)]]) (simp_all add: run_asm_def EBREAK_instr_def decode_simps)
  ultimately show ?thesis
    using m2(2) m1(2) by (intro exI[of _ ?tr'] exI[of _ m2]) (auto simp: replaces_def)
qed


theorem hosted_iszero_reads_stale_words_witness:
  "\<exists>tr' mc'. AddInstructionWithResult sample_lib (entry vm_ISZERO [] []) None None NewTestTranspiler = Inr tr' \<and>
    run_asm (lib_env Map.empty 0x400) (instructions tr') (image_machine 32 [2 ^ 255, 0]) = Some mc' \<and>
    holds (mem mc') 32 0"
proof -
  let ?m = "image_machine 32 [2 ^ 255, 0]"
  have m: "get_reg ?m SP = 32" "holds (mem ?m) 0 (2 ^ 255)" "holds (mem ?m) 32 0"
    using data_image_holds[of 0 "[2 ^ 255, 0]"] data_image_holds[of 1 "[2 ^ 255, 0]"]
    by (simp_all add: image_machine_def get_reg_def)
  have "word_at 7 (set_low (2 ^ 255) 0) = word_at 7 (2 ^ 255 :: u256)"
    by (simp add: set_low_def word_at_of_words)
  also have "\<dots> = 0x80000000" by (simp add: word_at_def drop_bit_eq_div)
  finally have "set_low (2 ^ 255) 0 \<noteq> 0" by auto
  then have "flag (set_low (2 ^ 255) 0 = 0) = 0" by (simp add: flag_def)
  with hosted_iszero_reads_stale_words[OF _ _ host_enabled, of "entry vm_ISZERO [] []" ?m 0 "2 ^ 255" sample_lib
      None None Map.empty "0x400"] m NewTestTranspiler_empty
  show ?thesis by auto
qed

section \<open>A whole trace at full width\<close>

lemma wide_rel_empty:
  assumes "data_rel env ds lo (mem m)" and "unat (get_reg m SP) = lo + 32 * cap" and "lo + 32 * cap < 2 ^ 32"
  shows "wide_rel env ds lo cap [] m"
  using assms by (simp add: wide_rel_def)

text \<open>
  C2. The text printed for OpenVM, with hosted opcodes enabled, reads back as a program without
  breakpoints that computes what the plan of the trace computes: it runs to its end, and every slot
  of the final stack holds the full value, or after a literal or a DUP the low word, that the plan
  gives for it. The plan exists for traces of literal and full-width pushes, DUP, SWAP, POP, replayed
  results, and the opcodes whose routine stays lib.asm's on OpenVM (\<open>own_opcodes\<close>), with the results of
  lib.asm: SUB, AND, OR, XOR and SLT, and MUL, DIV and SHL as those routines compute them. Outside
  it are calls, RETURN, REVERT, INVALID and MCOPY; ISZERO; the redirected ADD, EQ, LT, GT, SHR and NOT;
  and MUL, DIV, SLT and SHL on a slot known in its low word only.
\<close>

theorem hosted_program_computes:
  assumes "ProcessExecution L ins st (NewTranspilerWithConfig cfg) = Inr (tr', sn)"
    and "hex_injective L" and "\<not> DisableHostOptimizedOpcodes cfg" and "go_sized st"
    and "wide_trace_plan L ins st [0..<length ins] fresh = Some p" and "list_all own_op p"
    and "wide_steps cap p [] = Some ss"
    and "wide_rel (openvm_env R frame labels link) (dataSection tr') lo cap [] m"
  shows "\<exists>s is m'. toZkFile (ToAssembly tr') = Inr s \<and> read_code s = Some is \<and>
    list_all (\<lambda>i. Name i \<noteq> InstructionEBREAK) is \<and>
    run_asm (openvm_env R frame labels link) is m = Some m' \<and>
    wide_rel (openvm_env R frame labels link) (dataSection tr') lo cap ss m'"
proof -
  note rel = wide_rel_env[OF openvm_labels, of R frame labels link]
  have inv: "tr_inv L (NewTranspilerWithConfig cfg)" by (rule tr_inv_new[OF assms(2)])
  then have ok: "pool_ok L (dataSection (NewTranspilerWithConfig cfg))" by (simp add: tr_inv_def)
  have "wide_emits L (NewTranspilerWithConfig cfg) tr' p"
  proof (rule wide_process_emits[OF assms(1) inv _ assms(4)])
    show "\<not> DisableHostOptimizedOpcodes (config (NewTranspilerWithConfig cfg))"
      using assms(3) by (simp add: NewTranspilerWithConfig_def)
  qed (simp add: replay_of_new assms(5))
  note emits = this
  from wide_emitted_runs[OF this ok assms(7) assms(8)[unfolded rel]] obtain m' where
    m': "run_asm (lib_env labels link) (Instructions (ToAssembly tr')) m = Some m'"
      "wide_rel (lib_env labels link) (dataSection tr') lo cap ss m'"
    by (auto simp: NewTranspilerWithConfig_def ToAssembly_def)
  from emits ok obtain iss where "instructions tr' = concat iss" "list_all2 (wide_lowers L (dataSection tr')) p iss"
    by (auto simp: wide_emits_def NewTranspilerWithConfig_def)
  with own_program assms(6) have own: "own_calls (Instructions (ToAssembly tr'))"
    by (simp add: ToAssembly_def)
  have "list_all (mcopy_fits (config (NewTranspilerWithConfig cfg))) ins"
    using planned_copies[OF assms(5)] by (fastforce simp: list_all_length)
  from ProcessExecution_inv[OF assms(1) inv this]
  have "code_ok (dataSection tr') (Instructions (ToAssembly tr'))" by (simp add: tr_inv_def ToAssembly_def)
  from zk_text_reads[OF code_ok_clean[OF this] code_ok_operands[OF this]]
    openvm_run[OF own m'(1)] m'(2)[folded rel] openvm_code_unmarked
  show ?thesis by blast
qed

text \<open>A difference of two wide values, then the bits in which two literals differ.\<close>

definition wide_trace :: "evm_instruction_metadata list" where
  "wide_trace =
     [entry vm_PUSH5 [1, 0, 0, 0, 0] [], entry vm_PUSH5 [2, 0, 0, 0, 0] [2 ^ 32], entry vm_SUB [] [2 ^ 32, 2 ^ 33],
      entry vm_PUSH1 [3] [2 ^ 32], entry vm_PUSH1 [5] [2 ^ 32, 3], entry vm_XOR [] [2 ^ 32, 3, 5],
      entry vm_STOP [] [2 ^ 32, 6]]"

lemma wide_positions: "[0..<length wide_trace] = [0, 1, 2, 3, 4, 5, 6]"
  by (simp add: wide_trace_def upt_rec)

lemma wide_runs: "\<exists>tr' sn. ProcessExecution sample_lib wide_trace (Some demo_state) tr = Inr (tr', sn)"
proof (rule ProcessExecution_total[OF _ demo_complete])
  show "trace_supplied wide_trace"
    unfolding trace_supplied_def wide_positions
    by (simp add: wide_trace_def supplied_def implemented_def args_needed_def snapshot_needed_def
        arities other_opcodes_def result_for_def word_le_nat_alt)
qed

lemma SetBytes_sample: "SetBytes sample_lib bs = word_of_nat (be_nat bs)"
  by (simp add: sample_lib_def)

lemma entry_data:
  assumes "trace_step sample_lib ins st i tr = Inr t" and "\<not> IsStackRestore (ins ! i)"
  shows "Opcode (ins ! i) = vm_PUSH5 \<Longrightarrow>
      dataSection t = snd (Add sample_lib (word_of_nat (be_nat (Arguments (ins ! i)))) (dataSection tr))"
    "Opcode (ins ! i) \<in> {vm_SUB, vm_XOR, vm_PUSH1, vm_STOP} \<Longrightarrow> dataSection t = dataSection tr"
proof -
  from assms obtain rs where add: "AddInstructionWithResult sample_lib (ins ! i) st rs tr = Inr t"
    by (auto simp: trace_step_def go_index_eq_Inr)
  note defs = AddInstructionWithResult_def halt_cases_def switch_opcode_def arith_cases_def push_cases_def
    push_literal_def host_def load_value_def storeDebugInfo_def
  show "Opcode (ins ! i) = vm_PUSH5 \<Longrightarrow>
      dataSection t = snd (Add sample_lib (word_of_nat (be_nat (Arguments (ins ! i)))) (dataSection tr))"
    using add assms(2) by (auto simp: defs SetBytes_sample Let_def word_le_nat_alt split_beta split: if_splits)
  show "Opcode (ins ! i) \<in> {vm_SUB, vm_XOR, vm_PUSH1, vm_STOP} \<Longrightarrow> dataSection t = dataSection tr"
    using add assms(2) by (auto simp: defs Let_def word_le_nat_alt split: if_splits)
qed

lemma wide_data:
  assumes "ProcessExecution sample_lib wide_trace (Some demo_state) NewTestTranspiler = Inr (tr', sn)"
  shows "ds_values (dataSection tr') = [2 ^ 32, 2 ^ 33]"
proof -
  let ?step = "trace_step sample_lib wide_trace (Some demo_state)"
  from ProcessExecution_Inr[OF assms] obtain t1 t2 t3 t4 t5 t6 where
    t: "?step 0 NewTestTranspiler = Inr t1" "?step 1 t1 = Inr t2" "?step 2 t2 = Inr t3" "?step 3 t3 = Inr t4"
      "?step 4 t4 = Inr t5" "?step 5 t5 = Inr t6" "?step 6 t6 = Inr tr'"
    unfolding wide_positions by auto
  have "dataSection tr' = dataSection t6" "dataSection t6 = dataSection t5" "dataSection t5 = dataSection t4"
    "dataSection t4 = dataSection t3" "dataSection t3 = dataSection t2"
    by (rule entry_data(2)[OF t(7)] entry_data(2)[OF t(6)] entry_data(2)[OF t(5)] entry_data(2)[OF t(4)]
        entry_data(2)[OF t(3)]; simp add: wide_trace_def)+
  moreover have "dataSection t2 = snd (Add sample_lib (2 ^ 33) (dataSection t1))"
    using entry_data(1)[OF t(2)] by (simp add: wide_trace_def)
  moreover have "dataSection t1 = snd (Add sample_lib (2 ^ 32) NewDataSection)"
    using entry_data(1)[OF t(1)] by (simp add: wide_trace_def NewTestTranspiler_def NewTranspilerWithConfig_def)
  ultimately show ?thesis
    by (simp add: Add_def NewDataSection_def Let_def hex_eq[OF sample_lib_hex])
qed

abbreviation wide_program :: "wide_op list" where
  "wide_program \<equiv> [Stack (PushValue (2 ^ 32)), Stack Mark, Stack (PushValue (2 ^ 33)), Stack Mark, Compute vm_SUB,
     Stack Mark, Stack (PushWord 3), Stack Mark, Stack (PushWord 5), Stack Mark, Compute vm_XOR, Stack Mark]"

lemma wide_trace_planned:
  "wide_trace_plan sample_lib wide_trace (Some demo_state) [0..<length wide_trace] fresh = Some wide_program"
  unfolding wide_positions
  by (simp add: wide_trace_def wide_plan_def body_plan_def arities result_for_def word_le_nat_alt call_opcodes_def
      SetBytes_sample Let_def)

lemma wide_trace_steps:
  "wide_steps 1024 wide_program [] = Some [Low 6, Full (2 ^ 32)]"
  by (simp add: compute_slots_def lib_binary_def wordwise_def word_at_def)

lemma wide_program_own: "list_all own_op wide_program"
  by (simp add: own_opcodes_def)

theorem hosted_program_computes_witness:
  "\<exists>tr' sn s is m' a. ProcessExecution sample_lib wide_trace (Some demo_state) NewTestTranspiler = Inr (tr', sn) \<and>
    toZkFile (ToAssembly tr') = Inr s \<and> read_code s = Some is \<and>
    run_asm (openvm_env sample_ruint id (label_addr (image_env 2)) 0x400) is
      (image_machine (0x1000 + 32 * 1024) [2 ^ 32, 2 ^ 33]) = Some m' \<and> holds (mem m') a (2 ^ 32)"
proof -
  obtain tr' sn where run: "ProcessExecution sample_lib wide_trace (Some demo_state) NewTestTranspiler = Inr (tr', sn)"
    using wide_runs by blast
  note vals = wide_data[OF run]
  let ?env = "openvm_env sample_ruint id (label_addr (image_env 2)) 0x400"
  let ?m = "image_machine (0x1000 + 32 * 1024) [2 ^ 32, 2 ^ 33]"
  have len: "length [2 ^ 32, 2 ^ 33 :: u256] = 2" by simp
  have "data_rel (image_env 2) (dataSection tr') 0x1000 (data_image [2 ^ 32, 2 ^ 33])"
    using image_data_rel[of "dataSection tr'" "0x1000"] unfolding vals len by simp
  then have rel: "wide_rel ?env (dataSection tr') 0x1000 1024 [] ?m"
    by (intro wide_rel_empty) (simp_all add: data_rel_def openvm_env_def image_machine_def get_reg_def)
  have new: "NewTestTranspiler = NewTranspilerWithConfig (config NewTestTranspiler)"
    by (simp add: NewTestTranspiler_def NewTranspilerWithConfig_def)
  have run': "ProcessExecution sample_lib wide_trace (Some demo_state)
      (NewTranspilerWithConfig (config NewTestTranspiler)) = Inr (tr', sn)"
    using run new by simp
  have "go_sized (Some demo_state)" by (simp add: go_sized_def demo_state_def)
  from hosted_program_computes[OF run' sample_lib_hex host_enabled this
      wide_trace_planned wide_program_own wide_trace_steps rel] obtain s "is" m' where
    m': "toZkFile (ToAssembly tr') = Inr s" "read_code s = Some is" "run_asm ?env is ?m = Some m'"
      "wide_rel ?env (dataSection tr') 0x1000 1024 [Low 6, Full (2 ^ 32)] m'" by blast
  from wide_relD(5)[OF m'(4), of 1] have "holds (mem m') (get_reg m' SP + 32) (2 ^ 32)" by (simp add: slot_at_def)
  with run m'(1-3) show ?thesis by blast
qed

end
