(* ===== verification/StoreProps.thy ===== *)
theory StoreProps
  imports TranspilerProps
begin

text \<open>
  Properties of the state the transpiler carries from opcode to opcode: the data section, the
  storage map and the transaction boundary, and of the records the tracer hands over.
\<close>

section \<open>Data section\<close>

text \<open>
  Adding a value to the data section gives a label that denotes it, keeps the meaning of
  every label handed out before, keeps the section free of duplicates, and adding the same value
  again changes nothing.
\<close>

theorem add_denotes:
  assumes "hex_injective L" and "ds_inv L ds" and "Add L v ds = (l, ds')"
  shows "resolve ds' l = Some v \<and> (\<forall>n w. resolve ds n = Some w \<longrightarrow> resolve ds' n = Some w) \<and>
    ds_inv L ds' \<and> Add L v ds' = (l, ds')"
proof -
  have ok: "pool_ok L ds" using assms(1,2) by (simp add: pool_ok_def)
  have out: "fst (Add L v ds) = l" "snd (Add L v ds) = ds'" using assms(3) by simp_all
  from pool.denote_add[OF ok, of v] pool.denote_keep[OF ok, of _ _ v] pool.ok_add[OF ok, of v]
    pool.add_twice[OF ok, of v] out assms(3)
  show ?thesis by (auto simp: pool_ok_def)
qed

theorem add_denotes_witness:
  "\<exists>l ds'. Add sample_lib 7 NewDataSection = (l, ds') \<and> resolve ds' l = Some 7 \<and>
    Add sample_lib 7 ds' = (l, ds')"
  using add_denotes[OF sample_lib_hex ds_inv_new] by (metis surj_pair)

text \<open>Adding a list of values, one after the other.\<close>

definition add_all :: "third_party \<Rightarrow> u256 list \<Rightarrow> data_section \<Rightarrow> data_section" where
  "add_all L vs ds = fold (\<lambda>v ds. snd (Add L v ds)) vs ds"

lemma add_all_adds: "add_all L vs ds = snd (pool.adds L vs ds)"
  by (induction vs arbitrary: ds) (simp_all add: add_all_def pool.adds_Cons del: pool.adds.simps(2))

lemma set_Add:
  assumes "hex_injective L" and inv: "ds_inv L ds"
  shows "set (ds_values (snd (Add L v ds))) = insert v (set (ds_values ds))"
proof (cases "valueToVar ds (Hex L v)")
  case None
  then show ?thesis by (simp add: Add_new)
next
  case (Some n)
  then obtain i where "i < length (ds_values ds)" "Hex L v = Hex L (ds_values ds ! i)"
    using ds_invD[OF inv] by blast
  then have "v \<in> set (ds_values ds)" using assms(1) by (auto simp: hex_eq)
  with Some show ?thesis by (auto simp: Add_known)
qed

lemma set_add_all:
  "hex_injective L \<Longrightarrow> ds_inv L ds \<Longrightarrow>
   set (ds_values (add_all L vs ds)) = set (ds_values ds) \<union> set vs"
  by (induction vs arbitrary: ds) (simp_all add: add_all_def set_Add ds_inv_Add)

text \<open>
  Whatever values are added to a fresh data section, in whatever order and however often, it
  lists exactly those values, each once and under a name of its own.
\<close>

theorem data_section_is_a_set:
  assumes "hex_injective L"
  shows "distinct (map fst (Iter (add_all L vs NewDataSection))) \<and>
    distinct (map snd (Iter (add_all L vs NewDataSection))) \<and>
    set (map snd (Iter (add_all L vs NewDataSection))) = set vs"
proof -
  have "pool_ok L NewDataSection" using assms by (simp add: pool_ok_def ds_inv_new)
  from pool.ok_adds[OF this, of vs] have "ds_inv L (add_all L vs NewDataSection)"
    by (simp add: add_all_adds pool_ok_def)
  moreover have "set (ds_values (add_all L vs NewDataSection)) = set vs"
    using set_add_all[OF assms ds_inv_new, of vs] by (simp add: NewDataSection_def)
  moreover from calculation(1) have "distinct (ds_values (add_all L vs NewDataSection))"
    by (simp add: ds_inv_def distinct_map)
  ultimately show ?thesis
    unfolding map_snd_Iter using distinct_Iter by blast
qed

theorem data_section_is_a_set_witness:
  "set (map snd (Iter (add_all sample_lib [3, 5, 3] NewDataSection))) = {3, 5}"
  using data_section_is_a_set[OF sample_lib_hex, of "[3, 5, 3]"] by auto

section \<open>Where operands are read\<close>

text \<open>
  C20. The operands of SLOAD, TLOAD, SSTORE, TSTORE, CALLDATALOAD and MCOPY are read from the bottom
  of the recorded stack: slots above the first \<open>snapshot_needed\<close> ones, where the EVM finds the
  operands when the stack is deeper, change neither the code nor the state of the transpiler, for
  these opcodes and for every other one.
\<close>

theorem operands_come_from_the_bottom:
  assumes "snapshot_needed (Opcode m) \<le> length slots"
  shows "AddInstructionWithResult L (m\<lparr>StackSnapshot := slots @ upper\<rparr>) st rs tr =
    AddInstructionWithResult L (m\<lparr>StackSnapshot := slots\<rparr>) st rs tr"
proof -
  have at: "go_index (slots @ upper) i = go_index slots i" if "i < snapshot_needed (Opcode m)" for i
    using that assms by (simp add: go_index_def nth_append)
  have "data_cases L (Opcode m) (slots @ upper) st rs tr = data_cases L (Opcode m) slots st rs tr"
    using at by (simp add: data_cases_def CALLDATALOAD_case_def store_case_def load_case_def snapshot_needed_def)
  moreover have "call_cases L (Opcode m) (slots @ upper) st rs tr = call_cases L (Opcode m) slots st rs tr"
    using at[of 0] at[of 1] at[of 2]
    by (cases "Opcode m = vm_MCOPY") (simp_all add: call_cases_def MCOPY_case_def snapshot_needed_def cong: if_cong)
  moreover have "stack_restore (m\<lparr>StackSnapshot := slots @ upper\<rparr>) tr = stack_restore (m\<lparr>StackSnapshot := slots\<rparr>) tr"
    by (simp add: stack_restore_def)
  ultimately show ?thesis
    by (simp add: AddInstructionWithResult_def switch_opcode_def cong: option.case_cong)
qed

theorem operands_come_from_the_bottom_witness:
  "AddInstructionWithResult sample_lib (entry vm_SLOAD [] [1, 2]) None None NewTranspiler =
   AddInstructionWithResult sample_lib (entry vm_SLOAD [] [1]) None None NewTranspiler"
  using operands_come_from_the_bottom[of "entry vm_SLOAD [] []" "[1]" sample_lib "[2]" None None NewTranspiler]
  by (simp add: snapshot_needed_def)

section \<open>Storage\<close>

lemma Opcode_entry: "\<not> IsStackRestore (entry op args stack)" "Opcode (entry op args stack) = op"
  by simp_all

lemma store_step:
  assumes "tr_inv L tr" and "store_case L [v, k] tr = Inr tr'"
  shows "tr_inv L tr' \<and> r_store (replay_of tr') =
    (if r_store (replay_of tr) (Hex L k) = None then (r_store (replay_of tr))(Hex L k \<mapsto> v)
     else r_store (replay_of tr))"
proof -
  have "step_ok L tr (store_case L [v, k] tr)" by simp
  with assms have "tr_inv L tr'" by (simp add: steps_to_def)
  moreover have "refines_step L (entry vm_SSTORE [] [v, k]) tr tr' (replicate 2 Pop)"
    using assms by (intro refines_store) simp_all
  ultimately show ?thesis
    by (simp add: refines_step_def next_state_def next_store_def)
qed

lemma load_step:
  assumes "tr_inv L tr" and "load_case L [k] tr = Inr tr'"
  shows "\<exists>l. instructions tr' = instructions tr @ popStack @ loadFromDataSection l \<and>
    resolve (dataSection tr') l = Some (stored (replay_of tr) (Hex L k))"
proof -
  have "refines_step L (entry vm_SLOAD [] [k]) tr tr' [Pop, PushValue (stored (replay_of tr) (Hex L k))]"
    using refines_load[of L tr "entry vm_SLOAD [] [k]" tr'] assms by simp
  moreover have "pool_ok L (dataSection tr)" using assms(1) by (simp add: tr_inv_def)
  ultimately obtain iss where "instructions tr' = instructions tr @ concat iss"
    "list_all2 (lowers (dataSection tr')) [Pop, PushValue (stored (replay_of tr) (Hex L k))] iss"
    by (auto simp: refines_step_def emits_code_def emits_def)
  then show ?thesis
    by (auto simp: list_all2_Cons1)
qed

text \<open>
  C21. The storage map records only the first value of a key: after two stores to a key no
  opcode had touched, a load of that key pushes the value of the first store.
\<close>

theorem first_store_wins:
  assumes "tr_inv L tr" and "keyToVar (storageSection tr) (Hex L k) = None"
    and "store_case L [v1, k] tr = Inr tr1" and "store_case L [v2, k] tr1 = Inr tr2"
    and "load_case L [k] tr2 = Inr tr3"
  shows "\<exists>l. instructions tr3 = instructions tr2 @ popStack @ loadFromDataSection l \<and>
    resolve (dataSection tr3) l = Some v1"
proof -
  have "r_store (replay_of tr) (Hex L k) = None" using assms(2) by (simp add: replay_of_def)
  with store_step[OF assms(1,3)] have 1: "tr_inv L tr1" "r_store (replay_of tr1) (Hex L k) = Some v1"
    by simp_all
  from store_step[OF 1(1) assms(4)] 1(2) have "tr_inv L tr2" "r_store (replay_of tr2) (Hex L k) = Some v1"
    by simp_all
  with load_step[OF _ assms(5)] show ?thesis by (simp add: stored_def)
qed

lemma stores_run:
  "\<exists>tr1 tr2 tr3. store_case L [v1, k] tr = Inr tr1 \<and> store_case L [v2, k] tr1 = Inr tr2 \<and>
    load_case L [k] tr2 = Inr tr3"
proof -
  have "succeeds (store_case L [v, k] t)" "succeeds (load_case L [k] t)" for v t
    by (simp_all add: succeeds_storage)
  then show ?thesis by (metis succeeds_def)
qed

theorem first_store_wins_witness:
  "\<exists>tr1 tr2 tr3 l. store_case sample_lib [1, 9] NewTranspiler = Inr tr1 \<and>
    store_case sample_lib [2, 9] tr1 = Inr tr2 \<and> load_case sample_lib [9] tr2 = Inr tr3 \<and>
    instructions tr3 = instructions tr2 @ popStack @ loadFromDataSection l \<and>
    resolve (dataSection tr3) l = Some 1"
proof -
  have "tr_inv sample_lib NewTranspiler" "keyToVar (storageSection NewTranspiler) (Hex sample_lib 9) = None"
    using tr_inv_new[OF sample_lib_hex]
    by (simp_all add: NewTranspiler_def) (simp add: NewTranspilerWithConfig_def NewStorageSection_def)
  with stores_run[of sample_lib 1 9 NewTranspiler 2] first_store_wins show ?thesis by blast
qed

section \<open>Transaction boundary\<close>

text \<open>
  The boundary between transactions keeps the code and the data section and the invariant,
  appends the reset of the stack, and forgets depth, debug mappings and storage: the first load
  of any key after it pushes zero.
\<close>

theorem boundary_resets:
  assumes "tr_inv L tr" and "load_case L [k] (AddTransactionBoundary tr) = Inr tr'"
  shows "tr_inv L (AddTransactionBoundary tr) \<and> currentDepth (AddTransactionBoundary tr) = 0 \<and>
    debugMappings (AddTransactionBoundary tr) = [] \<and>
    dataSection (AddTransactionBoundary tr) = dataSection tr \<and>
    decode_all (drop (length (instructions tr)) (instructions (AddTransactionBoundary tr))) =
      Some [I_mv SP S2, I_mv S3 S2, I_ebreak] \<and>
    (\<exists>l. instructions tr' = instructions (AddTransactionBoundary tr) @ popStack @ loadFromDataSection l \<and>
      resolve (dataSection tr') l = Some 0)"
proof -
  have "code_ok ds [instr ''mv'' [''sp'', ''s2''], instr ''mv'' [''s3'', ''s2''], EBREAK_instr]" for ds
    by (simp add: code_ok_def decode_simps EBREAK_instr_def)
  then have inv: "tr_inv L (AddTransactionBoundary tr)"
    using assms(1) by (simp add: AddTransactionBoundary_def resetStateForNextTransaction_def tr_inv_def
        NewStorageSection_def)
  have "r_store (replay_of (AddTransactionBoundary tr)) (Hex L k) = None"
    by (simp add: AddTransactionBoundary_def resetStateForNextTransaction_def NewStorageSection_def replay_of_def)
  with load_step[OF inv assms(2)] inv show ?thesis
    by (simp add: stored_def)
      (simp add: AddTransactionBoundary_def resetStateForNextTransaction_def EBREAK_instr_def decode_simps)
qed

theorem boundary_resets_witness:
  "\<exists>tr'. load_case sample_lib [9] (AddTransactionBoundary NewTranspiler) = Inr tr' \<and>
    tr_inv sample_lib (AddTransactionBoundary NewTranspiler) \<and>
    (\<exists>l. resolve (dataSection tr') l = Some 0)"
proof -
  have "tr_inv sample_lib NewTranspiler"
    using tr_inv_new[OF sample_lib_hex] by (simp add: NewTranspiler_def)
  moreover have "succeeds (load_case sample_lib [9] (AddTransactionBoundary NewTranspiler))"
    by (simp add: succeeds_storage)
  ultimately show ?thesis using boundary_resets unfolding succeeds_def by blast
qed

section \<open>From the tracer to the transpiler\<close>

lemma recorded_entries:
  assumes "m \<in> set (evmInstructions (trace_run L t es))" and "m \<notin> set (evmInstructions t)"
  obtains e where "e \<in> set es" "m \<in> set (recorded L e)"
  using assms by (auto simp: trace_records)

text \<open>
  Every push the tracer records carries as many immediate bytes as the transpiler reads: no
  entry of a trace makes the decoding of a literal run past its arguments.
\<close>

theorem traced_pushes_are_complete:
  assumes "push_test_documented L" and "m \<in> set (evmInstructions (trace_run L NewStateTracer es))"
  shows "args_needed (Opcode m) \<le> length (Arguments m)"
proof -
  have "m \<notin> set (evmInstructions NewStateTracer)" by (simp add: NewStateTracer_def)
  from recorded_entries[OF assms(2) this] obtain e where e: "m \<in> set (recorded L e)" .
  show ?thesis
  proof (cases e)
    case (OnOpcode pc op gas scope)
    with e have m: "Opcode m = op" "Arguments m = push_arguments L pc op (scopeCode scope)" by simp_all
    show ?thesis
      using push_arguments_length[OF assms(1), of pc op "scopeCode scope"]
      by (auto simp: args_needed_def m word_le_nat_alt)
  next
    case (OnExit depth err reverted)
    with e show ?thesis by (auto simp: args_needed_def word_le_nat_alt split: if_splits)
  qed (use e in auto)
qed

definition demo_scope :: "bytes \<Rightarrow> op_context" where
  "demo_scope code =
     \<lparr> scopeStackData = [], scopeCode = code, scopeCallValue = Some 0, scopeCallInput = [],
       scopeAddress = zero_address, scopeCaller = zero_address \<rparr>"

theorem traced_pushes_are_complete_witness:
  "\<exists>m \<in> set (evmInstructions (trace_run sample_lib NewStateTracer [OnOpcode 0 vm_PUSH2 10 (demo_scope [0x61, 1])])).
     args_needed (Opcode m) = 2 \<and> 2 \<le> length (Arguments m)"
proof -
  let ?es = "[OnOpcode 0 vm_PUSH2 10 (demo_scope [0x61, 1])]"
  have "\<exists>m \<in> set (evmInstructions (trace_run sample_lib NewStateTracer ?es)). Opcode m = vm_PUSH2"
    by (simp add: CaptureState_def NewStateTracer_def)
  then obtain m where m: "m \<in> set (evmInstructions (trace_run sample_lib NewStateTracer ?es))"
    "Opcode m = vm_PUSH2" by blast
  have "args_needed vm_PUSH2 = 2" by (simp add: args_needed_def word_le_nat_alt)
  with traced_pushes_are_complete[OF sample_lib_push m(1)] m(2)
  have "args_needed (Opcode m) = 2 \<and> 2 \<le> length (Arguments m)" by simp
  with m(1) show ?thesis by blast
qed

text \<open>
  C22. The execution state the tracer hands over is that of the last traced opcode: whatever frames
  ran before, the call data, addresses, value and remaining gas every opcode of the trace is
  transpiled with are the ones of the frame and moment of the last one.
\<close>

theorem state_is_of_the_last_opcode:
  assumes "list_all (\<lambda>e. \<not> sets_state e) es'"
  shows "\<exists>s. executionState (trace_run L t (es @ OnOpcode pc op gas scope # es')) = Some s \<and>
    Gas s = Some (NewInt gas) \<and> CallData s = scopeCallInput scope \<and> CodeData s = scopeCode scope \<and>
    Address s = scopeAddress scope \<and> Caller s = scopeCaller scope \<and> CallValue s = scopeCallValue scope"
proof -
  let ?t = "trace_run L t es"
  have "executionState (trace_run L t (es @ OnOpcode pc op gas scope # es')) =
      executionState (hook_step L ?t (OnOpcode pc op gas scope))"
    using executionState_tail[OF assms, of L "hook_step L ?t (OnOpcode pc op gas scope)"] by simp
  then show ?thesis by (simp add: CaptureState_def)
qed

theorem state_is_of_the_last_opcode_witness:
  "\<exists>s. executionState (trace_run sample_lib NewStateTracer
      [OnOpcode 0 vm_GAS 100 (demo_scope [1]), OnOpcode 1 vm_STOP 40 (demo_scope [1]), OnTxEnd]) = Some s \<and>
    Gas s = Some (NewInt 40)"
  using state_is_of_the_last_opcode[of "[OnTxEnd]" sample_lib NewStateTracer
    "[OnOpcode 0 vm_GAS 100 (demo_scope [1])]" 1 vm_STOP 40 "demo_scope [1]"] by auto

end
