(* ===== verification/Block.thy ===== *)
theory Block
  imports Tracer Transpiler
begin

text \<open>
  Proving a whole block, \<open>cmd/block-prove/main.go\<close>: the list of tracing jobs, the goroutines that
  trace them under a semaphore (lines 219-259, \<open>traceTransaction\<close> lines 143-178) and the
  transpilation of their results into one program (lines 264-292). The goroutines are a step
  relation: \<open>fire\<close> is the next step of one of them, \<open>moves\<close> lets any of them go. Erigon is a
  parameter: what tracing a transaction calls, how a hash prints, and which of the registered
  tracer lookups answers.
\<close>

section \<open>Erigon\<close>

type_synonym hash = bytes

record erigon =
  HashString :: "hash \<Rightarrow> string"
  EvmCalls :: "hash \<Rightarrow> string + hook_call list"
  PickLookup :: "nat list \<Rightarrow> nat"

text \<open>
  Documented behaviour of \<open>tracers.RegisterLookup\<close> without the wildcard: the lookup is placed
  first, and the first lookup that gives no error makes the tracer. No lookup of the program
  gives an error (\<open>NewTracerHooks\<close> always returns a tracer).
\<close>

definition newest_first :: "erigon \<Rightarrow> bool" where
  "newest_first E \<longleftrightarrow> (\<forall>xs i. PickLookup E (xs @ [i]) = i)"

section \<open>Jobs and results\<close>

record trace_job =
  jIndex :: nat
  jTxIndex :: nat
  jTxHash :: hash

record trace_result =
  rIndex :: nat
  rTxIndex :: nat
  rTxHash :: hash
  rInstructions :: "evm_instruction_metadata list"
  rState :: "evm_execution_state option"
  rError :: "string option"

text \<open>
  The jobs of a block. A transaction that is not an \<open>RPCTransaction\<close> is \<open>None\<close>; \<open>maxTxs\<close> limits
  the position in the block when it is positive.
\<close>

fun make_jobs :: "int \<Rightarrow> nat \<Rightarrow> hash option list \<Rightarrow> trace_job list \<Rightarrow> trace_job list" where
  "make_jobs maxTxs i [] jobs = jobs"
| "make_jobs maxTxs i (tx # txs) jobs =
     (if maxTxs > 0 \<and> int i \<ge> maxTxs then jobs
      else (case tx of
          None \<Rightarrow> make_jobs maxTxs (i + 1) txs jobs
        | Some h \<Rightarrow> make_jobs maxTxs (i + 1) txs
            (jobs @ [\<lparr>jIndex = length jobs, jTxIndex = i, jTxHash = h\<rparr>])))"

definition zero_result :: trace_result where
  "zero_result = \<lparr>rIndex = 0, rTxIndex = 0, rTxHash = replicate 32 0, rInstructions = [],
     rState = None, rError = None\<rparr>"

section \<open>The tracing goroutines\<close>

text \<open>
  Where a goroutine stands: waiting for the semaphore, holding it, its lookup registered, its
  tracer made by the lookup of goroutine \<open>o\<close>, \<open>TraceTransaction\<close> returned, its result written,
  the semaphore released.
\<close>

datatype phase = Queued | Acquired | Registered | Resolved nat | Returned "string option" | Written | Finished

record sys =
  phases :: "phase list"
  registry :: "nat list"
  tracerResults :: "state_tracer option list"
  results :: "trace_result list"

definition start_sys :: "trace_job list \<Rightarrow> sys" where
  "start_sys jobs =
     \<lparr> phases = replicate (length jobs) Queued, registry = [],
       tracerResults = replicate (length jobs) None, results = replicate (length jobs) zero_result \<rparr>"

definition holding :: "phase \<Rightarrow> bool" where
  "holding p \<longleftrightarrow> p \<noteq> Queued \<and> p \<noteq> Finished"

definition in_use :: "sys \<Rightarrow> nat" where
  "in_use s = length (filter holding (phases s))"

definition maxConcurrent :: nat where
  "maxConcurrent = 5"

text \<open>
  What \<open>traceTransaction\<close> returns once \<open>TraceTransaction\<close> has: its error, the error of a tracer
  that was never handed over, or the instructions and the state of the tracer.
\<close>

definition trace_outcome :: "string option \<Rightarrow> state_tracer option
    \<Rightarrow> evm_instruction_metadata list \<times> evm_execution_state option \<times> string option" where
  "trace_outcome err t =
     (case err of
        Some e \<Rightarrow> ([], None, Some e)
      | None \<Rightarrow>
          (case t of
             None \<Rightarrow> ([], None, Some ''no tracer result received'')
           | Some t \<Rightarrow> (evmInstructions t, executionState t, None)))"

definition written_result :: "trace_job \<Rightarrow> string option \<Rightarrow> state_tracer option \<Rightarrow> trace_result" where
  "written_result j err t =
     (let (ins, st, e) = trace_outcome err t in
      \<lparr>rIndex = jIndex j, rTxIndex = jTxIndex j, rTxHash = jTxHash j, rInstructions = ins,
       rState = st, rError = e\<rparr>)"

text \<open>
  The steps of \<open>traceTransaction\<close> up to the return of \<open>TraceTransaction\<close>: register the lookup, be
  looked up, run. The lookup of goroutine \<open>k\<close> hands the finished tracer to the variable of \<open>k\<close>.
\<close>

definition traceTransaction :: "third_party \<Rightarrow> erigon \<Rightarrow> hash \<Rightarrow> nat \<Rightarrow> sys \<Rightarrow> sys option" where
  "traceTransaction L E txHash i s =
     (case phases s ! i of
        Acquired \<Rightarrow> Some (s\<lparr>registry := registry s @ [i], phases := (phases s)[i := Registered]\<rparr>)
      | Registered \<Rightarrow> Some (s\<lparr>phases := (phases s)[i := Resolved (PickLookup E (registry s))]\<rparr>)
      | Resolved k \<Rightarrow>
          (case EvmCalls E txHash of
             Inl e \<Rightarrow> Some (s\<lparr>phases := (phases s)[i := Returned (Some e)]\<rparr>)
           | Inr calls \<Rightarrow>
               Some (s\<lparr>tracerResults := (tracerResults s)[k := Some (trace_run L NewStateTracer calls)],
                       phases := (phases s)[i := Returned None]\<rparr>))
      | _ \<Rightarrow> None)"

text \<open>The next step of goroutine \<open>i\<close>, if it can take one.\<close>

definition fire :: "third_party \<Rightarrow> erigon \<Rightarrow> nat \<Rightarrow> trace_job list \<Rightarrow> nat \<Rightarrow> sys \<Rightarrow> sys option" where
  "fire L E permits jobs i s =
     (case phases s ! i of
        Queued \<Rightarrow>
          if in_use s < permits then Some (s\<lparr>phases := (phases s)[i := Acquired]\<rparr>) else None
      | Returned err \<Rightarrow>
          Some (s\<lparr>results := (results s)[jIndex (jobs ! i) :=
                    written_result (jobs ! i) err (tracerResults s ! i)],
                  phases := (phases s)[i := Written]\<rparr>)
      | Written \<Rightarrow> Some (s\<lparr>phases := (phases s)[i := Finished]\<rparr>)
      | Finished \<Rightarrow> None
      | _ \<Rightarrow> traceTransaction L E (jTxHash (jobs ! i)) i s)"

lemmas fire_defs = fire_def traceTransaction_def

inductive moves :: "third_party \<Rightarrow> erigon \<Rightarrow> nat \<Rightarrow> trace_job list \<Rightarrow> sys \<Rightarrow> sys \<Rightarrow> bool"
  for L E permits jobs where
  move: "i < length jobs \<Longrightarrow> fire L E permits jobs i s = Some s' \<Longrightarrow> moves L E permits jobs s s'"

inductive_cases movesE: "moves L E permits jobs s s'"

definition reachable :: "third_party \<Rightarrow> erigon \<Rightarrow> nat \<Rightarrow> trace_job list \<Rightarrow> sys \<Rightarrow> bool" where
  "reachable L E permits jobs = (moves L E permits jobs)\<^sup>*\<^sup>* (start_sys jobs)"

text \<open>\<open>wg.Wait\<close> returns when every goroutine is done.\<close>

definition all_done :: "sys \<Rightarrow> bool" where
  "all_done s \<longleftrightarrow> list_all (\<lambda>p. p = Finished) (phases s)"

section \<open>Transpiling the results\<close>

record proof_result =
  TransactionHash :: string
  TransactionIndex :: nat
  InstructionCount :: nat

definition wrap_error :: "string \<Rightarrow> 'a result \<Rightarrow> 'a result" where
  "wrap_error prefix r =
     (case r of Inl (Err e) \<Rightarrow> Inl (Err (prefix @ e)) | _ \<Rightarrow> r)"

text \<open>The results from position \<open>i\<close> on, of \<open>n\<close> in all.\<close>

fun process_results :: "third_party \<Rightarrow> erigon \<Rightarrow> nat \<Rightarrow> nat \<Rightarrow> trace_result list
    \<Rightarrow> transpiler \<times> proof_result list \<Rightarrow> (transpiler \<times> proof_result list) result" where
  "process_results L E n i [] acc = Inr acc"
| "process_results L E n i (r # rs) (tr, prs) =
     (if rError r \<noteq> None then process_results L E n (i + 1) rs (tr, prs)
      else
        bindR (wrap_error (''failed to transpile transaction '' @ HashString E (rTxHash r) @ '': '')
                 (ProcessExecution L (rInstructions r) (rState r) tr)) (\<lambda>(tr', _).
          process_results L E n (i + 1) rs
            (if int i < int n - 1 then AddTransactionBoundary tr' else tr',
             prs @ [\<lparr>TransactionHash = HashString E (rTxHash r), TransactionIndex = rTxIndex r + 1,
                     InstructionCount = length (rInstructions r)\<rparr>])))"

definition block_program :: "third_party \<Rightarrow> erigon \<Rightarrow> trace_result list
    \<Rightarrow> (assembly_file \<times> proof_result list) result" where
  "block_program L E rs =
     bindR (process_results L E (length rs) 0 rs (NewTranspiler, [])) (\<lambda>(tr, prs).
       Inr (ToAssembly tr, prs))"

definition total_evm_instructions :: "proof_result list \<Rightarrow> nat" where
  "total_evm_instructions prs = fold (\<lambda>p n. n + InstructionCount p) prs 0"

end
