(* ===== verification/BlockTracing.thy ===== *)
theory BlockTracing
  imports Block
begin

text \<open>
  The tracing goroutines of a block under every schedule: the semaphore, the slots they write,
  their termination, and whose trace ends up in which slot. Invariants are proved for one step of
  one goroutine and lifted to every reachable state by induction over the run.
\<close>

section \<open>Jobs\<close>

definition numbered :: "trace_job list \<Rightarrow> bool" where
  "numbered jobs \<longleftrightarrow> (\<forall>i<length jobs. jIndex (jobs ! i) = i)"

lemma numbered_snoc: "numbered jobs \<Longrightarrow> jIndex j = length jobs \<Longrightarrow> numbered (jobs @ [j])"
  by (simp add: numbered_def nth_append less_Suc_eq)

lemma make_jobs_numbered: "numbered jobs \<Longrightarrow> numbered (make_jobs maxTxs i txs jobs)"
  by (induction maxTxs i txs jobs rule: make_jobs.induct)
    (auto simp: numbered_snoc split: option.split)

section \<open>Counting\<close>

lemma length_filter_update:
  "i < length xs \<Longrightarrow> length (filter P (xs[i := x])) + (if P (xs ! i) then 1 else 0) =
    length (filter P xs) + (if P x then 1 else 0)"
proof (induction xs arbitrary: i)
  case (Cons y ys)
  then show ?case by (cases i) auto
qed simp

fun steps_left :: "phase \<Rightarrow> nat" where
  "steps_left Queued = 6"
| "steps_left Acquired = 5"
| "steps_left Registered = 4"
| "steps_left (Resolved k) = 3"
| "steps_left (Returned e) = 2"
| "steps_left Written = 1"
| "steps_left Finished = 0"

definition work :: "sys \<Rightarrow> nat" where
  "work s = sum_list (map steps_left (phases s))"

lemma work_update:
  "i < length (phases s) \<Longrightarrow> phases s' = (phases s)[i := p] \<Longrightarrow>
   work s' + steps_left (phases s ! i) = work s + steps_left p"
  using member_le_sum_list[of "steps_left (phases s ! i)" "map steps_left (phases s)"]
  by (simp add: work_def map_update sum_list_update)

lemma work_zero: "work s = 0 \<longleftrightarrow> all_done s"
proof -
  have "steps_left p = 0 \<longleftrightarrow> p = Finished" for p by (cases p) auto
  then show ?thesis by (auto simp: work_def all_done_def list_all_iff)
qed

section \<open>One step of a goroutine\<close>

lemma fire_phases:
  "fire L E permits jobs i s = Some s' \<Longrightarrow>
   \<exists>p. phases s' = (phases s)[i := p] \<and> steps_left (phases s ! i) = Suc (steps_left p) \<and>
     (phases s ! i = Queued \<longrightarrow> p = Acquired \<and> in_use s < permits) \<and>
     (phases s ! i = Written \<longrightarrow> p = Finished)"
  by (cases "phases s ! i") (auto simp: fire_defs split: if_splits sum.splits)

lemma fire_enabled:
  "phases s ! i \<noteq> Finished \<Longrightarrow> phases s ! i = Queued \<longrightarrow> in_use s < permits \<Longrightarrow>
   \<exists>s'. fire L E permits jobs i s = Some s'"
  by (cases "phases s ! i") (auto simp: fire_defs split: sum.split)

lemma fire_in_use:
  assumes "fire L E permits jobs i s = Some s'" and "i < length (phases s)" and "in_use s \<le> permits"
  shows "in_use s' \<le> permits"
proof -
  obtain p where p: "phases s' = (phases s)[i := p]"
    "steps_left (phases s ! i) = Suc (steps_left p)"
    "phases s ! i = Queued \<longrightarrow> p = Acquired \<and> in_use s < permits"
    using fire_phases[OF assms(1)] by blast
  have "holding p \<longrightarrow> holding (phases s ! i) \<or> in_use s < permits"
    using p(2,3) by (cases "phases s ! i") (auto simp: holding_def)
  with length_filter_update[OF assms(2), of holding p] p(1) assms(3) show ?thesis
    by (auto simp: in_use_def split: if_splits)
qed

section \<open>The invariant of the goroutines\<close>

text \<open>A tracer some goroutine's transaction was traced with.\<close>

definition traced_by :: "third_party \<Rightarrow> erigon \<Rightarrow> trace_job \<Rightarrow> state_tracer \<Rightarrow> bool" where
  "traced_by L E j t \<longleftrightarrow>
     (case EvmCalls E (jTxHash j) of Inl _ \<Rightarrow> False | Inr calls \<Rightarrow> t = trace_run L NewStateTracer calls)"

text \<open>The result of job \<open>j\<close>, its instructions and state being those of a tracer that satisfies \<open>P\<close>.\<close>

definition result_of :: "(state_tracer \<Rightarrow> bool) \<Rightarrow> trace_job \<Rightarrow> trace_result \<Rightarrow> bool" where
  "result_of P j r \<longleftrightarrow>
     rIndex r = jIndex j \<and> rTxIndex r = jTxIndex j \<and> rTxHash r = jTxHash j \<and>
     (rError r = None \<longrightarrow> (\<exists>t. P t \<and> rInstructions r = evmInstructions t \<and> rState r = executionState t))"

definition slot_ok :: "third_party \<Rightarrow> erigon \<Rightarrow> trace_job list \<Rightarrow> trace_job \<Rightarrow> phase \<Rightarrow> trace_result \<Rightarrow> bool" where
  "slot_ok L E jobs j p r \<longleftrightarrow>
     (if p = Written \<or> p = Finished then result_of (\<lambda>t. \<exists>j\<in>set jobs. traced_by L E j t) j r
      else r = zero_result)"

lemma slot_ok_simps [simp]:
  "slot_ok L E jobs j Queued r \<longleftrightarrow> r = zero_result"
  "slot_ok L E jobs j Acquired r \<longleftrightarrow> r = zero_result"
  "slot_ok L E jobs j Registered r \<longleftrightarrow> r = zero_result"
  "slot_ok L E jobs j (Resolved k) r \<longleftrightarrow> r = zero_result"
  "slot_ok L E jobs j (Returned e) r \<longleftrightarrow> r = zero_result"
  "slot_ok L E jobs j Written r \<longleftrightarrow> result_of (\<lambda>t. \<exists>j\<in>set jobs. traced_by L E j t) j r"
  "slot_ok L E jobs j Finished r \<longleftrightarrow> result_of (\<lambda>t. \<exists>j\<in>set jobs. traced_by L E j t) j r"
  by (simp_all add: slot_ok_def)

definition sys_inv :: "third_party \<Rightarrow> erigon \<Rightarrow> nat \<Rightarrow> trace_job list \<Rightarrow> sys \<Rightarrow> bool" where
  "sys_inv L E permits jobs s \<longleftrightarrow>
     length (phases s) = length jobs \<and> length (tracerResults s) = length jobs \<and>
     length (results s) = length jobs \<and> in_use s \<le> permits \<and>
     (\<forall>k<length jobs. \<forall>t. tracerResults s ! k = Some t \<longrightarrow> (\<exists>j\<in>set jobs. traced_by L E j t)) \<and>
     (\<forall>i<length jobs. slot_ok L E jobs (jobs ! i) (phases s ! i) (results s ! i))"

lemma sys_inv_start: "sys_inv L E permits jobs (start_sys jobs)"
  by (simp add: sys_inv_def start_sys_def in_use_def holding_def)

lemma written_result_of:
  assumes "\<And>t'. t = Some t' \<Longrightarrow> P t'"
  shows "result_of P j (written_result j err t)"
  using assms by (auto simp: written_result_def trace_outcome_def result_of_def split: option.split)

lemma update_Some: "xs[a := Some v] ! k = Some t \<Longrightarrow> t = v \<or> xs ! k = Some t"
  by (cases "a = k"; cases "k < length xs") (simp_all add: list_update_beyond)

lemma sys_inv_fire:
  assumes inv: "sys_inv L E permits jobs s" and i: "i < length jobs" and num: "numbered jobs"
    and fire: "fire L E permits jobs i s = Some s'"
  shows "sys_inv L E permits jobs s'"
proof -
  have use: "in_use s' \<le> permits"
    using fire_in_use[OF fire] inv i by (simp add: sys_inv_def)
  have slot: "slot_ok L E jobs (jobs ! i) (phases s ! i) (results s ! i)"
    using inv i by (simp add: sys_inv_def)
  have num_i: "jIndex (jobs ! i) = i" using num i by (simp add: numbered_def)
  have own: "EvmCalls E (jTxHash (jobs ! i)) = Inr calls \<Longrightarrow>
      \<exists>j\<in>set jobs. traced_by L E j (trace_run L NewStateTracer calls)" for calls
    using i by (intro bexI[of _ "jobs ! i"]) (simp_all add: traced_by_def)
  have ret: "result_of (\<lambda>t. \<exists>j\<in>set jobs. traced_by L E j t) (jobs ! i)
      (written_result (jobs ! i) err (tracerResults s ! i))" for err
    using inv i by (intro written_result_of) (simp add: sys_inv_def)
  have "length (phases s') = length jobs \<and> length (tracerResults s') = length jobs \<and>
      length (results s') = length jobs"
    using fire inv by (cases "phases s ! i") (auto simp: fire_defs sys_inv_def split: if_splits sum.splits)
  moreover have "\<exists>j\<in>set jobs. traced_by L E j t"
    if "k < length jobs" "tracerResults s' ! k = Some t" for k t
    using fire inv own that
    by (cases "phases s ! i") (auto simp: fire_defs sys_inv_def dest!: update_Some split: if_splits sum.splits)
  moreover have "slot_ok L E jobs (jobs ! k) (phases s' ! k) (results s' ! k)" if k: "k < length jobs" for k
  proof (cases "k = i")
    case True
    with fire slot ret num_i i inv show ?thesis
      by (cases "phases s ! i") (auto simp: fire_defs sys_inv_def split: if_splits sum.splits)
  next
    case False
    with fire num_i inv k show ?thesis
      by (cases "phases s ! i") (auto simp: fire_defs sys_inv_def split: if_splits sum.splits)
  qed
  ultimately show ?thesis using use by (simp add: sys_inv_def)
qed

lemma reachable_inv:
  assumes "numbered jobs" and "reachable L E permits jobs s"
  shows "sys_inv L E permits jobs s"
  using assms(2) unfolding reachable_def
proof (induction rule: rtranclp_induct)
  case base
  show ?case by (rule sys_inv_start)
next
  case (step s s')
  from step.hyps(2) step.IH assms(1) show ?case
    by (auto elim!: movesE intro: sys_inv_fire)
qed

section \<open>Termination\<close>

lemma move_work:
  assumes "moves L E permits jobs s s'" and "length (phases s) = length jobs"
  shows "length (phases s') = length jobs \<and> work s = Suc (work s')"
proof -
  obtain i where i: "i < length jobs" "fire L E permits jobs i s = Some s'"
    using assms(1) by (auto elim: movesE)
  obtain p where p: "phases s' = (phases s)[i := p]" "steps_left (phases s ! i) = Suc (steps_left p)"
    using fire_phases[OF i(2)] by blast
  from work_update[of i s s' p] p i assms(2) show ?thesis by simp
qed

lemma run_work:
  "(moves L E permits jobs ^^ k) (start_sys jobs) s \<Longrightarrow>
   length (phases s) = length jobs \<and> work s + k = 6 * length jobs"
proof (induction k arbitrary: s)
  case 0
  then have "s = start_sys jobs" by simp
  then show ?case by (simp add: start_sys_def work_def sum_list_replicate)
next
  case (Suc k)
  then obtain s1 where "(moves L E permits jobs ^^ k) (start_sys jobs) s1" "moves L E permits jobs s1 s"
    by auto
  with Suc.IH move_work[of L E permits jobs s1 s] show ?case by fastforce
qed

lemma some_move:
  assumes "length (phases s) = length jobs" and "0 < permits" and "\<not> all_done s"
  shows "\<exists>s'. moves L E permits jobs s s'"
proof -
  obtain i where i: "i < length jobs" "phases s ! i \<noteq> Finished"
    using assms(1,3) by (auto simp: all_done_def list_all_length)
  show ?thesis
  proof (cases "\<exists>k<length jobs. holding (phases s ! k)")
    case True
    then obtain k where "k < length jobs" "holding (phases s ! k)" by blast
    then show ?thesis
      using fire_enabled[of s k permits L E jobs] by (auto simp: holding_def intro: move)
  next
    case False
    then have "in_use s = 0"
      using assms(1) by (auto simp: in_use_def filter_empty_conv in_set_conv_nth)
    with i assms(2) show ?thesis
      using fire_enabled[of s i permits L E jobs] by (auto intro: move)
  qed
qed

lemma reachable_length: "reachable L E permits jobs s \<Longrightarrow> length (phases s) = length jobs"
  unfolding reachable_def rtranclp_power using run_work by blast

section \<open>One at a time\<close>

text \<open>The result a job should have: that of its own transaction.\<close>

definition own_result :: "third_party \<Rightarrow> erigon \<Rightarrow> trace_job \<Rightarrow> trace_result" where
  "own_result L E j =
     (case EvmCalls E (jTxHash j) of
        Inl e \<Rightarrow> written_result j (Some e) None
      | Inr calls \<Rightarrow> written_result j None (Some (trace_run L NewStateTracer calls)))"

lemma written_error: "written_result j (Some e) t = written_result j (Some e) None"
  by (simp add: written_result_def trace_outcome_def)

definition own_phase :: "third_party \<Rightarrow> erigon \<Rightarrow> trace_job list \<Rightarrow> sys \<Rightarrow> nat \<Rightarrow> bool" where
  "own_phase L E jobs s i =
     (case phases s ! i of
        Queued \<Rightarrow> True
      | Acquired \<Rightarrow> True
      | Registered \<Rightarrow> registry s \<noteq> [] \<and> last (registry s) = i
      | Resolved k \<Rightarrow> k = i
      | Returned err \<Rightarrow> written_result (jobs ! i) err (tracerResults s ! i) = own_result L E (jobs ! i)
      | Written \<Rightarrow> results s ! i = own_result L E (jobs ! i)
      | Finished \<Rightarrow> results s ! i = own_result L E (jobs ! i))"

lemma one_holds:
  "length (filter P xs) \<le> 1 \<Longrightarrow> i < length xs \<Longrightarrow> k < length xs \<Longrightarrow> P (xs ! i) \<Longrightarrow> P (xs ! k) \<Longrightarrow> i = k"
proof (induction xs arbitrary: i k)
  case (Cons x xs)
  show ?case
  proof (cases "P x")
    case True
    with Cons.prems(1) have "filter P xs = []" by simp
    then have "\<And>j. j < length xs \<Longrightarrow> \<not> P (xs ! j)" by (simp add: filter_empty_conv)
    with Cons.prems(2-5) show ?thesis by (cases i; cases k) auto
  next
    case False
    with Cons.prems Cons.IH[of "i - 1" "k - 1"] show ?thesis by (cases i; cases k) auto
  qed
qed simp

lemma newest_last: "newest_first E \<Longrightarrow> xs \<noteq> [] \<Longrightarrow> PickLookup E xs = last xs"
  unfolding newest_first_def by (metis append_butlast_last_id)

lemma own_fire:
  assumes new: "newest_first E" and inv: "sys_inv L E 1 jobs s" and i: "i < length jobs"
    and num: "numbered jobs" and own: "own_phase L E jobs s i"
    and fire: "fire L E 1 jobs i s = Some s'"
  shows "own_phase L E jobs s' i"
proof -
  have num_i: "jIndex (jobs ! i) = i" using num i by (simp add: numbered_def)
  have len: "i < length (phases s)" "i < length (tracerResults s)" "i < length (results s)"
    using inv i by (simp_all add: sys_inv_def)
  show ?thesis
  proof (cases "phases s ! i")
    case Registered
    with own fire len newest_last[OF new] show ?thesis by (auto simp: fire_defs own_phase_def)
  next
    case (Resolved k)
    with own have "k = i" by (simp add: own_phase_def)
    with Resolved fire len written_error[of "jobs ! i" _ "tracerResults s ! i"] show ?thesis
      by (auto simp: fire_defs own_phase_def own_result_def split: sum.splits)
  qed (use own fire len num_i in \<open>auto simp: fire_defs own_phase_def split: if_splits\<close>)
qed

lemma other_fire:
  assumes inv: "sys_inv L E 1 jobs s" and i: "i < length jobs" and k: "k < length jobs" "k \<noteq> i"
    and num: "numbered jobs" and own: "own_phase L E jobs s i" "own_phase L E jobs s k"
    and fire: "fire L E 1 jobs i s = Some s'"
  shows "own_phase L E jobs s' k"
proof -
  have num_i: "jIndex (jobs ! i) = i" using num i by (simp add: numbered_def)
  have alone: "\<not> (holding (phases s ! i) \<and> holding (phases s ! k))"
    using one_holds[of holding "phases s" i k] inv i k by (auto simp: sys_inv_def in_use_def)
  show ?thesis
  proof (cases "phases s ! i")
    case Acquired
    with alone own(2) fire k(2) show ?thesis
      by (auto simp: fire_defs own_phase_def holding_def split: phase.splits)
  next
    case (Resolved j)
    with own fire k show ?thesis
      by (auto simp: fire_defs own_phase_def split: phase.splits sum.splits)
  qed (use own fire k num_i in \<open>auto simp: fire_defs own_phase_def split: phase.splits if_splits\<close>)
qed

lemma serial_reachable:
  assumes "newest_first E" and "numbered jobs" and "reachable L E 1 jobs s"
  shows "sys_inv L E 1 jobs s \<and> (\<forall>i<length jobs. own_phase L E jobs s i)"
  using assms(3) unfolding reachable_def
proof (induction rule: rtranclp_induct)
  case base
  show ?case using sys_inv_start[of L E 1 jobs] by (simp add: own_phase_def start_sys_def)
next
  case (step s s')
  from step.hyps(2) obtain i where i: "i < length jobs" "fire L E 1 jobs i s = Some s'"
    by (auto elim: movesE)
  from step.IH i assms(1,2) show ?case
    by (metis own_fire other_fire sys_inv_fire)
qed

section \<open>Two at a time\<close>

text \<open>A schedule, as the goroutines to go next; \<open>None\<close> when one of them cannot.\<close>

fun schedule :: "third_party \<Rightarrow> erigon \<Rightarrow> nat \<Rightarrow> trace_job list \<Rightarrow> nat list \<Rightarrow> sys \<Rightarrow> sys option" where
  "schedule L E permits jobs [] s = Some s"
| "schedule L E permits jobs (i # is) s =
     (if i < length jobs then Option.bind (fire L E permits jobs i s) (schedule L E permits jobs is) else None)"

lemma schedule_moves:
  "schedule L E permits jobs is s = Some s' \<Longrightarrow> (moves L E permits jobs)\<^sup>*\<^sup>* s s'"
proof (induction "is" arbitrary: s)
  case (Cons i "is")
  then obtain s1 where "i < length jobs" "fire L E permits jobs i s = Some s1"
    "schedule L E permits jobs is s1 = Some s'"
    by (auto split: if_splits bind_splits)
  with Cons.IH[of s1] show ?case by (meson converse_rtranclp_into_rtranclp move)
qed simp

text \<open>Both goroutines register before either is looked up.\<close>

definition swapping :: "nat list" where
  "swapping = [0, 1, 0, 1, 0, 1, 1, 0, 0, 1, 0, 1]"

lemma swapping_outcome:
  assumes "PickLookup E [0, 1] = 1" and "EvmCalls E h0 = Inr c0" and "EvmCalls E h1 = Inr c1"
    and "2 \<le> permits"
  shows "\<exists>s. schedule L E permits [\<lparr>jIndex = 0, jTxIndex = a, jTxHash = h0\<rparr>, \<lparr>jIndex = 1, jTxIndex = b, jTxHash = h1\<rparr>]
      swapping (start_sys [\<lparr>jIndex = 0, jTxIndex = a, jTxHash = h0\<rparr>, \<lparr>jIndex = 1, jTxIndex = b, jTxHash = h1\<rparr>]) = Some s \<and>
    all_done s \<and>
    results s = [written_result \<lparr>jIndex = 0, jTxIndex = a, jTxHash = h0\<rparr> None None,
      written_result \<lparr>jIndex = 1, jTxIndex = b, jTxHash = h1\<rparr> None (Some (trace_run L NewStateTracer c0))]"
  using assms
  by (simp add: swapping_def start_sys_def fire_defs in_use_def holding_def all_done_def numeral_2_eq_2)

end
