(* ===== verification/Saved.thy ===== *)
theory Saved
  imports Replay
begin

text \<open>
  The registers the production code leaves alone. What implements a \<open>stack_op\<close> writes the stack
  pointer and two scratch registers only, so a second simulation, of the same abstract stack by
  machines that also keep every other register, is another instance of the locale \<open>simulation\<close>.
  The calling convention of the printed file and the composition of the transactions of a block
  rest on it.
\<close>

section \<open>Destinations\<close>

fun destination :: "rv \<Rightarrow> reg option" where
  "destination (I_addi rd rs k) = Some rd"
| "destination (I_li rd k) = Some rd"
| "destination (I_la rd l) = Some rd"
| "destination (I_lw rd k rs) = Some rd"
| "destination (I_lb rd k rs) = Some rd"
| "destination (I_mv rd rs) = Some rd"
| "destination _ = None"

definition leaves :: "reg \<Rightarrow> rv \<Rightarrow> bool" where
  "leaves r c \<longleftrightarrow> destination c \<noteq> Some r \<and> (case c of I_call f \<Rightarrow> False | _ \<Rightarrow> True)"

lemma exec1_leaves: "leaves r c \<Longrightarrow> exec1 env c m = Some m' \<Longrightarrow> get_reg m' r = get_reg m r"
  by (cases c) (auto simp: leaves_def mach_simps split: option.splits)

lemma exec_leaves: "list_all (leaves r) cs \<Longrightarrow> exec env cs m = Some m' \<Longrightarrow> get_reg m' r = get_reg m r"
  by (induction cs arbitrary: m) (auto dest: exec1_leaves split: option.splits)

text \<open>The registers the generated stack code may write.\<close>

definition scratch :: "reg set" where
  "scratch = {SP, T0, T1}"

definition same_saved :: "mach \<Rightarrow> mach \<Rightarrow> bool" where
  "same_saved m m' \<longleftrightarrow> (\<forall>r. r \<notin> scratch \<longrightarrow> get_reg m' r = get_reg m r)"

lemma same_saved_refl [simp]: "same_saved m m"
  by (simp add: same_saved_def)

lemma same_saved_trans: "same_saved a b \<Longrightarrow> same_saved b c \<Longrightarrow> same_saved a c"
  by (simp add: same_saved_def)

lemma same_savedD:
  assumes "same_saved m m'"
  shows "get_reg m' S1 = get_reg m S1" "get_reg m' S2 = get_reg m S2" "get_reg m' RA = get_reg m RA"
  using assms by (simp_all add: same_saved_def scratch_def)

lemma lowers_leaves:
  assumes "lowers ds i is" and "low_op cap i ws = Some ws'" and "r \<notin> scratch"
  shows "\<exists>cs. decode_all is = Some cs \<and> list_all (leaves r) cs"
proof (cases i)
  case (Dup k)
  with assms show ?thesis by (auto simp: decode_dup leaves_def scratch_def split: if_splits)
next
  case (Swap k)
  with assms show ?thesis by (auto simp: decode_swap leaves_def scratch_def split: if_splits)
qed (use assms in \<open>auto simp: decode_simps leaves_def scratch_def EBREAK_instr_def upt_rec\<close>)

lemma lowers_same_saved:
  assumes "lowers ds i is" and "low_op cap i ws = Some ws'" and "run_asm env is m = Some m'"
  shows "same_saved m m'"
  unfolding same_saved_def
proof (intro allI impI)
  fix r assume "r \<notin> scratch"
  from lowers_leaves[OF assms(1,2) this] obtain cs where "decode_all is = Some cs" "list_all (leaves r) cs"
    by blast
  with assms(3) exec_leaves[of r cs env m m'] show "get_reg m' r = get_reg m r"
    by (simp add: run_asm_def)
qed

section \<open>The simulation that keeps them\<close>

interpretation saved_sim: simulation "low_op cap" "run_asm env" "lowers ds"
  "\<lambda>ws m. low_rel env ds lo cap ws m \<and> same_saved m0 m" for cap env ds lo m0
  by unfold_locales (blast dest: stack_op_simulates lowers_same_saved intro: same_saved_trans)

lemma low_ops_saved: "low_ops cap is ws = saved_sim.aruns cap is ws"
  by (induction "is" arbitrary: ws) (simp_all split: option.split)

lemma run_concat_saved: "saved_sim.cruns env iss m = Some m' \<Longrightarrow> run_asm env (concat iss) m = Some m'"
  by (induction iss arbitrary: m) (auto simp: bind_eq_Some_conv intro: run_asm_append)

text \<open>
  Running code appended at some point of the transpilation, with the data section of a later
  point loaded.
\<close>

lemma appended_runs:
  assumes "emits_code L tr tr' p" and "pool_ok L (dataSection tr)"
    and "ds_values ds = ds_values (dataSection tr') @ vs"
    and "low_ops cap p ws = Some ws'" and "low_rel env ds lo cap ws m"
  shows "\<exists>code m'. instructions tr' = instructions tr @ code \<and> run_asm env code m = Some m' \<and>
    low_rel env ds lo cap ws' m' \<and> same_saved m m'"
proof -
  from assms(1,2) obtain iss where iss: "instructions tr' = instructions tr @ concat iss"
    "list_all2 (lowers (dataSection tr')) p iss"
    by (auto simp: emits_code_def emits_def)
  have "list_all2 (lowers ds) p iss"
    using iss(2) lowers_mono[OF assms(3)] by (rule list_all2_mono)
  from saved_sim.runs[OF this, of env lo cap ws m m] assms(4,5) obtain m'
    where "saved_sim.cruns env iss m = Some m'" "low_rel env ds lo cap ws' m'" "same_saved m m'"
    by (auto simp: low_ops_saved)
  with iss(1) run_concat_saved show ?thesis by blast
qed

text \<open>The three instructions of a transaction boundary, on an empty stack at \<open>s2\<close>.\<close>

lemma boundary_runs:
  assumes "low_rel env ds lo cap ws m" and "unat (get_reg m S2) = lo + 32 * cap"
  shows "\<exists>m'. run_asm env [instr ''mv'' [''sp'', ''s2''], instr ''mv'' [''s3'', ''s2''], EBREAK_instr] m = Some m' \<and>
    low_rel env ds lo cap [] m' \<and> get_reg m' S1 = get_reg m S1 \<and> get_reg m' S2 = get_reg m S2 \<and>
    get_reg m' RA = get_reg m RA"
  using assms by (simp add: run_asm_def EBREAK_instr_def decode_simps mach_simps low_rel_def)

section \<open>The wrapper of the printed file\<close>

text \<open>
  The instructions around the program in the complete file for the tool chain (the text of
  \<open>ToToolChainCompatibleAssembly\<close>), up to the final \<open>ret\<close>.
\<close>

definition save_stack :: "instruction list" where
  "save_stack = [instr ''mv'' [''s2'', ''sp''], instr ''mv'' [''s1'', ''ra'']]"

lemma read_reg_ra: "read_reg ''ra'' = Some RA"
  by (simp add: read_reg_def reg_names_def)

definition restore_stack :: "instruction list" where
  "restore_stack = [instr ''mv'' [''sp'', ''s2''], instr ''mv'' [''ra'', ''s1'']]"

end
