(* ===== verification/BlockProps.thy ===== *)
theory BlockProps
  imports BlockTracing Saved ReplayProps
begin

text \<open>
  Properties of proving a block: the tracing goroutines under every schedule, and the program made
  of the traces of all transactions.
\<close>

section \<open>Tracing\<close>

lemma start_numbered: "numbered (make_jobs maxTxs 0 txs [])"
  by (rule make_jobs_numbered) (simp add: numbered_def)

definition selected :: "int \<Rightarrow> nat \<Rightarrow> 'a list \<Rightarrow> 'a list" where
  "selected maxTxs i txs = (if maxTxs > 0 then take (nat maxTxs - i) txs else txs)"

lemma make_jobs_hashes:
  "map jTxHash (make_jobs maxTxs i txs jobs) =
   map jTxHash jobs @ map the (filter (\<lambda>t. t \<noteq> None) (selected maxTxs i txs))"
proof (induction maxTxs i txs jobs rule: make_jobs.induct)
  case (2 maxTxs i tx txs jobs)
  show ?case
  proof (cases "maxTxs > 0 \<and> int i \<ge> maxTxs")
    case True
    then have "nat maxTxs - i = 0" by auto
    with True show ?thesis by (simp add: selected_def)
  next
    case False
    then have "selected maxTxs i (tx # txs) = tx # selected maxTxs (i + 1) txs"
      by (auto simp: selected_def take_Cons' nat_diff_split)
    with False 2 show ?thesis by (cases tx) auto
  qed
qed (simp add: selected_def)

text \<open>
  C31. Whatever the scheduler does, at most as many transactions as the semaphore admits are traced
  at a time, every goroutine writes the slot of its own job only, once, with the job's index and
  hash, and a result without an error holds the complete record of one of the block's traces.
\<close>

theorem tracing_is_safe:
  assumes "jobs = make_jobs maxTxs 0 txs []" and "reachable L E maxConcurrent jobs s"
  shows "in_use s \<le> 5 \<and> length (results s) = length jobs \<and>
    (\<forall>i<length jobs.
      if phases s ! i = Written \<or> phases s ! i = Finished
      then rIndex (results s ! i) = i \<and> rTxHash (results s ! i) = jTxHash (jobs ! i) \<and>
        rTxIndex (results s ! i) = jTxIndex (jobs ! i) \<and>
        (rError (results s ! i) = None \<longrightarrow>
          (\<exists>j\<in>set jobs. \<exists>calls. EvmCalls E (jTxHash j) = Inr calls \<and>
             rInstructions (results s ! i) = evmInstructions (trace_run L NewStateTracer calls)))
      else results s ! i = zero_result)"
proof -
  have num: "numbered jobs" unfolding assms(1) by (rule start_numbered)
  from reachable_inv[OF num assms(2)] have inv: "sys_inv L E maxConcurrent jobs s" .
  have slot: "slot_ok L E jobs (jobs ! i) (phases s ! i) (results s ! i)" if "i < length jobs" for i
    using inv that by (simp add: sys_inv_def)
  have idx: "jIndex (jobs ! i) = i" if "i < length jobs" for i
    using num that by (simp add: numbered_def)
  have whose: "\<exists>j\<in>set jobs. \<exists>calls. EvmCalls E (jTxHash j) = Inr calls \<and>
      rInstructions r = evmInstructions (trace_run L NewStateTracer calls)"
    if r: "result_of (\<lambda>t. \<exists>j\<in>set jobs. traced_by L E j t) j r" "rError r = None" for j r
  proof -
    obtain j t where j: "j \<in> set jobs" "traced_by L E j t" "rInstructions r = evmInstructions t"
      using r by (auto simp: result_of_def)
    then obtain calls where "EvmCalls E (jTxHash j) = Inr calls" "t = trace_run L NewStateTracer calls"
      by (auto simp: traced_by_def split: sum.splits)
    with j show ?thesis by blast
  qed
  have "if phases s ! i = Written \<or> phases s ! i = Finished
      then rIndex (results s ! i) = i \<and> rTxHash (results s ! i) = jTxHash (jobs ! i) \<and>
        rTxIndex (results s ! i) = jTxIndex (jobs ! i) \<and>
        (rError (results s ! i) = None \<longrightarrow>
          (\<exists>j\<in>set jobs. \<exists>calls. EvmCalls E (jTxHash j) = Inr calls \<and>
             rInstructions (results s ! i) = evmInstructions (trace_run L NewStateTracer calls)))
      else results s ! i = zero_result" if i: "i < length jobs" for i
  proof (cases "phases s ! i = Written \<or> phases s ! i = Finished")
    case True
    with slot[OF i] have "result_of (\<lambda>t. \<exists>j\<in>set jobs. traced_by L E j t) (jobs ! i) (results s ! i)"
      by (simp add: slot_ok_def)
    with whose[OF this] idx[OF i] True show ?thesis by (simp add: result_of_def)
  next
    case False
    with slot[OF i] show ?thesis by (simp add: slot_ok_def)
  qed
  moreover have "in_use s \<le> 5" "length (results s) = length jobs"
    using inv by (simp_all add: sys_inv_def maxConcurrent_def)
  ultimately show ?thesis by blast
qed

definition two_txs :: "hash option list" where
  "two_txs = [Some [1], None, Some [2]]"

definition two_jobs :: "trace_job list" where
  "two_jobs = [\<lparr>jIndex = 0, jTxIndex = 0, jTxHash = [1]\<rparr>, \<lparr>jIndex = 1, jTxIndex = 2, jTxHash = [2]\<rparr>]"

lemma two_jobs_made: "make_jobs 0 0 two_txs [] = two_jobs"
  by (simp add: two_txs_def two_jobs_def)

text \<open>A sample Erigon: transaction \<open>h\<close> runs one opcode, with the hash's first byte on the stack.\<close>

definition demo_call :: "hash \<Rightarrow> hook_call" where
  "demo_call h = OnOpcode 0 vm_STOP 5
     \<lparr>scopeStackData = [ucast (hd h)], scopeCode = [], scopeCallValue = Some 0, scopeCallInput = [],
      scopeAddress = zero_address, scopeCaller = zero_address\<rparr>"

definition demo_erigon :: erigon where
  "demo_erigon = \<lparr>HashString = show_nat o be_nat, EvmCalls = (\<lambda>h. Inr [demo_call h]), PickLookup = last\<rparr>"

lemma demo_newest: "newest_first demo_erigon"
  by (simp add: newest_first_def demo_erigon_def)

lemma demo_reaches:
  assumes "schedule L demo_erigon permits two_jobs is (start_sys two_jobs) = Some s"
  shows "reachable L demo_erigon permits two_jobs s"
  unfolding reachable_def by (rule schedule_moves[OF assms])

lemma demo_acquired:
  "schedule L demo_erigon maxConcurrent two_jobs [0, 1] (start_sys two_jobs) =
   Some ((start_sys two_jobs)\<lparr>phases := [Acquired, Acquired]\<rparr>)"
  by (simp add: start_sys_def two_jobs_def fire_defs in_use_def holding_def maxConcurrent_def)

theorem tracing_is_safe_witness:
  "reachable sample_lib demo_erigon maxConcurrent two_jobs ((start_sys two_jobs)\<lparr>phases := [Acquired, Acquired]\<rparr>) \<and>
   in_use ((start_sys two_jobs)\<lparr>phases := [Acquired, Acquired]\<rparr>) \<le> 5"
  using tracing_is_safe[OF two_jobs_made[symmetric] demo_reaches[OF demo_acquired]]
    demo_reaches[OF demo_acquired] by blast

text \<open>
  C32. Tracing a block ends: the goroutines take at most six steps each in any schedule, and they
  can take no further step exactly when all of them are done, so the wait returns under every
  scheduler and the semaphore never deadlocks.
\<close>

theorem tracing_terminates:
  assumes "(moves L E maxConcurrent jobs ^^ k) (start_sys jobs) s"
  shows "k \<le> 6 * length jobs \<and> ((\<nexists>s'. moves L E maxConcurrent jobs s s') \<longleftrightarrow> all_done s) \<and>
    (all_done s \<longleftrightarrow> k = 6 * length jobs)"
proof -
  have len: "length (phases s) = length jobs" and left: "work s + k = 6 * length jobs"
    using run_work[OF assms] by simp_all
  have "\<not> moves L E maxConcurrent jobs s s'" if "all_done s" for s'
    using that move_work[OF _ len, of L E maxConcurrent s'] work_zero[of s] by fastforce
  moreover have "\<exists>s'. moves L E maxConcurrent jobs s s'" if "\<not> all_done s"
    using that by (intro some_move[OF len]) (simp add: maxConcurrent_def)
  ultimately show ?thesis using left work_zero[of s] by auto
qed

theorem tracing_terminates_witness:
  "\<not> all_done (start_sys two_jobs) \<and> (\<exists>s'. moves sample_lib demo_erigon maxConcurrent two_jobs (start_sys two_jobs) s')"
proof -
  have "(moves sample_lib demo_erigon maxConcurrent two_jobs ^^ 0) (start_sys two_jobs) (start_sys two_jobs)"
    by simp
  moreover have "length two_jobs = 2" by (simp add: two_jobs_def)
  ultimately show ?thesis using tracing_terminates by fastforce
qed

text \<open>
  C29. Two transactions traced at the same time can be swapped. The tracer factory is registered in
  a table all goroutines share and the newest entry answers, so when both goroutines register before
  either is looked up, both traces go to the second one's variable: the first transaction is
  reported as not traced and left out of the block, and the second is recorded, under its own hash,
  with the trace of the first.
\<close>

theorem overlapping_traces_are_swapped:
  assumes "newest_first E" and "make_jobs maxTxs 0 txs [] = [j0, j1]"
    and "EvmCalls E (jTxHash j0) = Inr c0" and "EvmCalls E (jTxHash j1) = Inr c1"
  shows "\<exists>s. reachable L E maxConcurrent [j0, j1] s \<and> all_done s \<and>
    rError (results s ! 0) = Some ''no tracer result received'' \<and>
    rTxHash (results s ! 1) = jTxHash j1 \<and> rError (results s ! 1) = None \<and>
    rInstructions (results s ! 1) = evmInstructions (trace_run L NewStateTracer c0) \<and>
    rState (results s ! 1) = executionState (trace_run L NewStateTracer c0)"
proof -
  have "numbered [j0, j1]" using start_numbered[of maxTxs txs] assms(2) by simp
  then have idx: "jIndex j0 = 0" "jIndex j1 = 1" by (auto simp: numbered_def)
  have j: "j0 = \<lparr>jIndex = 0, jTxIndex = jTxIndex j0, jTxHash = jTxHash j0\<rparr>"
    "j1 = \<lparr>jIndex = 1, jTxIndex = jTxIndex j1, jTxHash = jTxHash j1\<rparr>"
    using idx by simp_all
  have "PickLookup E ([0] @ [1]) = 1"
    using assms(1) unfolding newest_first_def by blast
  then have "PickLookup E [0, 1] = 1" by simp
  from swapping_outcome[OF this assms(3,4), of maxConcurrent L "jTxIndex j0" "jTxIndex j1"]
  obtain s where s: "schedule L E maxConcurrent [j0, j1] swapping (start_sys [j0, j1]) = Some s" "all_done s"
    "results s = [written_result j0 None None, written_result j1 None (Some (trace_run L NewStateTracer c0))]"
    using j by (auto simp: maxConcurrent_def)
  have "reachable L E maxConcurrent [j0, j1] s"
    unfolding reachable_def by (rule schedule_moves[OF s(1)])
  with s show ?thesis by (intro exI[of _ s]) (simp add: written_result_def trace_outcome_def)
qed

theorem overlapping_traces_are_swapped_witness:
  "\<exists>s. reachable sample_lib demo_erigon maxConcurrent two_jobs s \<and> all_done s \<and>
    rTxHash (results s ! 1) = [2] \<and> map StackSnapshot (rInstructions (results s ! 1)) = [[1]]"
proof -
  have c: "EvmCalls demo_erigon h = Inr [demo_call h]" for h by (simp add: demo_erigon_def)
  from overlapping_traces_are_swapped[OF demo_newest two_jobs_made[unfolded two_jobs_def] c c, of sample_lib]
  show ?thesis
    by (auto simp: two_jobs_def demo_call_def CaptureState_def NewStateTracer_def)
qed

text \<open>
  C30. With one transaction traced at a time every slot gets its own transaction's trace, or its own
  tracing error: the results are those of the RPC transactions of the block, in order, up to the limit.
\<close>

theorem serial_tracing_is_faithful:
  assumes "newest_first E" and "jobs = make_jobs maxTxs 0 txs []" and "reachable L E 1 jobs s"
    and "all_done s"
  shows "results s = map (own_result L E) jobs \<and>
    map jTxHash jobs = map the (filter (\<lambda>t. t \<noteq> None) (selected maxTxs 0 txs))"
proof -
  have num: "numbered jobs" unfolding assms(2) by (rule start_numbered)
  from serial_reachable[OF assms(1) num assms(3)]
  have inv: "sys_inv L E 1 jobs s" and own: "\<And>i. i < length jobs \<Longrightarrow> own_phase L E jobs s i" by blast+
  have "results s ! i = own_result L E (jobs ! i)" if "i < length jobs" for i
    using own[OF that] assms(4) inv that
    by (simp add: own_phase_def sys_inv_def all_done_def list_all_length)
  then have "results s = map (own_result L E) jobs"
    using inv by (intro nth_equalityI) (simp_all add: sys_inv_def)
  then show ?thesis using make_jobs_hashes[of maxTxs 0 txs "[]"] assms(2) by simp
qed

definition in_turn :: "nat list" where
  "in_turn = [0, 0, 0, 0, 0, 0, 1, 1, 1, 1, 1, 1]"

lemma in_turn_done:
  "\<exists>s. schedule sample_lib demo_erigon 1 two_jobs in_turn (start_sys two_jobs) = Some s \<and> all_done s"
  by (simp add: in_turn_def two_jobs_def start_sys_def fire_defs in_use_def holding_def all_done_def
      demo_erigon_def)

theorem serial_tracing_is_faithful_witness:
  "\<exists>s. reachable sample_lib demo_erigon 1 two_jobs s \<and>
    results s = map (own_result sample_lib demo_erigon) two_jobs"
  using in_turn_done serial_tracing_is_faithful[OF demo_newest two_jobs_made[symmetric]] demo_reaches
  by blast

end
