(* ===== verification/Toolchain.thy ===== *)
theory Toolchain
  imports Assembly
begin

text \<open>
  The driver of the zkVM tool chain, \<open>prover/prover.go\<close>: workspaces on disk, the commands of
  \<open>cargo openvm\<close> and what is read back from them. The state is a \<open>world\<close>: the files, the clock
  readings taken so far and the commands issued. The operating system and the programs started are
  parameters (\<open>os_env\<close>): what a command prints, how it fails and which files it leaves.
  Directories are not tracked; paths are joined by a slash without cleaning.
\<close>

section \<open>The operating system\<close>

type_synonym files = "string \<rightharpoonup> bytes"

record command =
  cwd :: string
  argv :: "string list"

record world =
  files :: files
  readings :: nat
  issued :: "command list"

text \<open>
  \<open>Spawn\<close> gives standard output, standard error and the error of \<open>cmd.Run\<close>, and the files the
  command leaves; \<open>Clock\<close> gives the successive readings of the clock in nanoseconds.
\<close>

record os_env =
  MkdirTemp :: "string \<Rightarrow> world \<Rightarrow> string + string"
  WriteError :: "string \<Rightarrow> string option"
  Spawn :: "command \<Rightarrow> files \<Rightarrow> (string \<times> string \<times> string option) \<times> files"
  Clock :: "nat \<Rightarrow> int"
  zkVMToolchain :: "(string \<times> bytes option) list"

type_synonym 'a io = "world \<Rightarrow> 'a result \<times> world"

definition returnIO :: "'a \<Rightarrow> 'a io" where
  "returnIO x w = (Inr x, w)"

definition failIO :: "string \<Rightarrow> 'a io" where
  "failIO e w = (Inl (Err e), w)"

definition bindIO :: "'a io \<Rightarrow> ('a \<Rightarrow> 'b io) \<Rightarrow> 'b io" where
  "bindIO m f w = (case m w of (Inl e, w') \<Rightarrow> (Inl e, w') | (Inr x, w') \<Rightarrow> f x w')"

text \<open>\<open>if err != nil { return wrap(err) }\<close>\<close>

definition orElse :: "'a io \<Rightarrow> (string \<Rightarrow> string) \<Rightarrow> 'a io" where
  "orElse m f w = (case m w of (Inl (Err e), w') \<Rightarrow> (Inl (Err (f e)), w') | r \<Rightarrow> r)"

lemma bindIO_Inr:
  "bindIO m f w = (Inr y, w') \<longleftrightarrow> (\<exists>x w1. m w = (Inr x, w1) \<and> f x w1 = (Inr y, w'))"
  by (auto simp: bindIO_def split: prod.splits sum.splits)

lemma orElse_Inr [simp]: "orElse m f w = (Inr x, w') \<longleftrightarrow> m w = (Inr x, w')"
  by (auto simp: orElse_def split: prod.splits sum.splits fail.splits)

definition now :: "os_env \<Rightarrow> int io" where
  "now S w = (Inr (Clock S (readings w)), w\<lparr>readings := readings w + 1\<rparr>)"

definition path_join :: "string \<Rightarrow> string \<Rightarrow> string" where
  "path_join a b = a @ ''/'' @ b"

definition readFileOS :: "string \<Rightarrow> bytes io" where
  "readFileOS path w =
     (case files w path of
        None \<Rightarrow> (Inl (Err (''open '' @ path @ '': no such file or directory'')), w)
      | Some content \<Rightarrow> (Inr content, w))"

definition writeFileOS :: "os_env \<Rightarrow> string \<Rightarrow> bytes \<Rightarrow> unit io" where
  "writeFileOS S path content w =
     (case WriteError S path of
        Some e \<Rightarrow> (Inl (Err e), w)
      | None \<Rightarrow> (Inr (), w\<lparr>files := (files w)(path \<mapsto> content)\<rparr>))"

definition mkdirTemp :: "os_env \<Rightarrow> string \<Rightarrow> string io" where
  "mkdirTemp S pattern w = (case MkdirTemp S pattern w of Inl e \<Rightarrow> (Inl (Err e), w) | Inr d \<Rightarrow> (Inr d, w))"

section \<open>Commands\<close>

definition ZkProverError :: "string \<Rightarrow> string \<Rightarrow> string" where
  "ZkProverError message underlying = ''ZkProver error: '' @ message @ '': '' @ underlying"

text \<open>
  \<open>Cli.Execute\<close>: standard output comes back in every case, beside the error; the error carries
  standard error when there is any.
\<close>

definition Cli_Execute :: "os_env \<Rightarrow> string \<Rightarrow> string list \<Rightarrow> world \<Rightarrow> (string \<times> string option) \<times> world" where
  "Cli_Execute S workSpace args w =
     (if args = [] then (([], Some ''no command provided''), w)
      else
        (let c = \<lparr>cwd = workSpace, argv = args\<rparr>;
             ((out, err_out, err), fs) = Spawn S c (files w);
             w' = w\<lparr>files := fs, issued := issued w @ [c]\<rparr>
         in case err of
              Some e \<Rightarrow>
                if err_out \<noteq> [] then ((out, Some (e @ '': stderr: '' @ err_out)), w') else ((out, Some e), w')
            | None \<Rightarrow> ((out, None), w')))"

text \<open>The common use: fail on the error, keep the output.\<close>

definition execute :: "os_env \<Rightarrow> string \<Rightarrow> string list \<Rightarrow> string io" where
  "execute S workSpace args w =
     (case Cli_Execute S workSpace args w of
        ((out, None), w') \<Rightarrow> (Inr out, w')
      | ((out, Some e), w') \<Rightarrow> (Inl (Err e), w'))"

definition Cli_readFile :: "string \<Rightarrow> string \<Rightarrow> bytes io" where
  "Cli_readFile workSpace name = readFileOS (path_join workSpace name)"

section \<open>Workspaces\<close>

text \<open>\<open>extractEmbedFS\<close>: the embedded tree in the order of the walk; directories have no content.\<close>

fun extractEmbedFS :: "os_env \<Rightarrow> (string \<times> bytes option) list \<Rightarrow> string \<Rightarrow> unit io" where
  "extractEmbedFS S [] dstDir = returnIO ()"
| "extractEmbedFS S ((p, entry) # fsys) dstDir =
     bindIO
       (case entry of
          None \<Rightarrow> (case WriteError S (path_join dstDir p) of None \<Rightarrow> returnIO () | Some e \<Rightarrow> failIO e)
        | Some content \<Rightarrow> writeFileOS S (path_join dstDir p) content)
       (\<lambda>_. extractEmbedFS S fsys dstDir)"

definition setupWorkspace :: "os_env \<Rightarrow> bytes \<Rightarrow> string io" where
  "setupWorkspace S newRiscContent =
     bindIO (mkdirTemp S ''zkvm-toolchain-*'') (\<lambda>tmpDir.
     bindIO (extractEmbedFS S (zkVMToolchain S) tmpDir) (\<lambda>_.
       (let workspaceDirectory = path_join tmpDir ''openvm'';
            riscPath = path_join (path_join workspaceDirectory ''src'') ''risc.asm''
        in bindIO (orElse (writeFileOS S riscPath newRiscContent) (\<lambda>e. ''failed to write risc.asm: '' @ e))
             (\<lambda>_. returnIO workspaceDirectory))))"

record setup_timing =
  BuildTime :: int
  KeygenTime :: int

text \<open>\<open>Duration.Milliseconds\<close>: nanoseconds divided by a million, rounded towards zero.\<close>

definition milliseconds :: "int \<Rightarrow> int" where
  "milliseconds d = (if d < 0 then - ((- d) div 1000000) else d div 1000000)"

definition SetupExecution :: "os_env \<Rightarrow> bytes \<Rightarrow> (string \<times> setup_timing) io" where
  "SetupExecution S content =
     bindIO (orElse (setupWorkspace S content) (ZkProverError ''failed to setup workspace'')) (\<lambda>workSpace.
     bindIO (now S) (\<lambda>buildStart.
     bindIO (orElse (execute S workSpace [''cargo'', ''openvm'', ''build''])
              (ZkProverError ''failed to build project'')) (\<lambda>_.
     bindIO (now S) (\<lambda>buildEnd.
     bindIO (now S) (\<lambda>keygenStart.
     bindIO (orElse (execute S workSpace [''cargo'', ''openvm'', ''keygen''])
              (ZkProverError ''failed to generate keys'')) (\<lambda>_.
     bindIO (now S) (\<lambda>keygenEnd.
       returnIO (workSpace, \<lparr>BuildTime = milliseconds (buildEnd - buildStart),
                             KeygenTime = milliseconds (keygenEnd - keygenStart)\<rparr>))))))))"

section \<open>Proving\<close>

record proof_timing =
  BuildTimeMs :: int
  KeygenTimeMs :: int
  SetupTimeMs :: int
  ProveTimeMs :: int
  ReadTimeMs :: int
  TotalTimeMs :: int

record proof_generation =
  pgProof :: bytes
  pgAppVK :: bytes
  pgStdout :: string
  pgTiming :: proof_timing
  EstimatedInstructions :: int

definition getEstimatedInstructionCount :: "os_env \<Rightarrow> string \<Rightarrow> int io" where
  "getEstimatedInstructionCount S workSpace w =
     (case Cli_Execute S workSpace
         [''riscv64-unknown-elf-objdump'', ''-d'', ''target/riscv32im-risc0-zkvm-elf/release/prover''] w of
        ((out, Some e), w') \<Rightarrow> (Inr 0, w')
      | ((out, None), w') \<Rightarrow> (Inr (int (length (split_at newline out))), w'))"

definition generation :: "bytes \<Rightarrow> bytes \<Rightarrow> string \<Rightarrow> setup_timing \<Rightarrow> int \<Rightarrow> int \<Rightarrow> int \<Rightarrow> int \<Rightarrow> proof_generation" where
  "generation proof appVk output setupTiming setupTime proveTime readTime estimated =
     \<lparr> pgProof = proof, pgAppVK = appVk, pgStdout = output,
       pgTiming = \<lparr> BuildTimeMs = BuildTime setupTiming, KeygenTimeMs = KeygenTime setupTiming,
                    SetupTimeMs = milliseconds setupTime, ProveTimeMs = milliseconds proveTime,
                    ReadTimeMs = milliseconds readTime,
                    TotalTimeMs = milliseconds (setupTime + proveTime + readTime) \<rparr>,
       EstimatedInstructions = estimated \<rparr>"

definition Prove :: "os_env \<Rightarrow> bytes \<Rightarrow> proof_generation io" where
  "Prove S content =
     bindIO (now S) (\<lambda>setupStart.
     bindIO (orElse (SetupExecution S content) (ZkProverError ''failed to setup execution'')) (\<lambda>(cli, setupTiming).
     bindIO (now S) (\<lambda>setupEnd.
     bindIO (now S) (\<lambda>proveStart.
     bindIO (orElse (execute S cli [''cargo'', ''openvm'', ''prove'', ''app''])
              (ZkProverError ''failed to execute prove command'')) (\<lambda>output.
     bindIO (now S) (\<lambda>proveEnd.
     bindIO (now S) (\<lambda>readStart.
     bindIO (Cli_readFile cli ''prover.app.proof'') (\<lambda>proof.
     bindIO (Cli_readFile cli ''target/openvm/app.vk'') (\<lambda>appVk.
     bindIO (getEstimatedInstructionCount S cli) (\<lambda>estimated.
     bindIO (now S) (\<lambda>readEnd.
       returnIO (generation proof appVk output setupTiming (setupEnd - setupStart) (proveEnd - proveStart)
                   (readEnd - readStart) estimated))))))))))))"

definition StarkProve :: "os_env \<Rightarrow> bytes \<Rightarrow> proof_generation io" where
  "StarkProve S content =
     bindIO (now S) (\<lambda>setupStart.
     bindIO (orElse (SetupExecution S content) (ZkProverError ''failed to setup execution'')) (\<lambda>(cli, setupTiming).
     bindIO (now S) (\<lambda>setupEnd.
     bindIO (now S) (\<lambda>proveStart.
     bindIO (orElse (execute S cli [''cargo'', ''openvm'', ''prove'', ''stark''])
              (ZkProverError ''failed to execute prove command'')) (\<lambda>output.
     bindIO (now S) (\<lambda>proveEnd.
     bindIO (now S) (\<lambda>readStart.
     bindIO (Cli_readFile cli ''prover.stark.proof'') (\<lambda>proof.
     bindIO (readFileOS ''/root/.openvm/agg_stark.vk'') (\<lambda>appVk.
     bindIO (getEstimatedInstructionCount S cli) (\<lambda>estimated.
     bindIO (now S) (\<lambda>readEnd.
       returnIO (generation proof appVk output setupTiming (setupEnd - setupStart) (proveEnd - proveStart)
                   (readEnd - readStart) estimated))))))))))))"

section \<open>A test run\<close>

definition has_prefix :: "string \<Rightarrow> string \<Rightarrow> bool" where
  "has_prefix p s \<longleftrightarrow> take (length p) s = p"

definition TestRun :: "os_env \<Rightarrow> bytes \<Rightarrow> string io" where
  "TestRun S content =
     bindIO (SetupExecution S content) (\<lambda>(cli, _).
     bindIO (execute S cli [''cargo'', ''openvm'', ''run'']) (\<lambda>output.
       (case find (has_prefix ''Execution output:'') (split_at newline output) of
          None \<Rightarrow> failIO (''execution output not found in the output: '' @ output)
        | Some line \<Rightarrow> returnIO line)))"

section \<open>Results files\<close>

record results_file =
  AppVK :: string
  ProofHex :: string

text \<open>\<open>hex.EncodeToString\<close> and \<open>hex.DecodeString\<close>: pairs of digits of either case.\<close>

definition hex_encode :: "bytes \<Rightarrow> string" where
  "hex_encode bs = concat (map (\<lambda>b. hex_pad 2 (unat b)) bs)"

definition hex_val :: "char \<Rightarrow> nat option" where
  "hex_val c = (let k = of_char c in
     if 65 \<le> k \<and> k \<le> 70 then Some (k - 55) else digit_val c)"

fun hex_decode :: "string \<Rightarrow> string + bytes" where
  "hex_decode [] = Inr []"
| "hex_decode [c] =
     (case hex_val c of
        None \<Rightarrow> Inl ''encoding/hex: invalid byte'' | Some _ \<Rightarrow> Inl ''encoding/hex: odd length hex string'')"
| "hex_decode (c # d # cs) =
     (case hex_val c of
        None \<Rightarrow> Inl ''encoding/hex: invalid byte''
      | Some h \<Rightarrow>
          (case hex_val d of
             None \<Rightarrow> Inl ''encoding/hex: invalid byte''
           | Some l \<Rightarrow>
               (case hex_decode cs of Inl e \<Rightarrow> Inl e | Inr bs \<Rightarrow> Inr (word_of_nat (16 * h + l) # bs))))"

record verification_result =
  vrStdout :: string
  Valid :: bool

definition no_result :: verification_result where
  "no_result = \<lparr>vrStdout = [], Valid = False\<rparr>"

text \<open>
  \<open>VerifyFromResults\<close>, with the parser of the JSON file as a parameter. The result is returned
  beside the error when the verifier was run.
\<close>

definition liftE :: "string + 'a \<Rightarrow> 'a io" where
  "liftE r = (case r of Inl e \<Rightarrow> failIO e | Inr x \<Rightarrow> returnIO x)"

text \<open>The part before the temporary directory is made: the decoded key and proof.\<close>

definition verify_input :: "(bytes \<Rightarrow> string + results_file) \<Rightarrow> string \<Rightarrow> (bytes \<times> bytes) io" where
  "verify_input unmarshal resultsPath =
     bindIO (orElse (readFileOS (if resultsPath = [] then ''results.json'' else resultsPath))
              (ZkProverError ''failed to read results file'')) (\<lambda>resultsData.
     bindIO (orElse (liftE (unmarshal resultsData)) (ZkProverError ''failed to parse results file'')) (\<lambda>results.
     bindIO (orElse (liftE (hex_decode (AppVK results))) (ZkProverError ''failed to decode AppVK hex'')) (\<lambda>appVKBytes.
     bindIO (orElse (liftE (hex_decode (ProofHex results))) (ZkProverError ''failed to decode Proof hex'')) (\<lambda>proofBytes.
       returnIO (appVKBytes, proofBytes)))))"

text \<open>The part inside the temporary directory: the result, and the error if any.\<close>

definition verify_in :: "os_env \<Rightarrow> string \<Rightarrow> bytes \<Rightarrow> bytes \<Rightarrow> world
    \<Rightarrow> (verification_result \<times> string option) \<times> world" where
  "verify_in S tmpDir appVKBytes proofBytes w =
     (let appVKPath = path_join tmpDir ''app.vk''; proofPath = path_join tmpDir ''proof.app.proof'' in
      case writeFileOS S appVKPath appVKBytes w of
        (Inl (Err e), w1) \<Rightarrow> ((no_result, Some (ZkProverError ''failed to write app.vk file'' e)), w1)
      | (_, w1) \<Rightarrow>
          (case writeFileOS S proofPath proofBytes w1 of
             (Inl (Err e), w2) \<Rightarrow> ((no_result, Some (ZkProverError ''failed to write proof file'' e)), w2)
           | (_, w2) \<Rightarrow>
               (case Cli_Execute S tmpDir [''cargo'', ''openvm'', ''verify'', ''app'', ''--app-vk'', appVKPath,
                   ''--proof'', proofPath] w2 of
                  ((out, None), w3) \<Rightarrow> ((\<lparr>vrStdout = out, Valid = True\<rparr>, None), w3)
                | ((out, Some e), w3) \<Rightarrow>
                    ((\<lparr>vrStdout = out, Valid = False\<rparr>, Some (ZkProverError ''verification failed'' e)), w3))))"

text \<open>\<open>os.RemoveAll\<close>\<close>

definition removeAll :: "string \<Rightarrow> world \<Rightarrow> world" where
  "removeAll dir w =
     w\<lparr>files := (\<lambda>p. if p = dir \<or> has_prefix (path_join dir []) p then None else files w p)\<rparr>"

definition VerifyFromResults :: "os_env \<Rightarrow> (bytes \<Rightarrow> string + results_file) \<Rightarrow> string
    \<Rightarrow> world \<Rightarrow> (verification_result \<times> string option) \<times> world" where
  "VerifyFromResults S unmarshal resultsPath w =
     (case bindIO (verify_input unmarshal resultsPath) (\<lambda>(vk, proof).
          bindIO (orElse (mkdirTemp S ''openvm-verify-*'') (ZkProverError ''failed to create temp directory''))
            (\<lambda>tmpDir. returnIO (tmpDir, vk, proof))) w of
        (Inl (Err e), w1) \<Rightarrow> ((no_result, Some e), w1)
      | (Inl (Panic e), w1) \<Rightarrow> ((no_result, Some e), w1)
      | (Inr (tmpDir, vk, proof), w1) \<Rightarrow>
          (case verify_in S tmpDir vk proof w1 of (r, w2) \<Rightarrow> (r, removeAll tmpDir w2)))"

end
