(* ===== verification/MockState.thy ===== *)
theory MockState
  imports External
begin

text \<open>
  The in-memory state database of the test tracer (\<open>tracer/mock_state_db.go\<close>) and the empty state
  reader under the EVM (\<open>tracer/tracer.go\<close>, lines 49-77). The locale \<open>keyed_store\<close> is what a client
  of such a database relies on: a read gives the last write to its key. The four tables of the mock
  state interpret it.
\<close>

section \<open>The state reader\<close>

text \<open>An account as the reader makes it: empty. Code and storage do not exist.\<close>

record account =
  accNonce :: u64
  accBalance :: u256

definition empty_account :: account where
  "empty_account = \<lparr>accNonce = 0, accBalance = 0\<rparr>"

definition ReadAccountData :: "address \<Rightarrow> account option result" where
  "ReadAccountData a = Inr (Some empty_account)"

definition ReadAccountDataForDebug :: "address \<Rightarrow> account option result" where
  "ReadAccountDataForDebug a = Inr (Some empty_account)"

definition ReadAccountStorage :: "address \<Rightarrow> bytes \<Rightarrow> (u256 \<times> bool) result" where
  "ReadAccountStorage a key = Inr (0, False)"

definition HasStorage :: "address \<Rightarrow> bool result" where
  "HasStorage a = Inr False"

definition ReadAccountCode :: "address \<Rightarrow> bytes option result" where
  "ReadAccountCode a = Inr None"

definition ReadAccountCodeSize :: "address \<Rightarrow> nat result" where
  "ReadAccountCodeSize a = Inr 0"

definition ReadAccountIncarnation :: "address \<Rightarrow> u64 result" where
  "ReadAccountIncarnation a = Inr 0"

section \<open>The mock state\<close>

record mock_state =
  balances :: "address \<rightharpoonup> u256"
  storage :: "address \<rightharpoonup> (bytes \<rightharpoonup> u256)"
  codes :: "address \<rightharpoonup> bytes"
  nonces :: "address \<rightharpoonup> u64"

definition NewMockState :: mock_state where
  "NewMockState = \<lparr>balances = Map.empty, storage = Map.empty, codes = Map.empty, nonces = Map.empty\<rparr>"

definition GetBalance :: "mock_state \<Rightarrow> address \<Rightarrow> u256" where
  "GetBalance s addr = (case balances s addr of Some b \<Rightarrow> b | None \<Rightarrow> 0)"

definition AddBalance :: "address \<Rightarrow> u256 \<Rightarrow> mock_state \<Rightarrow> mock_state" where
  "AddBalance addr amount s = s\<lparr>balances := (balances s)(addr \<mapsto> GetBalance s addr + amount)\<rparr>"

definition SubBalance :: "address \<Rightarrow> u256 \<Rightarrow> mock_state \<Rightarrow> mock_state" where
  "SubBalance addr amount s = s\<lparr>balances := (balances s)(addr \<mapsto> GetBalance s addr - amount)\<rparr>"

definition GetState :: "mock_state \<Rightarrow> address \<Rightarrow> bytes \<Rightarrow> u256" where
  "GetState s addr key =
     (case storage s addr of
        None \<Rightarrow> 0
      | Some st \<Rightarrow> (case st key of None \<Rightarrow> 0 | Some v \<Rightarrow> v))"

definition SetState :: "address \<Rightarrow> bytes \<Rightarrow> u256 \<Rightarrow> mock_state \<Rightarrow> mock_state" where
  "SetState addr key value s =
     (let st = (case storage s addr of None \<Rightarrow> Map.empty | Some st \<Rightarrow> st)
      in s\<lparr>storage := (storage s)(addr \<mapsto> st(key \<mapsto> value))\<rparr>)"

definition GetCode :: "mock_state \<Rightarrow> address \<Rightarrow> bytes" where
  "GetCode s addr = (case codes s addr of Some c \<Rightarrow> c | None \<Rightarrow> [])"

definition SetCode :: "address \<Rightarrow> bytes \<Rightarrow> mock_state \<Rightarrow> mock_state" where
  "SetCode addr code s = s\<lparr>codes := (codes s)(addr \<mapsto> code)\<rparr>"

definition GetNonce :: "mock_state \<Rightarrow> address \<Rightarrow> u64" where
  "GetNonce s addr = (case nonces s addr of Some n \<Rightarrow> n | None \<Rightarrow> 0)"

definition SetNonce :: "address \<Rightarrow> u64 \<Rightarrow> mock_state \<Rightarrow> mock_state" where
  "SetNonce addr nonce s = s\<lparr>nonces := (nonces s)(addr \<mapsto> nonce)\<rparr>"

definition CreateAccount :: "address \<Rightarrow> mock_state \<Rightarrow> mock_state" where
  "CreateAccount addr s =
     s\<lparr>balances := (balances s)(addr \<mapsto> 0), nonces := (nonces s)(addr \<mapsto> 0)\<rparr>"

definition SetupContract :: "address \<Rightarrow> bytes \<Rightarrow> u256 option \<Rightarrow> mock_state \<Rightarrow> mock_state" where
  "SetupContract addr code balance s =
     (let s1 = SetCode addr code (CreateAccount addr s) in
      case balance of None \<Rightarrow> s1 | Some b \<Rightarrow> AddBalance addr b s1)"

text \<open>The minimal implementations of the rest of the interface that carry a value.\<close>

definition GetCodeHash :: "mock_state \<Rightarrow> address \<Rightarrow> bytes" where
  "GetCodeHash s addr = replicate 32 0"

definition GetCodeSize :: "mock_state \<Rightarrow> address \<Rightarrow> nat" where
  "GetCodeSize s addr = length (GetCode s addr)"

definition GetCommittedState :: "mock_state \<Rightarrow> address \<Rightarrow> bytes \<Rightarrow> u256" where
  "GetCommittedState s addr key = GetState s addr key"

definition GetTransientState :: "mock_state \<Rightarrow> address \<Rightarrow> bytes \<Rightarrow> u256" where
  "GetTransientState s addr key = 0"

definition SetTransientState :: "address \<Rightarrow> bytes \<Rightarrow> u256 \<Rightarrow> mock_state \<Rightarrow> mock_state" where
  "SetTransientState addr key value s = s"

definition Snapshot :: "mock_state \<Rightarrow> int" where
  "Snapshot s = 0"

definition RevertToSnapshot :: "int \<Rightarrow> mock_state \<Rightarrow> mock_state" where
  "RevertToSnapshot k s = s"

definition Selfdestruct :: "address \<Rightarrow> mock_state \<Rightarrow> bool \<times> mock_state" where
  "Selfdestruct addr s = (False, s)"

text \<open>The rest of the interface: constant answers, and operations that do nothing.\<close>

definition Exist :: "mock_state \<Rightarrow> address \<Rightarrow> bool" where
  "Exist s addr = True"

definition Empty :: "mock_state \<Rightarrow> address \<Rightarrow> bool" where
  "Empty s addr = False"

definition AddRefund :: "u64 \<Rightarrow> mock_state \<Rightarrow> mock_state" where
  "AddRefund n s = s"

definition SubRefund :: "u64 \<Rightarrow> mock_state \<Rightarrow> mock_state" where
  "SubRefund n s = s"

definition GetRefund :: "mock_state \<Rightarrow> u64" where
  "GetRefund s = 0"

definition HasSelfdestructed :: "mock_state \<Rightarrow> address \<Rightarrow> bool" where
  "HasSelfdestructed s addr = False"

definition Selfdestruct6780 :: "address \<Rightarrow> mock_state \<Rightarrow> mock_state" where
  "Selfdestruct6780 addr s = s"

definition AddAddressToAccessList :: "address \<Rightarrow> mock_state \<Rightarrow> bool \<times> mock_state" where
  "AddAddressToAccessList addr s = (False, s)"

definition AddSlotToAccessList :: "address \<Rightarrow> bytes \<Rightarrow> mock_state \<Rightarrow> (bool \<times> bool) \<times> mock_state" where
  "AddSlotToAccessList addr slot s = ((False, False), s)"

definition AddressInAccessList :: "mock_state \<Rightarrow> address \<Rightarrow> bool" where
  "AddressInAccessList s addr = True"

definition ResolveCodeHash :: "mock_state \<Rightarrow> address \<Rightarrow> bytes" where
  "ResolveCodeHash s addr = GetCodeHash s addr"

definition ResolveCode :: "mock_state \<Rightarrow> address \<Rightarrow> bytes" where
  "ResolveCode s addr = GetCode s addr"

definition GetDelegatedDesignation :: "mock_state \<Rightarrow> address \<Rightarrow> address \<times> bool" where
  "GetDelegatedDesignation s addr = (replicate 20 0, False)"

section \<open>Tables\<close>

locale keyed_store =
  fixes get :: "'s \<Rightarrow> 'k \<Rightarrow> 'v"
    and put :: "'k \<Rightarrow> 'v \<Rightarrow> 's \<Rightarrow> 's"
  assumes get_put: "get (put k v s) k = v"
    and get_put_other: "k' \<noteq> k \<Longrightarrow> get (put k v s) k' = get s k'"
begin

fun puts :: "('k \<times> 'v) list \<Rightarrow> 's \<Rightarrow> 's" where
  "puts [] s = s"
| "puts ((k, v) # kvs) s = puts kvs (put k v s)"

text \<open>After any writes a key has the value last written to it, or its old one.\<close>

lemma get_puts: "get (puts kvs s) k = (case map_of (rev kvs) k of Some v \<Rightarrow> v | None \<Rightarrow> get s k)"
  by (induction kvs arbitrary: s) (auto simp: get_put get_put_other map_add_def split: option.split)

lemma get_puts_fresh: "k \<notin> fst ` set kvs \<Longrightarrow> get (puts kvs s) k = get s k"
  by (induction kvs arbitrary: s) (auto simp: get_put_other)

end

interpretation cells: keyed_store "\<lambda>s k. GetState s (fst k) (snd k)" "\<lambda>k. SetState (fst k) (snd k)"
  by unfold_locales (auto simp: GetState_def SetState_def Let_def split: option.split)

interpretation code_table: keyed_store GetCode SetCode
  by unfold_locales (simp_all add: GetCode_def SetCode_def)

interpretation nonce_table: keyed_store GetNonce SetNonce
  by unfold_locales (simp_all add: GetNonce_def SetNonce_def)

text \<open>Balances: adding to an account's balance, the amount being the key's difference.\<close>

interpretation balance_table: keyed_store GetBalance "\<lambda>a v s. AddBalance a (v - GetBalance s a) s"
  by unfold_locales (simp_all add: GetBalance_def AddBalance_def)

text \<open>The tables do not share anything.\<close>

lemma tables_apart [simp]:
  "GetCode (SetState a k v s) = GetCode s" "GetNonce (SetState a k v s) = GetNonce s"
  "GetBalance (SetState a k v s) = GetBalance s" "GetState (SetCode a c s) = GetState s"
  "GetNonce (SetCode a c s) = GetNonce s" "GetBalance (SetCode a c s) = GetBalance s"
  "GetState (AddBalance a b s) = GetState s" "GetCode (AddBalance a b s) = GetCode s"
  "GetNonce (AddBalance a b s) = GetNonce s" "GetState (CreateAccount a s) = GetState s"
  "GetCode (CreateAccount a s) = GetCode s"
  by (simp_all add: fun_eq_iff GetCode_def GetState_def GetNonce_def GetBalance_def SetState_def SetCode_def
      AddBalance_def CreateAccount_def Let_def)

section \<open>Sequences of operations\<close>

definition set_cells :: "((address \<times> bytes) \<times> u256) list \<Rightarrow> mock_state \<Rightarrow> mock_state" where
  "set_cells ws s = fold (\<lambda>((a, k), v). SetState a k v) ws s"

lemma set_cells_puts: "set_cells ws s = cells.puts ws s"
  by (induction ws arbitrary: s) (auto simp: set_cells_def)

lemma set_cells_apart:
  "GetCode (set_cells ws s) = GetCode s \<and> GetNonce (set_cells ws s) = GetNonce s \<and>
   GetBalance (set_cells ws s) = GetBalance s"
  by (induction ws arbitrary: s) (auto simp: set_cells_def)

text \<open>
  The mock state is a faithful store: after any sequence of storage writes a cell reads as the
  value last written to that address and key, as its old value when none was, and no write changes
  code, nonces or balances.
\<close>

theorem storage_reads_last_write:
  "GetState (set_cells ws s) a k =
     (case map_of (rev ws) (a, k) of Some v \<Rightarrow> v | None \<Rightarrow> GetState s a k) \<and>
   GetCode (set_cells ws s) = GetCode s \<and> GetNonce (set_cells ws s) = GetNonce s \<and>
   GetBalance (set_cells ws s) = GetBalance s"
  using cells.get_puts[of ws s "(a, k)"] set_cells_apart[of ws s]
  by (simp only: set_cells_puts fst_conv snd_conv)

text \<open>A deployed contract: its code, a zero nonce, the balance handed over, its old storage.\<close>

lemma SetupContract_effect:
  "GetCode (SetupContract a code b s) a = code" "GetNonce (SetupContract a code b s) a = 0"
  "GetBalance (SetupContract a code b s) a = (case b of None \<Rightarrow> 0 | Some v \<Rightarrow> v)"
  "GetState (SetupContract a code b s) = GetState s"
  by (simp_all add: SetupContract_def Let_def CreateAccount_def GetNonce_def GetBalance_def AddBalance_def
      SetCode_def GetCode_def GetState_def fun_eq_iff split: option.split)

text \<open>Balances count modulo the word size, so taking back what was added restores the balance.\<close>

lemma balance_round_trip: "GetBalance (SubBalance a x (AddBalance a x s)) b = GetBalance s b"
  by (simp add: SubBalance_def AddBalance_def GetBalance_def)

end
