(* ===== verification/Harness.thy ===== *)
theory Harness
  imports MockState Tracer Transpiler
begin

text \<open>
  The test harness: \<open>SimpleTracer\<close> (\<open>tracer/tracer.go\<close>, lines 203-292), which runs one contract on
  an in-memory EVM with the state tracer's hooks, and \<open>TestRunner\<close> (\<open>transpiler/test_runner.go\<close>),
  which transpiles what it recorded. \<open>evm-prove\<close> uses it too. Erigon's EVM with its state
  database is a parameter: what setting up accounts does to it, and which hooks a call fires.
\<close>

section \<open>The EVM\<close>

text \<open>The outcome of \<open>EVM.Call\<close>: the hooks fired, the gas left and the error's text.\<close>

record 'e evm_lib =
  EvmNew :: 'e
  EvmCreateAccount :: "address \<Rightarrow> 'e \<Rightarrow> 'e"
  EvmSetCode :: "address \<Rightarrow> bytes \<Rightarrow> 'e \<Rightarrow> 'e"
  EvmSetBalance :: "address \<Rightarrow> u256 \<Rightarrow> 'e \<Rightarrow> 'e"
  EvmCall :: "address \<Rightarrow> address \<Rightarrow> bytes \<Rightarrow> u64 \<Rightarrow> u256 \<Rightarrow> 'e \<Rightarrow> (hook_call list \<times> u64 \<times> string option) \<times> 'e"
  ErrExecutionReverted :: string

text \<open>\<open>libcommon.HexToAddress\<close> of a value: twenty bytes, big-endian.\<close>

definition to_address :: "nat \<Rightarrow> address" where
  "to_address n = be_bytes 20 n"

section \<open>The tracer of one contract\<close>

record 'e simple_tracer =
  stState :: mock_state
  stTracer :: state_tracer
  stEvm :: 'e

definition NewSimpleTracer :: "third_party \<Rightarrow> 'e evm_lib \<Rightarrow> 'e simple_tracer" where
  "NewSimpleTracer L E =
     \<lparr> stState = NewMockState,
       stTracer = setJumpTable (NewStateTracer\<lparr>blockTime := 1, chainId := Some (SetFromBig L 1337)\<rparr>),
       stEvm = EvmNew E \<rparr>"

definition DeployContract :: "'e evm_lib \<Rightarrow> address \<Rightarrow> bytes \<Rightarrow> u256 option \<Rightarrow> 'e simple_tracer
    \<Rightarrow> 'e simple_tracer" where
  "DeployContract E addr bytecode balance tr =
     (let e1 = EvmSetCode E addr bytecode (EvmCreateAccount E addr (stEvm tr));
          e2 = (case balance of
                  None \<Rightarrow> e1
                | Some b \<Rightarrow> if 0 < sint b then EvmSetBalance E addr b e1 else e1)
      in tr\<lparr>stEvm := e2\<rparr>)"

fun contains :: "string \<Rightarrow> string \<Rightarrow> bool" where
  "contains p [] \<longleftrightarrow> p = []"
| "contains p (c # cs) \<longleftrightarrow> take (length p) (c # cs) = p \<or> contains p cs"

text \<open>Reverts and invalid opcodes are not errors of the run.\<close>

definition swallow :: "'e evm_lib \<Rightarrow> string option \<Rightarrow> string option" where
  "swallow E err =
     (case err of
        None \<Rightarrow> None
      | Some e \<Rightarrow> if e = ErrExecutionReverted E \<or> contains ''invalid opcode:'' e then None else Some e)"

definition ExecuteContract :: "third_party \<Rightarrow> 'e evm_lib \<Rightarrow> address \<Rightarrow> bytes \<Rightarrow> u64 \<Rightarrow> u256 option
    \<Rightarrow> 'e simple_tracer
    \<Rightarrow> (evm_instruction_metadata list \<times> evm_execution_state option \<times> u64 \<times> string option) \<times> 'e simple_tracer" where
  "ExecuteContract L E contractAddr input gasLimit callValue tr =
     (let value = (case callValue of None \<Rightarrow> 0 | Some v \<Rightarrow> v);
          callerAddr = to_address 0xabcd;
          neededBalance = value + 1000000;
          e1 = EvmSetBalance E callerAddr neededBalance (stEvm tr);
          ((calls, gasLeft, err), e2) = EvmCall E callerAddr contractAddr input gasLimit value e1;
          t = trace_run L (stTracer tr) calls
      in ((evmInstructions t, executionState t, gasLimit - gasLeft, swallow E err),
          tr\<lparr>stTracer := t, stEvm := e2\<rparr>))"

definition GetStorageAt :: "'e simple_tracer \<Rightarrow> address \<Rightarrow> bytes \<Rightarrow> u256" where
  "GetStorageAt tr addr key = GetState (stState tr) addr key"

section \<open>The test runner\<close>

record test_config =
  cfgCallValue :: "u256 option"
  cfgCallData :: "bytes option"

record 'e test_runner =
  trProgram :: bytes
  trConfig :: test_config
  trRunner :: "'e simple_tracer"

definition CONTRACT_ADDRESS :: address where
  "CONTRACT_ADDRESS = to_address 0x1234567890123456789012345678901234567890"

definition NewTestRunner :: "third_party \<Rightarrow> 'e evm_lib \<Rightarrow> bytes \<Rightarrow> 'e test_runner" where
  "NewTestRunner L E program =
     \<lparr> trProgram = program, trConfig = \<lparr>cfgCallValue = Some 0, cfgCallData = None\<rparr>,
       trRunner = NewSimpleTracer L E \<rparr>"

definition NewTestRunnerWithConfig :: "third_party \<Rightarrow> 'e evm_lib \<Rightarrow> bytes \<Rightarrow> test_config \<Rightarrow> 'e test_runner" where
  "NewTestRunnerWithConfig L E program cfg =
     \<lparr> trProgram = program,
       trConfig = (if cfgCallValue cfg = None then cfg\<lparr>cfgCallValue := Some 0\<rparr> else cfg),
       trRunner = NewSimpleTracer L E \<rparr>"

definition Execute :: "third_party \<Rightarrow> 'e evm_lib \<Rightarrow> 'e test_runner \<Rightarrow> (assembly_file \<times> u256 list list) result" where
  "Execute L E t =
     (let runner = DeployContract E CONTRACT_ADDRESS (trProgram t) (Some 1000) (trRunner t);
          callData = (case cfgCallData (trConfig t) of None \<Rightarrow> [] | Some d \<Rightarrow> d);
          ((ins, st, _, err), _) =
            ExecuteContract L E CONTRACT_ADDRESS callData 100000 (cfgCallValue (trConfig t)) runner
      in case err of
           Some e \<Rightarrow> Inl (Err e)
         | None \<Rightarrow>
             bindR (ProcessExecution L ins st (EnableSnapshots NewTestTranspiler)) (\<lambda>(tr, snapshot).
               Inr (ToAssembly tr, snapshot)))"

definition TestRunner_DeployContract :: "'e evm_lib \<Rightarrow> address \<Rightarrow> bytes \<Rightarrow> 'e test_runner \<Rightarrow> 'e test_runner" where
  "TestRunner_DeployContract E contractAddr bytecode t =
     t\<lparr>trRunner := DeployContract E contractAddr bytecode (Some 1000) (trRunner t)\<rparr>"

end
