(* ===== verification/Commands.thy ===== *)
theory Commands
  imports Toolchain Block Harness
begin

text \<open>
  The command-line programs: \<open>tx-prove\<close>, \<open>block-prove\<close> after the traces are in, \<open>evm-prove\<close> and
  \<open>proof-verify\<close>. Each is a sequence of the steps modelled elsewhere with the operating system of
  Toolchain.thy; a returned error is the exit with status 1. Encoding to JSON and the text of a time
  are parameters; what is printed to the terminal is left out. Connecting to the node and command
  line parsing are Erigon's and cobra's.
\<close>

section \<open>Common steps\<close>

text \<open>A computation without effects, and a step whose error is only printed.\<close>

definition liftR :: "'a result \<Rightarrow> 'a io" where
  "liftR r w = (r, w)"

definition attempt :: "'a io \<Rightarrow> unit io" where
  "attempt m w = (Inr (), snd (m w))"

lemma liftR_Inr: "liftR r w = (Inr x, w') \<longleftrightarrow> r = Inr x \<and> w' = w"
  by (auto simp: liftR_def)

lemma attempt_Inr: "attempt m w = (Inr u, w') \<longleftrightarrow> w' = snd (m w)"
  by (auto simp: attempt_def)

text \<open>The bytes of an ASCII text: \<open>[]byte(content)\<close>.\<close>

definition text_bytes :: "string \<Rightarrow> bytes" where
  "text_bytes s = map of_char s"

text \<open>Encoders: the debug mappings, the results file and the block's result.\<close>

record block_result =
  brBlockNumber :: u64
  brTransactionCount :: nat
  brTransactions :: "proof_result list"
  brTotalEvmInstructions :: nat
  brEstimatedTranspiledInstructions :: int
  brBlockFetchTimeMs :: int
  brTxFetchTimeMs :: int
  brTranspileTimeMs :: int
  brAssemblyTimeMs :: int
  brProofTimeMs :: int
  brProofBuildTimeMs :: int
  brProofKeygenTimeMs :: int
  brProofSetupTimeMs :: int
  brProofProveTimeMs :: int
  brProofReadTimeMs :: int
  brTotalTimeMs :: int
  brAppVK :: string
  brProof :: string
  brTimestamp :: string

record encoders =
  json_mappings :: "evm_to_riscv_mapping list \<Rightarrow> bytes"
  json_results :: "results_file \<Rightarrow> bytes"
  json_block :: "block_result \<Rightarrow> bytes"
  rfc3339 :: "int \<Rightarrow> string"

definition SaveDebugMappings :: "os_env \<Rightarrow> encoders \<Rightarrow> string \<Rightarrow> transpiler \<Rightarrow> unit io" where
  "SaveDebugMappings S J filename tr = writeFileOS S filename (json_mappings J (debugMappings tr))"

section \<open>tx-prove\<close>

record tx_flags =
  debugMode :: bool
  debugAssembly :: bool
  skipProving :: bool
  assemblyFile :: string

text \<open>What the tracer's result callback does with the finished tracer.\<close>

definition tx_results :: "third_party \<Rightarrow> os_env \<Rightarrow> encoders \<Rightarrow> string \<Rightarrow> tx_flags \<Rightarrow> state_tracer \<Rightarrow> results_file io" where
  "tx_results L S J libFile fl t =
     bindIO (liftR (ProcessExecution L (evmInstructions t) (executionState t) NewTranspiler)) (\<lambda>(tr, _).
     bindIO (liftR (ToToolChainCompatibleAssembly L libFile (ToAssembly tr))) (\<lambda>content.
     bindIO (if debugMode fl then attempt (SaveDebugMappings S J ''debug_mappings.json'' tr) else returnIO ()) (\<lambda>_.
     bindIO (if debugAssembly fl then attempt (writeFileOS S (assemblyFile fl) (text_bytes content)) else returnIO ()) (\<lambda>_.
       if skipProving fl then returnIO \<lparr>AppVK = ''skipped'', ProofHex = ''skipped''\<rparr>
       else bindIO (Prove S (text_bytes content)) (\<lambda>output.
         returnIO \<lparr>AppVK = hex_encode (pgAppVK output), ProofHex = hex_encode (pgProof output)\<rparr>)))))"

text \<open>
  The tracer that \<open>NewTracerHooks\<close> registers: Erigon drives a fresh state tracer with the hooks of
  the transaction and asks for the result at the end.
\<close>

definition NewTracerHooks :: "third_party \<Rightarrow> encoders \<Rightarrow> (state_tracer \<Rightarrow> results_file io) \<Rightarrow> hook_call list \<Rightarrow> bytes io" where
  "NewTracerHooks L J createResults calls =
     bindIO (createResults (trace_run L NewStateTracer calls)) (\<lambda>results. returnIO (json_results J results))"

section \<open>block-prove\<close>

record block_flags =
  bfBlockNum :: u64
  bfDebugAssembly :: bool
  bfAssemblyFile :: string
  bfDebugMode :: bool
  bfSkipProof :: bool
  bfUseStarkProof :: bool

definition mappings_file :: "u64 \<Rightarrow> string" where
  "mappings_file n = ''debug_mappings_block_'' @ show_nat (unat n) @ ''.json''"

definition no_proof :: proof_generation where
  "no_proof =
     \<lparr> pgProof = [], pgAppVK = [], pgStdout = [],
       pgTiming = \<lparr>BuildTimeMs = 0, KeygenTimeMs = 0, SetupTimeMs = 0, ProveTimeMs = 0, ReadTimeMs = 0, TotalTimeMs = 0\<rparr>,
       EstimatedInstructions = 0 \<rparr>"

text \<open>The proof of the block and the time it took; a failed proof saves the debug mappings first.\<close>

definition prove_block :: "os_env \<Rightarrow> encoders \<Rightarrow> block_flags \<Rightarrow> transpiler \<Rightarrow> string \<Rightarrow> (proof_generation \<times> int) io" where
  "prove_block S J fl tr content =
     (if bfSkipProof fl then
        bindIO (if bfDebugMode fl then attempt (SaveDebugMappings S J (mappings_file (bfBlockNum fl)) tr) else returnIO ())
          (\<lambda>_. returnIO (no_proof, 0))
      else
        bindIO (now S) (\<lambda>proveStart w.
          (case (if bfUseStarkProof fl then StarkProve S (text_bytes content) else Prove S (text_bytes content)) w of
             (Inr output, w1) \<Rightarrow> bindIO (now S) (\<lambda>proveEnd. returnIO (output, proveEnd - proveStart)) w1
           | (Inl e, w1) \<Rightarrow>
               bindIO (now S) (\<lambda>_.
               bindIO (attempt (SaveDebugMappings S J (mappings_file (bfBlockNum fl)) tr)) (\<lambda>_ w2.
                 (case e of
                    Err m \<Rightarrow> (Inl (Err (''failed to prove block: '' @ m)), w2)
                  | Panic m \<Rightarrow> (Inl (Panic m), w2)))) w1)))"

definition block_report :: "block_flags \<Rightarrow> proof_result list \<Rightarrow> proof_generation \<Rightarrow> int \<Rightarrow> int \<Rightarrow> int \<Rightarrow> int \<Rightarrow> int
    \<Rightarrow> string \<Rightarrow> block_result" where
  "block_report fl prs output blockFetchTime txFetchTime transpileTime assemblyTime proveTime timestamp =
     \<lparr> brBlockNumber = bfBlockNum fl, brTransactionCount = length prs, brTransactions = prs,
       brTotalEvmInstructions = total_evm_instructions prs,
       brEstimatedTranspiledInstructions = EstimatedInstructions output,
       brBlockFetchTimeMs = milliseconds blockFetchTime, brTxFetchTimeMs = milliseconds txFetchTime,
       brTranspileTimeMs = milliseconds transpileTime, brAssemblyTimeMs = milliseconds assemblyTime,
       brProofTimeMs = milliseconds proveTime,
       brProofBuildTimeMs = BuildTimeMs (pgTiming output), brProofKeygenTimeMs = KeygenTimeMs (pgTiming output),
       brProofSetupTimeMs = SetupTimeMs (pgTiming output), brProofProveTimeMs = ProveTimeMs (pgTiming output),
       brProofReadTimeMs = ReadTimeMs (pgTiming output),
       brTotalTimeMs = milliseconds (blockFetchTime + txFetchTime + transpileTime + assemblyTime + proveTime),
       brAppVK = hex_encode (pgAppVK output), brProof = hex_encode (pgProof output), brTimestamp = timestamp \<rparr>"

text \<open>
  \<open>processBlockAsUnit\<close> from the point where all goroutines are done: their results and the time they
  took are arguments. The result file is written last; failing to write it is only printed.
\<close>

definition process_traced_block :: "third_party \<Rightarrow> erigon \<Rightarrow> os_env \<Rightarrow> encoders \<Rightarrow> string \<Rightarrow> block_flags
    \<Rightarrow> int \<Rightarrow> int \<Rightarrow> trace_result list \<Rightarrow> block_result io" where
  "process_traced_block L E S J libFile fl blockFetchTime txFetchTime rs =
     bindIO (now S) (\<lambda>transpileStart.
     bindIO (liftR (process_results L E (length rs) 0 rs (NewTranspiler, []))) (\<lambda>(tr, prs).
     bindIO (now S) (\<lambda>transpileEnd.
     bindIO (now S) (\<lambda>assemblyStart.
     bindIO (liftR (ToToolChainCompatibleAssembly L libFile (ToAssembly tr))) (\<lambda>content.
     bindIO (now S) (\<lambda>assemblyEnd.
     bindIO (if bfDebugAssembly fl then attempt (writeFileOS S (bfAssemblyFile fl) (text_bytes content)) else returnIO ()) (\<lambda>_.
     bindIO (prove_block S J fl tr content) (\<lambda>(output, proveTime).
     bindIO (now S) (\<lambda>stamp.
       (let r = block_report fl prs output blockFetchTime txFetchTime (transpileEnd - transpileStart)
              (assemblyEnd - assemblyStart) proveTime (rfc3339 J stamp)
        in bindIO (attempt (writeFileOS S (''block_'' @ show_nat (unat (bfBlockNum fl)) @ ''.json'') (json_block J r)))
             (\<lambda>_. returnIO r)))))))))))"

section \<open>evm-prove and proof-verify\<close>

definition trim_prefix :: "string \<Rightarrow> string \<Rightarrow> string" where
  "trim_prefix p s = (if has_prefix p s then drop (length p) s else s)"

definition evm_prove :: "third_party \<Rightarrow> 'e evm_lib \<Rightarrow> os_env \<Rightarrow> string \<Rightarrow> string \<Rightarrow> string \<Rightarrow> string \<Rightarrow> unit io" where
  "evm_prove L E S libFile bytecodeArg calldataArg outputFile =
     (let bytecodeHex = trim_prefix ''0x'' bytecodeArg; calldataHex = trim_prefix ''0x'' calldataArg in
      bindIO (liftE (hex_decode bytecodeHex)) (\<lambda>bytecode.
      bindIO (if calldataHex \<noteq> [] then bindIO (liftE (hex_decode calldataHex)) (\<lambda>d. returnIO (Some d))
              else returnIO None) (\<lambda>calldata.
      bindIO (liftR (Execute L E (NewTestRunnerWithConfig L E bytecode
                 \<lparr>cfgCallValue = Some 0, cfgCallData = calldata\<rparr>))) (\<lambda>(assembly, _).
      bindIO (liftR (ToToolChainCompatibleAssembly L libFile assembly)) (\<lambda>content.
      bindIO (Prove S (text_bytes content)) (\<lambda>output.
      bindIO (attempt (writeFileOS S (outputFile @ ''.proof'') (pgProof output))) (\<lambda>_.
        attempt (writeFileOS S (outputFile @ ''.vk'') (pgAppVK output)))))))))"

definition proof_verify :: "os_env \<Rightarrow> (bytes \<Rightarrow> string + results_file) \<Rightarrow> string \<Rightarrow> unit io" where
  "proof_verify S unmarshal resultsFile w =
     (case VerifyFromResults S unmarshal resultsFile w of
        ((r, Some e), w') \<Rightarrow> (Inl (Err e), w')
      | ((r, None), w') \<Rightarrow> (Inr (), w'))"

end
