(* ===== verification/ToolchainProps.thy ===== *)
theory ToolchainProps
  imports Toolchain
begin

text \<open>
  Properties of the tool chain driver: which commands a proof takes and what it returns, and the
  way of a proof through a results file to the verifier.
\<close>

section \<open>Single operations\<close>

lemma execute_Inr:
  assumes "execute S ws args w = (Inr out, w')"
  shows "\<exists>err_out fs. args \<noteq> [] \<and> Spawn S \<lparr>cwd = ws, argv = args\<rparr> (files w) = ((out, err_out, None), fs) \<and>
    w' = w\<lparr>files := fs, issued := issued w @ [\<lparr>cwd = ws, argv = args\<rparr>]\<rparr>"
  using assms by (auto simp: execute_def Cli_Execute_def Let_def split: if_splits option.splits prod.splits)

lemma now_Inr: "now S w = (Inr t, w') \<longleftrightarrow> t = Clock S (readings w) \<and> w' = w\<lparr>readings := readings w + 1\<rparr>"
  by (auto simp: now_def)

lemma readFile_Inr: "readFileOS p w = (Inr c, w') \<longleftrightarrow> files w p = Some c \<and> w' = w"
  by (auto simp: readFileOS_def split: option.splits)

lemma writeFile_Inr:
  "writeFileOS S p c w = (Inr u, w') \<longleftrightarrow> WriteError S p = None \<and> w' = w\<lparr>files := (files w)(p \<mapsto> c)\<rparr>"
  by (auto simp: writeFileOS_def split: option.splits)

lemma mkdirTemp_Inr: "mkdirTemp S p w = (Inr d, w') \<longleftrightarrow> MkdirTemp S p w = Inr d \<and> w' = w"
  by (auto simp: mkdirTemp_def split: sum.splits)

lemma returnIO_Inr: "returnIO x w = (Inr y, w') \<longleftrightarrow> x = y \<and> w = w'"
  by (simp add: returnIO_def)

lemmas io_Inr = bindIO_Inr now_Inr readFile_Inr writeFile_Inr mkdirTemp_Inr returnIO_Inr

text \<open>What an operation that only writes files keeps.\<close>

definition files_only :: "world \<Rightarrow> world \<Rightarrow> bool" where
  "files_only w w' \<longleftrightarrow> issued w' = issued w \<and> readings w' = readings w"

lemma extract_files_only:
  "extractEmbedFS S fsys d w = (Inr u, w') \<Longrightarrow> files_only w w'"
proof (induction S fsys d arbitrary: w rule: extractEmbedFS.induct)
  case (2 S p entry fsys dstDir)
  from 2(2) obtain w1 where "extractEmbedFS S fsys dstDir w1 = (Inr u, w')" "files_only w w1"
    by (auto simp: bindIO_Inr writeFile_Inr returnIO_Inr failIO_def files_only_def split: option.splits)
  with 2(1) show ?case by (fastforce simp: files_only_def)
qed (simp add: returnIO_def files_only_def)

text \<open>The embedded files under a directory; of two entries for a path the later one counts.\<close>

definition template :: "string \<Rightarrow> (string \<times> bytes option) list \<Rightarrow> files" where
  "template d fsys =
     map_of (rev (concat (map (\<lambda>(p, entry). case entry of None \<Rightarrow> [] | Some c \<Rightarrow> [(path_join d p, c)]) fsys)))"

lemma template_simps [simp]:
  "template d [] = Map.empty"
  "template d ((p, None) # fsys) = template d fsys"
  "fs ++ template d ((p, Some c) # fsys) = (fs(path_join d p \<mapsto> c)) ++ template d fsys"
  by (simp_all add: template_def fun_eq_iff map_add_def split: option.split)

lemma extract_template:
  "extractEmbedFS S fsys d w = (Inr u, w') \<Longrightarrow> files w' = files w ++ template d fsys"
proof (induction S fsys d arbitrary: w rule: extractEmbedFS.induct)
  case (2 S p entry fsys dstDir)
  then show ?case
    by (cases entry) (fastforce simp: bindIO_Inr writeFile_Inr returnIO_Inr failIO_def split: option.splits)+
qed (simp add: returnIO_def)

text \<open>
  The files of a workspace set up in \<open>tmp\<close>: those that were there, the embedded tool chain, and the
  program in its place.
\<close>

definition workspace_files :: "os_env \<Rightarrow> string \<Rightarrow> bytes \<Rightarrow> files \<Rightarrow> files" where
  "workspace_files S tmp content fs =
     (fs ++ template tmp (zkVMToolchain S))
       (path_join (path_join (path_join tmp ''openvm'') ''src'') ''risc.asm'' \<mapsto> content)"

lemma setupWorkspace_Inr:
  assumes "setupWorkspace S content w = (Inr ws, w')"
  shows "\<exists>tmp. MkdirTemp S ''zkvm-toolchain-*'' w = Inr tmp \<and> ws = path_join tmp ''openvm'' \<and>
    files w' = workspace_files S tmp content (files w) \<and> files_only w w'"
proof -
  from assms obtain tmp w1 where s: "MkdirTemp S ''zkvm-toolchain-*'' w = Inr tmp"
    "extractEmbedFS S (zkVMToolchain S) tmp w = (Inr (), w1)" "ws = path_join tmp ''openvm''"
    "w' = w1\<lparr>files := (files w1)(path_join (path_join ws ''src'') ''risc.asm'' \<mapsto> content)\<rparr>"
    by (auto simp: setupWorkspace_def io_Inr Let_def)
  with extract_files_only[OF s(2)] extract_template[OF s(2)] show ?thesis
    by (simp add: files_only_def workspace_files_def)
qed

definition cargo :: "string \<Rightarrow> string list \<Rightarrow> command" where
  "cargo ws args = \<lparr>cwd = ws, argv = ''cargo'' # ''openvm'' # args\<rparr>"

text \<open>A command that succeeds on some files, and the files it leaves.\<close>

definition succeeds_on :: "os_env \<Rightarrow> command \<Rightarrow> files \<Rightarrow> files \<Rightarrow> bool" where
  "succeeds_on S c fs fs' \<longleftrightarrow> (\<exists>out err. Spawn S c fs = ((out, err, None), fs'))"

lemma execute_cargo:
  assumes "execute S ws (''cargo'' # ''openvm'' # args) w = (Inr out, w')"
  shows "succeeds_on S (cargo ws args) (files w) (files w') \<and> issued w' = issued w @ [cargo ws args] \<and>
    readings w' = readings w"
  using execute_Inr[OF assms] by (auto simp: cargo_def succeeds_on_def)

lemma SetupExecution_Inr:
  assumes "SetupExecution S content w = (Inr (ws, timing), w')"
  shows "\<exists>tmp fs1. MkdirTemp S ''zkvm-toolchain-*'' w = Inr tmp \<and> ws = path_join tmp ''openvm'' \<and>
    succeeds_on S (cargo ws [''build'']) (workspace_files S tmp content (files w)) fs1 \<and>
    succeeds_on S (cargo ws [''keygen'']) fs1 (files w') \<and>
    issued w' = issued w @ [cargo ws [''build''], cargo ws [''keygen'']]"
proof -
  from assms obtain w1 w2 w3 out1 out2 where
    s: "setupWorkspace S content w = (Inr ws, w1)"
      "execute S ws [''cargo'', ''openvm'', ''build''] (w1\<lparr>readings := readings w1 + 1\<rparr>) = (Inr out1, w2)"
      "execute S ws [''cargo'', ''openvm'', ''keygen''] (w2\<lparr>readings := readings w2 + 1 + 1\<rparr>) = (Inr out2, w3)"
      "w' = w3\<lparr>readings := readings w3 + 1\<rparr>"
    by (auto simp: SetupExecution_def io_Inr)
  from setupWorkspace_Inr[OF s(1)] obtain tmp where
    "MkdirTemp S ''zkvm-toolchain-*'' w = Inr tmp" "ws = path_join tmp ''openvm''"
    "files w1 = workspace_files S tmp content (files w)" "files_only w w1" by blast
  with execute_cargo[OF s(2)] execute_cargo[OF s(3)] s(4)
  show ?thesis by (auto simp: files_only_def)
qed

lemma estimate_Inr:
  "getEstimatedInstructionCount S ws w = (Inr n, w') \<Longrightarrow>
   issued w' = issued w @
     [\<lparr>cwd = ws, argv = [''riscv64-unknown-elf-objdump'', ''-d'', ''target/riscv32im-risc0-zkvm-elf/release/prover'']\<rparr>] \<and> 0 \<le> n"
  by (auto simp: getEstimatedInstructionCount_def Cli_Execute_def Let_def split: if_splits option.splits prod.splits)

section \<open>A proof\<close>

text \<open>
  C35. A proof that succeeds was made by the tool chain on the program handed over: \<open>MkdirTemp\<close> made a
  new directory for it, which received the embedded tool chain and, as \<open>openvm/src/risc.asm\<close>,
  exactly this program, no other file having changed; there build, key generation and the prover
  ran in this order, each after the one before had succeeded, then only the instruction count;
  proof and verification key are the files the prover left there, and the count never makes the
  proof fail.
\<close>

theorem proof_comes_from_the_toolchain:
  assumes "Prove S content w = (Inr g, w')"
  shows "\<exists>tmp ws fs1 fs2 fs3.
    MkdirTemp S ''zkvm-toolchain-*'' (w\<lparr>readings := readings w + 1\<rparr>) = Inr tmp \<and> ws = path_join tmp ''openvm'' \<and>
    issued w' = issued w @ [cargo ws [''build''], cargo ws [''keygen''], cargo ws [''prove'', ''app''],
      \<lparr>cwd = ws, argv = [''riscv64-unknown-elf-objdump'', ''-d'', ''target/riscv32im-risc0-zkvm-elf/release/prover'']\<rparr>] \<and>
    succeeds_on S (cargo ws [''build''])
      ((files w ++ template tmp (zkVMToolchain S))(path_join (path_join ws ''src'') ''risc.asm'' \<mapsto> content)) fs1 \<and>
    succeeds_on S (cargo ws [''keygen'']) fs1 fs2 \<and> succeeds_on S (cargo ws [''prove'', ''app'']) fs2 fs3 \<and>
    fs3 (path_join ws ''prover.app.proof'') = Some (pgProof g) \<and>
    fs3 (path_join ws ''target/openvm/app.vk'') = Some (pgAppVK g) \<and> 0 \<le> EstimatedInstructions g"
proof -
  let ?w0 = "w\<lparr>readings := readings w + 1\<rparr>"
  from assms obtain ws timing w1 out w2 pf vk n w3 a b c where
    s: "SetupExecution S content ?w0 = (Inr (ws, timing), w1)"
      "execute S ws [''cargo'', ''openvm'', ''prove'', ''app''] (w1\<lparr>readings := readings w1 + 1 + 1\<rparr>) = (Inr out, w2)"
      "files w2 (path_join ws ''prover.app.proof'') = Some pf"
      "files w2 (path_join ws ''target/openvm/app.vk'') = Some vk"
      "getEstimatedInstructionCount S ws (w2\<lparr>readings := readings w2 + 1 + 1\<rparr>) = (Inr n, w3)"
      "g = generation pf vk out timing a b c n" "w' = w3\<lparr>readings := readings w3 + 1\<rparr>"
    by (auto simp: Prove_def io_Inr Cli_readFile_def)
  from SetupExecution_Inr[OF s(1)] execute_cargo[OF s(2)] estimate_Inr[OF s(5)] s(3,4,6,7)
  show ?thesis by (fastforce simp: generation_def workspace_files_def)
qed

text \<open>A sample operating system: every command succeeds, the prover leaves a proof and a key.\<close>

definition demo_os :: os_env where
  "demo_os =
     \<lparr> MkdirTemp = (\<lambda>pattern w. Inr (''/tmp/'' @ pattern)), WriteError = (\<lambda>p. None),
       Spawn = (\<lambda>c fs. (([], [], None),
         if ''prove'' \<in> set (argv c)
         then fs(path_join (cwd c) ''prover.app.proof'' \<mapsto> [1, 2], path_join (cwd c) ''target/openvm/app.vk'' \<mapsto> [3])
         else fs)),
       Clock = (\<lambda>k. int k * 1500000),
       zkVMToolchain = [(''openvm'', None), (''openvm/src'', None), (''openvm/Cargo.toml'', Some [0x5b])] \<rparr>"

definition empty_world :: world where
  "empty_world = \<lparr>files = Map.empty, readings = 0, issued = []\<rparr>"

lemma demo_cargo:
  "execute demo_os ws (''cargo'' # ''openvm'' # args) w =
     (Inr [], w\<lparr>files := (if ''prove'' \<in> set args
        then (files w)(path_join ws ''prover.app.proof'' \<mapsto> [1, 2], path_join ws ''target/openvm/app.vk'' \<mapsto> [3])
        else files w), issued := issued w @ [cargo ws args]\<rparr>)"
  by (simp add: execute_def Cli_Execute_def demo_os_def cargo_def Let_def)

lemma demo_estimate:
  "getEstimatedInstructionCount demo_os ws w = (Inr 1, w\<lparr>issued := issued w @
     [\<lparr>cwd = ws, argv = [''riscv64-unknown-elf-objdump'', ''-d'', ''target/riscv32im-risc0-zkvm-elf/release/prover'']\<rparr>]\<rparr>)"
  by (simp add: getEstimatedInstructionCount_def Cli_Execute_def demo_os_def Let_def)

lemma demo_proves:
  "\<exists>g w'. Prove demo_os [7] empty_world = (Inr g, w') \<and> pgProof g = [1, 2] \<and> pgAppVK g = [3] \<and>
     SetupTimeMs (pgTiming g) = 7"
proof -
  have made: "\<exists>w1. setupWorkspace demo_os [7] w = (Inr ''/tmp/zkvm-toolchain-*/openvm'', w1) \<and> readings w1 = readings w" for w
    by (simp add: setupWorkspace_def bindIO_def orElse_def mkdirTemp_def writeFileOS_def returnIO_def
        demo_os_def path_join_def)
  obtain w1 where w1: "setupWorkspace demo_os [7] (empty_world\<lparr>readings := 1\<rparr>) =
      (Inr ''/tmp/zkvm-toolchain-*/openvm'', w1)" "readings w1 = 1"
    using made[of "empty_world\<lparr>readings := 1\<rparr>"] by auto
  have clock: "Clock demo_os k = int k * 1500000" for k by (simp add: demo_os_def)
  from w1 show ?thesis
    by (simp add: Prove_def SetupExecution_def bindIO_def orElse_def now_def demo_cargo returnIO_def
        Cli_readFile_def readFileOS_def empty_world_def path_join_def clock demo_estimate generation_def
        milliseconds_def)
qed

theorem proof_comes_from_the_toolchain_witness:
  "\<exists>g w' ws. Prove demo_os [7] empty_world = (Inr g, w') \<and> pgProof g = [1, 2] \<and> ws = ''/tmp/zkvm-toolchain-*/openvm'' \<and>
    take 3 (issued w') = [cargo ws [''build''], cargo ws [''keygen''], cargo ws [''prove'', ''app'']]"
proof -
  obtain g w' where g: "Prove demo_os [7] empty_world = (Inr g, w')" "pgProof g = [1, 2]"
    using demo_proves by blast
  moreover have "issued empty_world = []" by (simp add: empty_world_def)
  moreover have "MkdirTemp demo_os pattern w = Inr (''/tmp/'' @ pattern)" for pattern w by (simp add: demo_os_def)
  ultimately show ?thesis
    using proof_comes_from_the_toolchain[OF g(1)] by (fastforce simp: path_join_def)
qed

section \<open>Through a results file\<close>

lemma hex_val_digit [simp]: "n < 16 \<Longrightarrow> hex_val (digit n) = Some n"
  by (drule less_16_cases) (auto simp: hex_val_def digit_val_def digit_def)

lemma hex_round_trip: "hex_decode (hex_encode bs) = Inr bs"
proof (induction bs)
  case (Cons b bs)
  have "unat b < 256" using unsigned_less[of b] by simp
  then have "16 * (unat b div 16 mod 16) + unat b mod 16 = unat b"
    by (simp add: div_less_iff_less_mult mult_div_mod_eq)
  then have "word_of_nat (16 * (unat b div 16 mod 16) + unat b mod 16) = b"
    by simp
  moreover have "hex_pad 2 (unat b) = [digit (unat b div 16 mod 16), digit (unat b mod 16)]"
    by (simp add: numeral_2_eq_2)
  ultimately show ?case using Cons.IH by (simp add: hex_encode_def)
qed (simp add: hex_encode_def)

definition verify_command :: "string \<Rightarrow> command" where
  "verify_command tmp = cargo tmp [''verify'', ''app'', ''--app-vk'', path_join tmp ''app.vk'', ''--proof'',
     path_join tmp ''proof.app.proof'']"

text \<open>
  C34. A proof survives the results file: when the file holds key and proof as the provers write them,
  in hexadecimal, verification hands the verifier two files with exactly the original bytes, accepts
  precisely when the verifier does, and removes the two files it wrote with its temporary directory.
\<close>

theorem results_file_verifies_the_proof:
  assumes "files w path = Some data" and "path \<noteq> []"
    and "unmarshal data = Inr \<lparr>AppVK = hex_encode vk, ProofHex = hex_encode pf\<rparr>"
    and "MkdirTemp S ''openvm-verify-*'' w = Inr tmp"
    and "WriteError S (path_join tmp ''app.vk'') = None" and "WriteError S (path_join tmp ''proof.app.proof'') = None"
    and "VerifyFromResults S unmarshal path w = ((r, e), w')"
  shows "\<exists>fs. fs (path_join tmp ''app.vk'') = Some vk \<and> fs (path_join tmp ''proof.app.proof'') = Some pf \<and>
    issued w' = issued w @ [verify_command tmp] \<and>
    (Valid r \<longleftrightarrow> (\<exists>fs'. succeeds_on S (verify_command tmp) fs fs')) \<and> (e = None \<longleftrightarrow> Valid r) \<and>
    files w' (path_join tmp ''app.vk'') = None \<and> files w' (path_join tmp ''proof.app.proof'') = None"
proof -
  let ?fs = "(files w)(path_join tmp ''app.vk'' \<mapsto> vk, path_join tmp ''proof.app.proof'' \<mapsto> pf)"
  have differ: "path_join tmp ''app.vk'' \<noteq> path_join tmp ''proof.app.proof''" by (simp add: path_join_def)
  have inside: "has_prefix (path_join tmp []) (path_join tmp f)" for f
    by (simp add: has_prefix_def path_join_def)
  have input: "verify_input unmarshal path w = (Inr (vk, pf), w)"
    using assms(1-3) by (simp add: verify_input_def bindIO_def orElse_def readFileOS_def liftE_def returnIO_def
        hex_round_trip)
  obtain out err res fs' where sp: "Spawn S (verify_command tmp) ?fs = ((out, err, res), fs')"
    by (metis prod.collapse)
  then have "VerifyFromResults S unmarshal path w =
      ((case res of
          None \<Rightarrow> (\<lparr>vrStdout = out, Valid = True\<rparr>, None)
        | Some e \<Rightarrow> (\<lparr>vrStdout = out, Valid = False\<rparr>, Some (ZkProverError ''verification failed''
            (if err \<noteq> [] then e @ '': stderr: '' @ err else e)))),
       removeAll tmp (w\<lparr>files := fs', issued := issued w @ [verify_command tmp]\<rparr>))"
    using input assms(4-6) differ
    by (simp add: VerifyFromResults_def bindIO_def orElse_def mkdirTemp_def returnIO_def verify_in_def
        writeFileOS_def Cli_Execute_def verify_command_def cargo_def Let_def split: option.split)
  with assms(7) sp inside differ show ?thesis
    by (intro exI[of _ ?fs])
      (auto simp: succeeds_on_def removeAll_def split: option.splits)
qed

theorem results_file_verifies_the_proof_witness:
  "\<exists>r w'. VerifyFromResults demo_os (\<lambda>d. Inr \<lparr>AppVK = hex_encode [3], ProofHex = hex_encode [1, 2]\<rparr>) ''results.json''
      (empty_world\<lparr>files := [''results.json'' \<mapsto> [0x7b]]\<rparr>) = ((r, None), w') \<and> Valid r"
proof -
  let ?w = "empty_world\<lparr>files := [''results.json'' \<mapsto> [0x7b]]\<rparr>"
    and ?u = "\<lambda>d. Inr \<lparr>AppVK = hex_encode [3], ProofHex = hex_encode [1, 2]\<rparr> :: string + results_file"
  obtain r e w' where v: "VerifyFromResults demo_os ?u ''results.json'' ?w = ((r, e), w')"
    by (metis prod.collapse)
  have ok: "succeeds_on demo_os c fs (snd (Spawn demo_os c fs))" for c fs
    by (simp add: succeeds_on_def demo_os_def)
  have "files ?w ''results.json'' = Some [0x7b]" by simp
  moreover have "MkdirTemp demo_os ''openvm-verify-*'' ?w = Inr ''/tmp/openvm-verify-*''"
    "WriteError demo_os p = None" for p by (simp_all add: demo_os_def)
  ultimately show ?thesis
    using results_file_verifies_the_proof[of ?w "''results.json''" "[0x7b]" ?u "[3]" "[1, 2]" demo_os, OF _ _ _ _ _ _ v] v ok
    by fastforce
qed

text \<open>A run with \<open>--skip-proving\<close> leaves a file that is not hexadecimal; verification refuses it.\<close>

lemma skipped_is_refused: "hex_decode ''skipped'' = Inl ''encoding/hex: invalid byte''"
  by (simp add: hex_val_def digit_val_def)

end
