(* ===== verification/BlockReplay.thy ===== *)
theory BlockReplay
  imports Block Saved ReplayProps
begin

text \<open>
  The program of a block as a machine run. \<open>block_low\<close> is what a block should do: replay each
  transaction on an empty stack and with nothing stored, and forget its stack before the next. The
  transpiler shares one code listing, one data section and one machine between the transactions;
  the properties show that the boundaries separate them, and that the printed wrapper gives the
  caller back its stack pointer and return address.
\<close>

section \<open>Boundaries\<close>

lemma boundary_code:
  "instructions (AddTransactionBoundary tr) = instructions tr @
     [instr ''mv'' [''sp'', ''s2''], instr ''mv'' [''s3'', ''s2''], EBREAK_instr]"
  "dataSection (AddTransactionBoundary tr) = dataSection tr"
  "config (AddTransactionBoundary tr) = config tr"
  "replay_of (AddTransactionBoundary tr) = fresh"
  by (simp_all add: AddTransactionBoundary_def resetStateForNextTransaction_def replay_of_def fresh_def
      NewStorageSection_def)

lemma boundary_inv:
  assumes "tr_inv L tr" shows "tr_inv L (AddTransactionBoundary tr)"
proof -
  have "code_ok ds [instr ''mv'' [''sp'', ''s2''], instr ''mv'' [''s3'', ''s2''], EBREAK_instr]" for ds
    by (simp add: code_ok_def decode_simps EBREAK_instr_def)
  with assms show ?thesis
    by (simp add: AddTransactionBoundary_def resetStateForNextTransaction_def tr_inv_def NewStorageSection_def)
qed

section \<open>The transactions of a block, one by one\<close>

lemma wrap_error_Inr [simp]: "wrap_error p r = Inr x \<longleftrightarrow> r = Inr x"
  by (auto simp: wrap_error_def split: sum.splits fail.splits)

text \<open>One successful step of the loop over the results.\<close>

lemma process_results_Cons:
  assumes "process_results L E n i (r # rs) (tr, prs) = Inr out" and "rError r = None"
  shows "\<exists>t sn prs'. ProcessExecution L (rInstructions r) (rState r) tr = Inr (t, sn) \<and>
    process_results L E n (i + 1) rs (if int i < int n - 1 then AddTransactionBoundary t else t, prs') = Inr out"
proof -
  from assms obtain t sn where "ProcessExecution L (rInstructions r) (rState r) tr = Inr (t, sn)"
    and "process_results L E n (i + 1) rs
      (if int i < int n - 1 then AddTransactionBoundary t else t,
       prs @ [\<lparr>TransactionHash = HashString E (rTxHash r), TransactionIndex = rTxIndex r + 1,
               InstructionCount = length (rInstructions r)\<rparr>]) = Inr out"
    by (simp add: case_prod_beta) (metis prod.collapse)
  then show ?thesis by blast
qed

lemma process_results_data:
  "process_results L E n i rs (tr, prs) = Inr (tr', prs') \<Longrightarrow>
   \<exists>vs. ds_values (dataSection tr') = ds_values (dataSection tr) @ vs"
proof (induction rs arbitrary: i tr prs)
  case (Cons r rs)
  show ?case
  proof (cases "rError r")
    case None
    from process_results_Cons[OF Cons.prems None] obtain t sn prs1
      where t: "ProcessExecution L (rInstructions r) (rState r) tr = Inr (t, sn)"
        "process_results L E n (i + 1) rs
          (if int i < int n - 1 then AddTransactionBoundary t else t, prs1) = Inr (tr', prs')" by blast
    from ProcessExecution_le[OF t(1)] Cons.IH[OF t(2)] show ?thesis
      by (auto simp: tr_le_def boundary_code split: if_splits)
  qed (use Cons in auto)
qed simp

lemma process_results_inv:
  "process_results L E n i rs (tr, prs) = Inr (tr', prs') \<Longrightarrow> tr_inv L tr \<Longrightarrow> production (config tr) \<Longrightarrow> tr_inv L tr'"
proof (induction rs arbitrary: i tr prs)
  case (Cons r rs)
  show ?case
  proof (cases "rError r")
    case None
    from process_results_Cons[OF Cons.prems(1) None] obtain t sn prs1
      where t: "ProcessExecution L (rInstructions r) (rState r) tr = Inr (t, sn)"
        "process_results L E n (i + 1) rs
          (if int i < int n - 1 then AddTransactionBoundary t else t, prs1) = Inr (tr', prs')" by blast
    have "tr_inv L t"
      using ProcessExecution_inv[OF t(1) Cons.prems(2)] production_mcopy[OF Cons.prems(3)]
      by (simp add: list_all_iff)
    moreover have "config t = config tr" using ProcessExecution_le[OF t(1)] by (simp add: tr_le_def)
    ultimately show ?thesis using Cons.IH[OF t(2)] Cons.prems(3) boundary_inv
      by (simp add: boundary_code split: if_splits)
  qed (use Cons in simp)
qed simp

definition replayed :: "third_party \<Rightarrow> nat \<Rightarrow> trace_result \<Rightarrow> u32 list option" where
  "replayed L cap r =
     low_ops cap (trace_plan L (rInstructions r) (rState r) [0..<length (rInstructions r)] fresh) []"

fun block_low :: "third_party \<Rightarrow> nat \<Rightarrow> trace_result list \<Rightarrow> u32 list option" where
  "block_low L cap [] = Some []"
| "block_low L cap (r # rs) =
     (if rError r \<noteq> None then block_low L cap rs
      else case replayed L cap r of
          None \<Rightarrow> None
        | Some ws \<Rightarrow> if rs = [] then Some ws else block_low L cap rs)"

lemma block_low_Cons:
  assumes "block_low L cap (r # rs) = Some ws" and "rError r = None"
  shows "\<exists>ws1. replayed L cap r = Some ws1 \<and> (rs = [] \<longrightarrow> ws = ws1) \<and>
    (rs \<noteq> [] \<longrightarrow> block_low L cap rs = Some ws)"
  using assms by (cases "replayed L cap r"; cases rs) simp_all

text \<open>What a block's program keeps from start to end.\<close>

definition kept :: "mach \<Rightarrow> mach \<Rightarrow> bool" where
  "kept m m' \<longleftrightarrow> get_reg m' S1 = get_reg m S1 \<and> get_reg m' S2 = get_reg m S2 \<and> get_reg m' RA = get_reg m RA"

lemma kept_refl [simp]: "kept m m"
  by (simp add: kept_def)

lemma kept_trans: "kept a b \<Longrightarrow> kept b c \<Longrightarrow> kept a c"
  by (simp add: kept_def)

lemma kept_saved: "same_saved m m' \<Longrightarrow> kept m m'"
  by (simp add: kept_def same_savedD)

lemma process_results_runs:
  assumes "process_results L E n i rs (tr, prs) = Inr (tr', prs')" and "n = i + length rs"
    and "tr_inv L tr" and "production (config tr)" and "replay_of tr = fresh"
    and "\<And>r. r \<in> set rs \<Longrightarrow> go_sized (rState r)" and "block_low L cap rs = Some ws"
    and "low_rel env (dataSection tr') lo cap [] m" and "unat (get_reg m S2) = lo + 32 * cap"
  shows "\<exists>code m'. instructions tr' = instructions tr @ code \<and> run_asm env code m = Some m' \<and>
    low_rel env (dataSection tr') lo cap ws m' \<and> kept m m'"
  using assms
proof (induction rs arbitrary: i tr prs m)
  case Nil
  then show ?case by simp
next
  case (Cons r rs)
  show ?case
  proof (cases "rError r")
    case (Some e)
    with Cons.prems Cons.IH[of "i + 1" tr prs m] show ?thesis by simp
  next
    case None
    from process_results_Cons[OF Cons.prems(1) None] obtain t sn prs1
      where t: "ProcessExecution L (rInstructions r) (rState r) tr = Inr (t, sn)"
        and rest: "process_results L E n (i + 1) rs
          (if int i < int n - 1 then AddTransactionBoundary t else t, prs1) = Inr (tr', prs')" by blast
    from block_low_Cons[OF Cons.prems(7) None] obtain ws1 where ws1: "replayed L cap r = Some ws1"
      "rs = [] \<longrightarrow> ws = ws1" "rs \<noteq> [] \<longrightarrow> block_low L cap rs = Some ws" by blast
    have pool: "pool_ok L (dataSection tr)" using Cons.prems(3) by (simp add: tr_inv_def)
    have t_inv: "tr_inv L t"
      using ProcessExecution_inv[OF t Cons.prems(3)] production_mcopy[OF Cons.prems(4)]
      by (simp add: list_all_iff)
    have t_cfg: "config t = config tr" using ProcessExecution_le[OF t] by (simp add: tr_le_def)
    obtain vs where vs: "ds_values (dataSection tr') = ds_values (dataSection t) @ vs"
      using process_results_data[OF rest] by (auto simp: boundary_code split: if_splits)
    have "emits_code L tr t (trace_plan L (rInstructions r) (rState r) [0..<length (rInstructions r)] fresh)"
      using process_emits[OF t Cons.prems(3,4)] Cons.prems(5,6) by simp
    from appended_runs[OF this pool vs ws1(1)[unfolded replayed_def] Cons.prems(8)] obtain code m1
      where c: "instructions t = instructions tr @ code" "run_asm env code m = Some m1"
        "low_rel env (dataSection tr') lo cap ws1 m1" "same_saved m m1" by blast
    show ?thesis
    proof (cases "rs = []")
      case True
      with Cons.prems(2) rest have "tr' = t" by simp
      with c ws1(2) True kept_saved show ?thesis by blast
    next
      case False
      have s2: "unat (get_reg m1 S2) = lo + 32 * cap" using same_savedD(2)[OF c(4)] Cons.prems(9) by simp
      let ?b = "[instr ''mv'' [''sp'', ''s2''], instr ''mv'' [''s3'', ''s2''], EBREAK_instr]"
      from boundary_runs[OF c(3) s2] obtain m2 where b: "run_asm env ?b m1 = Some m2"
        "low_rel env (dataSection tr') lo cap [] m2" "kept m1 m2"
        by (auto simp: kept_def)
      have bd: "int i < int n - 1" using False Cons.prems(2) by (cases rs) simp_all
      from b(3) s2 have s2': "unat (get_reg m2 S2) = lo + 32 * cap" by (simp add: kept_def)
      from Cons.IH[of "i + 1" "AddTransactionBoundary t" prs1 m2] rest bd ws1(3) False b(2) s2'
        boundary_inv[OF t_inv] t_cfg Cons.prems(2,4,6)
      obtain code2 m3 where d: "instructions tr' = instructions (AddTransactionBoundary t) @ code2"
        "run_asm env code2 m2 = Some m3" "low_rel env (dataSection tr') lo cap ws m3" "kept m2 m3"
        by (auto simp: boundary_code)
      have "run_asm env (code @ ?b @ code2) m = Some m3"
        using c(2) b(1) d(2) by (blast intro: run_asm_append)
      moreover have "instructions tr' = instructions tr @ (code @ ?b @ code2)"
        using c(1) d(1) by (simp add: boundary_code)
      moreover have "kept m m3" using kept_saved[OF c(4)] b(3) d(4) by (blast intro: kept_trans)
      ultimately show ?thesis using d(3) by blast
    qed
  qed
qed

section \<open>The block\<close>

text \<open>The data section a file prints, for the machine to load.\<close>

definition file_section :: "assembly_file \<Rightarrow> data_section" where
  "file_section f = \<lparr>ds_values = map VarValue (DataSec f), valueToVar = Map.empty\<rparr>"

lemma low_rel_values:
  assumes "ds_values ds = ds_values ds'" shows "low_rel env ds lo cap = low_rel env ds' lo cap"
proof -
  have "resolve ds = resolve ds'" using assms by (simp add: resolve_def Iter_def fun_eq_iff)
  then show ?thesis by (simp add: low_rel_def data_rel_def fun_eq_iff)
qed

lemma file_section_values: "ds_values (file_section (ToAssembly tr)) = ds_values (dataSection tr)"
  using map_snd_Iter[of "dataSection tr"]
  by (simp add: file_section_def ToAssembly_def comp_def case_prod_beta)

text \<open>
  C25. The transactions of a block do not interfere. The one program made of all their traces,
  started on an empty stack at \<open>s2\<close> with its data section loaded, runs to its end and leaves the
  stack that the last transaction leaves when replayed alone, with an empty stack and nothing
  stored, although every transaction before it ran on the same machine.
\<close>

theorem block_replays_each_transaction:
  assumes "block_program L E rs = Inr (f, prs)" and "hex_injective L"
    and "list_all (\<lambda>r. go_sized (rState r)) rs" and "block_low L cap rs = Some ws"
    and "low_rel env (file_section f) lo cap [] m" and "get_reg m S2 = get_reg m SP"
  shows "\<exists>m'. run_asm env (Instructions f) m = Some m' \<and>
    low_rel env (file_section f) lo cap ws m' \<and> get_reg m' S2 = get_reg m S2"
proof -
  from assms(1) obtain tr where tr: "process_results L E (length rs) 0 rs (NewTranspiler, []) = Inr (tr, prs)"
    and f: "f = ToAssembly tr"
    by (auto simp: block_program_def)
  note data = low_rel_values[OF file_section_values[of tr], folded f]
  have start: "low_rel env (dataSection tr) lo cap [] m" using assms(5) by (simp add: data)
  have new: "tr_inv L NewTranspiler" "replay_of NewTranspiler = fresh"
    using tr_inv_new[OF assms(2)] replay_of_new by (simp_all add: NewTranspiler_def)
  have "unat (get_reg m S2) = lo + 32 * cap"
    using start assms(6) by (simp add: low_rel_def)
  from process_results_runs[OF tr _ new(1) production_NewTranspiler new(2) _ assms(4) start this] assms(3)
  obtain code m' where "instructions tr = instructions NewTranspiler @ code" "run_asm env code m = Some m'"
    "low_rel env (dataSection tr) lo cap ws m'" "kept m m'"
    by (auto simp: list_all_iff)
  then show ?thesis unfolding data
    by (auto simp: f ToAssembly_def kept_def NewTranspiler_def NewTranspilerWithConfig_def)
qed

text \<open>A block of a replayed transaction, one that could not be traced, and a literal.\<close>

definition push_trace :: "evm_instruction_metadata list" where
  "push_trace = [entry vm_PUSH1 [7] [], entry vm_JUMPDEST [] [7]]"

definition demo_results :: "trace_result list" where
  "demo_results =
     [\<lparr>rIndex = 0, rTxIndex = 0, rTxHash = [1], rInstructions = replay_trace, rState = Some demo_state, rError = None\<rparr>,
      \<lparr>rIndex = 1, rTxIndex = 1, rTxHash = [2], rInstructions = [], rState = None, rError = Some ''timeout''\<rparr>,
      \<lparr>rIndex = 2, rTxIndex = 2, rTxHash = [3], rInstructions = push_trace, rState = Some demo_state, rError = None\<rparr>]"

definition hash_erigon :: erigon where
  "hash_erigon = \<lparr>HashString = show_nat o be_nat, EvmCalls = (\<lambda>h. Inl ''not found''), PickLookup = last\<rparr>"

lemma push_runs:
  "\<exists>tr' sn. ProcessExecution sample_lib push_trace st tr = Inr (tr', sn) \<and> dataSection tr' = dataSection tr"
  unfolding ProcessExecution_def
  by (simp add: push_trace_def result_stack_def go_index_def AddInstructionWithResult_def halt_cases_def
      switch_opcode_def arith_cases_def push_cases_def stack_cases_def env_cases_def push_literal_def
      PUSH1_value_def traced_def word_le_nat_alt Let_def storeDebugInfo_def upt_rec emit_def)

lemma demo_block:
  "\<exists>f prs. block_program sample_lib hash_erigon demo_results = Inr (f, prs) \<and>
    map TransactionIndex prs = [1, 3] \<and> total_evm_instructions prs = 7 \<and> map VarValue (DataSec f) = [0x63]"
proof -
  obtain t sn where t: "ProcessExecution sample_lib replay_trace (Some demo_state) NewTranspiler = Inr (t, sn)"
    using replay_runs by blast
  then have d: "ds_values (dataSection t) = [0x63]"
    using replay_data by (simp add: NewTranspiler_def NewTranspilerWithConfig_def)
  obtain u sn' where u: "ProcessExecution sample_lib push_trace (Some demo_state) (AddTransactionBoundary t) = Inr (u, sn')"
    "dataSection u = dataSection (AddTransactionBoundary t)"
    using push_runs by blast
  have "map VarValue (DataSec (ToAssembly u)) = [0x63]"
    using file_section_values[of u] u(2) d by (simp add: file_section_def boundary_code)
  moreover have "length replay_trace = 5" "length push_trace = 2"
    by (simp_all add: replay_trace_def push_trace_def)
  ultimately show ?thesis using t u(1)
    by (simp add: block_program_def demo_results_def wrap_error_def total_evm_instructions_def)
qed

lemma demo_block_low: "block_low sample_lib 1024 demo_results = Some [7]"
proof -
  have "low_ops 1024 (trace_plan sample_lib push_trace (Some demo_state) [0..<length push_trace] fresh) [] = Some [7]"
    by (simp add: push_trace_def upt_rec plan_def body_plan_def arities result_for_def word_le_nat_alt Let_def)
  with replay_low_ops show ?thesis by (simp add: demo_results_def replayed_def)
qed

lemma low_rel_other_reg:
  "r \<noteq> SP \<Longrightarrow> low_rel env ds lo cap ws (set_reg r v m) = low_rel env ds lo cap ws m"
  by (simp add: low_rel_def mach_simps)

theorem block_replays_each_transaction_witness:
  "\<exists>f prs m m'. block_program sample_lib hash_erigon demo_results = Inr (f, prs) \<and>
    run_asm (image_env 1) (Instructions f) m = Some m' \<and>
    low_rel (image_env 1) (file_section f) 0x1000 1024 [7] m'"
proof -
  obtain f prs where f: "block_program sample_lib hash_erigon demo_results = Inr (f, prs)"
    "map VarValue (DataSec f) = [0x63]"
    using demo_block by (elim exE conjE) rule
  let ?m = "set_reg S2 (word_of_nat (0x1000 + 32 * 1024)) (image_machine (0x1000 + 32 * 1024) [0x63])"
  have v: "ds_values (file_section f) = [0x63]" using f(2) by (simp add: file_section_def)
  from image_low_rel[of "file_section f" "0x1000" 1024 0]
  have "low_rel (image_env 1) (file_section f) 0x1000 1024 [] ?m"
    by (simp add: v low_rel_other_reg)
  moreover have "get_reg ?m S2 = get_reg ?m SP"
    by (simp add: mach_simps) (simp add: image_machine_def get_reg_def)
  moreover have "list_all (\<lambda>r. go_sized (rState r)) demo_results"
    by (simp add: demo_results_def go_sized_def demo_state_def)
  ultimately show ?thesis
    using block_replays_each_transaction[OF f(1) sample_lib_hex _ demo_block_low] f(1) by blast
qed

section \<open>The calling convention of the printed file\<close>

text \<open>
  C26. The complete program of a block, where no replay under- or overflows its stack, is a
  well-behaved function: between the saving and the restoring code of the printed file it keeps
  \<open>s1\<close> and \<open>s2\<close>, so it returns to its caller with the caller's stack pointer and return address,
  whatever slots the transactions leave on the stack.
\<close>

theorem block_program_returns:
  assumes "block_program L E rs = Inr (f, prs)" and "hex_injective L"
    and "list_all (\<lambda>r. go_sized (rState r)) rs" and "block_low L cap rs = Some ws"
    and "low_rel env (file_section f) lo cap [] m"
  shows "\<exists>m'. run_asm env (save_stack @ Instructions f @ restore_stack) m = Some m' \<and>
    get_reg m' SP = get_reg m SP \<and> get_reg m' RA = get_reg m RA"
proof -
  from assms(1) obtain tr where tr: "process_results L E (length rs) 0 rs (NewTranspiler, []) = Inr (tr, prs)"
    and f: "f = ToAssembly tr"
    by (auto simp: block_program_def)
  let ?m0 = "set_reg S1 (get_reg m RA) (set_reg S2 (get_reg m SP) m)"
  have save: "run_asm env save_stack m = Some ?m0"
    by (simp add: run_asm_def save_stack_def decode_simps read_reg_ra mach_simps)
  have start: "low_rel env (dataSection tr) lo cap [] ?m0"
    using assms(5) low_rel_values[OF file_section_values[of tr]] by (simp add: f low_rel_other_reg)
  have new: "tr_inv L NewTranspiler" "replay_of NewTranspiler = fresh"
    using tr_inv_new[OF assms(2)] replay_of_new by (simp_all add: NewTranspiler_def)
  have "unat (get_reg ?m0 S2) = lo + 32 * cap"
    using start by (simp add: low_rel_def mach_simps)
  from process_results_runs[OF tr _ new(1) production_NewTranspiler new(2) _ assms(4) start this] assms(3)
  obtain code m1 where m1: "instructions tr = instructions NewTranspiler @ code" "run_asm env code ?m0 = Some m1"
    "kept ?m0 m1"
    by (auto simp: list_all_iff)
  have body: "run_asm env (Instructions f) ?m0 = Some m1"
    using m1(1,2) by (simp add: f ToAssembly_def NewTranspiler_def NewTranspilerWithConfig_def)
  let ?m' = "set_reg RA (get_reg m1 S1) (set_reg SP (get_reg m1 S2) m1)"
  have "run_asm env restore_stack m1 = Some ?m'"
    by (simp add: run_asm_def restore_stack_def decode_simps read_reg_ra mach_simps)
  then have "run_asm env (save_stack @ Instructions f @ restore_stack) m = Some ?m'"
    using save body by (blast intro: run_asm_append)
  with m1(3) show ?thesis by (intro exI[of _ ?m']) (simp add: kept_def mach_simps)
qed

theorem block_program_returns_witness:
  "\<exists>f prs m'. block_program sample_lib hash_erigon demo_results = Inr (f, prs) \<and>
    run_asm (image_env 1) (save_stack @ Instructions f @ restore_stack)
      (image_machine (0x1000 + 32 * 1024) [0x63]) = Some m' \<and> get_reg m' SP = 0x9000"
proof -
  obtain f prs where f: "block_program sample_lib hash_erigon demo_results = Inr (f, prs)"
    "map VarValue (DataSec f) = [0x63]"
    using demo_block by (elim exE conjE) rule
  have v: "ds_values (file_section f) = [0x63]" using f(2) by (simp add: file_section_def)
  from image_low_rel[of "file_section f" "0x1000" 1024 0]
  have "low_rel (image_env 1) (file_section f) 0x1000 1024 [] (image_machine (0x1000 + 32 * 1024) [0x63])"
    by (simp add: v)
  moreover have "get_reg (image_machine (0x1000 + 32 * 1024) [0x63]) SP = 0x9000"
    by (simp add: image_machine_def get_reg_def)
  moreover have "list_all (\<lambda>r. go_sized (rState r)) demo_results"
    by (simp add: demo_results_def go_sized_def demo_state_def)
  ultimately show ?thesis
    using block_program_returns[OF f(1) sample_lib_hex _ demo_block_low] f(1) by fastforce
qed

end
