(* ===== verification/CommandProps.thy ===== *)
theory CommandProps
  imports Commands ToolchainProps BlockReplay
begin

text \<open>
  Properties of the command-line programs: the results of \<open>tx-prove\<close> and \<open>block-prove\<close> carry exactly
  the proof the tool chain made for the program of the trace.
\<close>

section \<open>tx-prove\<close>

text \<open>
  C33. The results of \<open>tx-prove\<close> carry a proof of the traced transaction: when it succeeds without
  skipping, the program of the recorded trace was transpiled in the production configuration,
  printed for the tool chain and proved, and decoding the results gives that proof and its key.
\<close>

theorem tx_results_carry_the_proof:
  assumes "tx_results L S J libFile fl t w = (Inr r, w')" and "\<not> skipProving fl"
  shows "\<exists>tr sn content g w1 w2.
    ProcessExecution L (evmInstructions t) (executionState t) NewTranspiler = Inr (tr, sn) \<and>
    ToToolChainCompatibleAssembly L libFile (ToAssembly tr) = Inr content \<and>
    Prove S (text_bytes content) w1 = (Inr g, w2) \<and>
    hex_decode (AppVK r) = Inr (pgAppVK g) \<and> hex_decode (ProofHex r) = Inr (pgProof g)"
proof -
  from assms obtain tr sn content w1 g w2 where
    "ProcessExecution L (evmInstructions t) (executionState t) NewTranspiler = Inr (tr, sn)"
    "ToToolChainCompatibleAssembly L libFile (ToAssembly tr) = Inr content"
    "Prove S (text_bytes content) w1 = (Inr g, w2)"
    "r = \<lparr>AppVK = hex_encode (pgAppVK g), ProofHex = hex_encode (pgProof g)\<rparr>"
    by (auto simp: tx_results_def bindIO_Inr liftR_Inr returnIO_Inr)
  then show ?thesis using hex_round_trip by (metis results_file.select_convs)
qed

lemma demo_proves_all: "\<exists>g w'. Prove demo_os content w = (Inr g, w') \<and> pgProof g = [1, 2]"
proof -
  have made: "\<exists>w1. setupWorkspace demo_os content w = (Inr ''/tmp/zkvm-toolchain-*/openvm'', w1)" for w
    by (simp add: setupWorkspace_def bindIO_def orElse_def mkdirTemp_def writeFileOS_def returnIO_def
        demo_os_def path_join_def)
  obtain w1 where w1: "setupWorkspace demo_os content (w\<lparr>readings := readings w + 1\<rparr>) =
      (Inr ''/tmp/zkvm-toolchain-*/openvm'', w1)"
    using made by blast
  then show ?thesis
    by (simp add: Prove_def SetupExecution_def bindIO_def orElse_def now_def demo_cargo returnIO_def
        Cli_readFile_def readFileOS_def path_join_def demo_estimate generation_def)
qed

text \<open>Printing for the tool chain succeeds on code the transpiler makes.\<close>

lemma code_lines_valid: "code_ok ds is \<Longrightarrow> \<exists>ls. code_lines target is = Inr ls"
proof (induction "is")
  case (Cons i "is")
  then have "code_ok ds [i]" "code_ok ds is" using code_ok_append[of ds "[i]" "is"] by simp_all
  moreover from this(1) have "\<exists>l. code_line target i = Inr l"
    by (auto simp: code_ok_def code_line_def go_index_def decode_defs split: option.splits list.splits if_splits)
  ultimately show ?case using Cons.IH by auto
qed simp

lemma prints_valid: "tr_inv L tr \<Longrightarrow> \<exists>content. ToToolChainCompatibleAssembly L libFile (ToAssembly tr) = Inr content"
  using code_lines_valid[of "dataSection tr" "instructions tr" RuntimeTargetOpenVM]
  by (auto simp: tr_inv_def ToToolChainCompatibleAssembly_def toZkFile_def toFile_def ToAssembly_def)

definition plain_flags :: tx_flags where
  "plain_flags = \<lparr>debugMode = False, debugAssembly = False, skipProving = False, assemblyFile = ''transpiled.s''\<rparr>"

definition demo_encoders :: encoders where
  "demo_encoders = \<lparr>json_mappings = (\<lambda>ms. []), json_results = (\<lambda>r. []), json_block = (\<lambda>r. []), rfc3339 = show_int\<rparr>"

definition demo_tracer :: state_tracer where
  "demo_tracer = NewStateTracer\<lparr>evmInstructions := replay_trace, executionState := Some demo_state\<rparr>"

theorem tx_results_carry_the_proof_witness:
  "\<exists>r w' g w1 w2 content. tx_results sample_lib demo_os demo_encoders [] plain_flags demo_tracer empty_world = (Inr r, w') \<and>
     Prove demo_os content w1 = (Inr g, w2) \<and> hex_decode (ProofHex r) = Inr (pgProof g)"
proof -
  obtain tr sn where tr: "ProcessExecution sample_lib replay_trace (Some demo_state) NewTranspiler = Inr (tr, sn)"
    using replay_runs by blast
  have new: "tr_inv sample_lib NewTranspiler" using tr_inv_new[OF sample_lib_hex] by (simp add: NewTranspiler_def)
  have "tr_inv sample_lib tr"
    using ProcessExecution_inv[OF tr new] production_mcopy[OF production_NewTranspiler] by (simp add: list_all_iff)
  then obtain content where c: "ToToolChainCompatibleAssembly sample_lib [] (ToAssembly tr) = Inr content"
    using prints_valid by blast
  obtain g w' where "Prove demo_os (text_bytes content) empty_world = (Inr g, w')"
    using demo_proves_all by blast
  with tr c have "\<exists>r w'. tx_results sample_lib demo_os demo_encoders [] plain_flags demo_tracer empty_world = (Inr r, w')"
    by (simp add: tx_results_def bindIO_def liftR_def plain_flags_def returnIO_def demo_tracer_def)
  moreover have "\<not> skipProving plain_flags" by (simp add: plain_flags_def)
  ultimately show ?thesis using tx_results_carry_the_proof by fast
qed

section \<open>block-prove\<close>

definition proof_result_of :: "erigon \<Rightarrow> trace_result \<Rightarrow> proof_result" where
  "proof_result_of E r =
     \<lparr>TransactionHash = HashString E (rTxHash r), TransactionIndex = rTxIndex r + 1,
      InstructionCount = length (rInstructions r)\<rparr>"

definition successful :: "trace_result list \<Rightarrow> trace_result list" where
  "successful rs = filter (\<lambda>r. rError r = None) rs"

lemma process_results_listed:
  "process_results L E n i rs (tr, prs) = Inr (tr', prs') \<Longrightarrow>
   prs' = prs @ map (proof_result_of E) (successful rs)"
proof (induction rs arbitrary: i tr prs)
  case (Cons r rs)
  show ?case
  proof (cases "rError r")
    case None
    with Cons.prems obtain t sn where "process_results L E n (i + 1) rs
        (if int i < int n - 1 then AddTransactionBoundary t else t, prs @ [proof_result_of E r]) = Inr (tr', prs')"
      by (auto simp: proof_result_of_def)
    from Cons.IH[OF this] None show ?thesis by (simp add: successful_def)
  qed (use Cons in \<open>simp add: successful_def\<close>)
qed (simp add: successful_def)

lemma total_evm_sum: "total_evm_instructions prs = sum_list (map InstructionCount prs)"
proof -
  have "fold (\<lambda>p n. n + InstructionCount p) prs k = k + sum_list (map InstructionCount prs)" for k
    by (induction prs arbitrary: k) simp_all
  then show ?thesis by (simp add: total_evm_instructions_def)
qed

lemma prove_block_Inr:
  assumes "prove_block S J fl tr content w = (Inr (g, d), w')"
  shows "if bfSkipProof fl then g = no_proof
    else \<exists>w1 w2. (if bfUseStarkProof fl then StarkProve S (text_bytes content) else Prove S (text_bytes content)) w1 = (Inr g, w2)"
  using assms
  by (auto simp: prove_block_def bindIO_Inr returnIO_Inr now_Inr split: if_splits sum.splits prod.splits fail.splits
      simp: bindIO_def attempt_def)

lemma process_traced_block_Inr:
  assumes "process_traced_block L E S J libFile fl fetch tracing rs w = (Inr r, w')"
  obtains tr prs content g d w1 w2 a b c where
    "process_results L E (length rs) 0 rs (NewTranspiler, []) = Inr (tr, prs)"
    "ToToolChainCompatibleAssembly L libFile (ToAssembly tr) = Inr content"
    "prove_block S J fl tr content w1 = (Inr (g, d), w2)"
    "r = block_report fl prs g fetch tracing a b d c"
proof -
  from assms obtain tr prs content g d w1 w2 a b c where
    "process_results L E (length rs) 0 rs (NewTranspiler, []) = Inr (tr, prs)"
    "ToToolChainCompatibleAssembly L libFile (ToAssembly tr) = Inr content"
    "prove_block S J fl tr content w1 = (Inr (g, d), w2)"
    "r = block_report fl prs g fetch tracing a b d c"
    by (auto simp: process_traced_block_def bindIO_Inr liftR_Inr returnIO_Inr now_Inr Let_def)
  then show thesis by (rule that)
qed

text \<open>
  C27. The result file of a block describes what was proved: it lists exactly the transactions that
  were traced, in block order, with their true instruction counts and total, and its proof and key
  decode to what the chosen prover returned for the one program made of their traces; with proving
  skipped both are empty.
\<close>

theorem block_result_describes_the_block:
  assumes "process_traced_block L E S J libFile fl fetch tracing rs w = (Inr r, w')"
  shows "brTransactions r = map (proof_result_of E) (successful rs) \<and>
    brTransactionCount r = length (successful rs) \<and>
    brTotalEvmInstructions r = sum_list (map (\<lambda>x. length (rInstructions x)) (successful rs)) \<and>
    (\<exists>f prs content. block_program L E rs = Inr (f, prs) \<and>
       ToToolChainCompatibleAssembly L libFile f = Inr content \<and>
       (if bfSkipProof fl then brProof r = [] \<and> brAppVK r = []
        else \<exists>g w1 w2. (if bfUseStarkProof fl then StarkProve S (text_bytes content)
                          else Prove S (text_bytes content)) w1 = (Inr g, w2) \<and>
               hex_decode (brAppVK r) = Inr (pgAppVK g) \<and> hex_decode (brProof r) = Inr (pgProof g)))"
proof -
  from assms obtain tr prs content g d w1 w2 a b c where
    s: "process_results L E (length rs) 0 rs (NewTranspiler, []) = Inr (tr, prs)"
      "ToToolChainCompatibleAssembly L libFile (ToAssembly tr) = Inr content"
      "prove_block S J fl tr content w1 = (Inr (g, d), w2)"
      "r = block_report fl prs g fetch tracing a b d c"
    by (rule process_traced_block_Inr)
  have prs: "prs = map (proof_result_of E) (successful rs)"
    using process_results_listed[OF s(1)] by simp
  have "InstructionCount \<circ> proof_result_of E = (\<lambda>x. length (rInstructions x))"
    by (simp add: fun_eq_iff proof_result_of_def)
  moreover have "block_program L E rs = Inr (ToAssembly tr, prs)"
    using s(1) by (simp add: block_program_def)
  moreover have "hex_encode [] = []" by (simp add: hex_encode_def)
  ultimately show ?thesis
    using prove_block_Inr[OF s(3)] s(2,4) prs
    by (auto simp: block_report_def total_evm_sum no_proof_def hex_round_trip)
qed

definition demo_block_flags :: block_flags where
  "demo_block_flags =
     \<lparr>bfBlockNum = 9, bfDebugAssembly = False, bfAssemblyFile = ''transpiled_block.s'', bfDebugMode = False,
      bfSkipProof = False, bfUseStarkProof = False\<rparr>"

lemma demo_process:
  "\<exists>tr prs. process_results sample_lib hash_erigon 3 0 demo_results (NewTranspiler, []) = Inr (tr, prs) \<and> tr_inv sample_lib tr"
proof -
  obtain f prs where "block_program sample_lib hash_erigon demo_results = Inr (f, prs)"
    using demo_block by blast
  moreover have "length demo_results = 3" by (simp add: demo_results_def)
  ultimately obtain tr prs where p: "process_results sample_lib hash_erigon 3 0 demo_results (NewTranspiler, []) = Inr (tr, prs)"
    by (auto simp: block_program_def)
  have "tr_inv sample_lib NewTranspiler" using tr_inv_new[OF sample_lib_hex] by (simp add: NewTranspiler_def)
  from process_results_inv[OF p this production_NewTranspiler] p show ?thesis by blast
qed

theorem block_result_describes_the_block_witness:
  "\<exists>r w'. process_traced_block sample_lib hash_erigon demo_os demo_encoders [] demo_block_flags 0 0 demo_results empty_world = (Inr r, w') \<and>
     map TransactionIndex (brTransactions r) = [1, 3] \<and> brTotalEvmInstructions r = 7 \<and>
     (\<exists>g :: proof_generation. hex_decode (brProof r) = Inr (pgProof g))"
proof -
  obtain tr prs where p: "process_results sample_lib hash_erigon 3 0 demo_results (NewTranspiler, []) = Inr (tr, prs)"
    "tr_inv sample_lib tr" using demo_process by blast
  then obtain content where c: "ToToolChainCompatibleAssembly sample_lib [] (ToAssembly tr) = Inr content"
    using prints_valid by blast
  have n: "length demo_results = 3" by (simp add: demo_results_def)
  have "\<exists>r w'. process_traced_block sample_lib hash_erigon demo_os demo_encoders [] demo_block_flags 0 0 demo_results w = (Inr r, w')" for w
  proof -
    have "\<exists>o' w2. prove_block demo_os demo_encoders demo_block_flags tr content w1 = (Inr o', w2)" for w1
      using demo_proves_all[of "text_bytes content" "w1\<lparr>readings := readings w1 + 1\<rparr>"]
      by (auto simp: prove_block_def demo_block_flags_def bindIO_def now_def returnIO_def)
    then obtain q w2 where "prove_block demo_os demo_encoders demo_block_flags tr content
        (w\<lparr>readings := readings w + 1 + 1 + 1 + 1\<rparr>) = (Inr q, w2)" by blast
    with p(1) c n show ?thesis
      by (cases q) (simp add: process_traced_block_def bindIO_def liftR_def now_def returnIO_def demo_block_flags_def
        attempt_def Let_def)
  qed
  then obtain r w' where r: "process_traced_block sample_lib hash_erigon demo_os demo_encoders [] demo_block_flags 0 0 demo_results empty_world = (Inr r, w')"
    by blast
  have noskip: "\<not> bfSkipProof demo_block_flags" by (simp add: demo_block_flags_def)
  note d = block_result_describes_the_block[OF r, unfolded if_not_P[OF noskip]]
  have "\<exists>g :: proof_generation. hex_decode (brProof r) = Inr (pgProof g)" using d by blast
  moreover have "map TransactionIndex (map (proof_result_of hash_erigon) (successful demo_results)) = [1, 3]"
    "sum_list (map (\<lambda>x. length (rInstructions x)) (successful demo_results)) = 7"
    by (simp_all add: successful_def demo_results_def proof_result_of_def replay_trace_def push_trace_def)
  ultimately show ?thesis using r d by (intro exI[of _ r] exI[of _ w'] conjI) simp_all
qed

end
