(* ===== verification/HarnessProps.thy ===== *)
theory HarnessProps
  imports Harness Saved TranspilerProps
begin

text \<open>
  Properties of the test harness and of \<open>evm-prove\<close>, which is built on it: an opcode the harness
  cannot transpile because its tracer is never told the block number, and what a nested call does
  to the memory of a program printed for the tool chain.
\<close>

section \<open>The block number\<close>

fun starts_tx :: "hook_call \<Rightarrow> bool" where
  "starts_tx (OnTxStart ctx a) = True"
| "starts_tx _ = False"

definition no_block :: "state_tracer \<Rightarrow> bool" where
  "no_block t \<longleftrightarrow> blockNumber t = None \<and> (\<forall>s. executionState t = Some s \<longrightarrow> BlockNumber s = None)"

lemma no_block_step: "\<not> starts_tx e \<Longrightarrow> no_block t \<Longrightarrow> no_block (hook_step L t e)"
  by (cases e) (auto simp: no_block_def capture_defs)

lemma no_block_run: "list_all (\<lambda>e. \<not> starts_tx e) es \<Longrightarrow> no_block t \<Longrightarrow> no_block (trace_run L t es)"
  by (induction es arbitrary: t) (simp_all add: no_block_step)

lemma number_fails:
  assumes "Opcode m = vm_NUMBER" and "\<not> IsStackRestore m" and "\<And>s. st = Some s \<Longrightarrow> BlockNumber s = None"
  shows "AddInstructionWithResult L m st rs tr \<noteq> Inr tr'"
  using assms
  by (cases st)
    (auto simp: AddInstructionWithResult_def halt_cases_def switch_opcode_def arith_cases_def push_cases_def
      stack_cases_def env_cases_def load_pointer_def)

lemma number_in_trace:
  assumes "m \<in> set ins" and "Opcode m = vm_NUMBER" and "\<not> IsStackRestore m"
    and "\<And>s. st = Some s \<Longrightarrow> BlockNumber s = None"
  shows "ProcessExecution L ins st tr \<noteq> Inr out"
proof
  assume run: "ProcessExecution L ins st tr = Inr out"
  obtain i where i: "i < length ins" "ins ! i = m" using assms(1) by (auto simp: in_set_conv_nth)
  have "[0..<length ins] = [0..<i] @ i # [Suc i..<length ins]"
    using i(1) by (metis le_add1 add_0 less_imp_le_nat upt_add_eq_append upt_conv_Cons le_add_diff_inverse)
  with ProcessExecution_Inr[of L ins st tr "fst out" "snd out"] run
  have "tracing.run L ins st ([0..<i] @ i # [Suc i..<length ins]) tr = Inr (fst out)" by simp
  then obtain t t' where "trace_step L ins st i t = Inr t'"
    by (auto simp: tracing.run_append)
  with i number_fails[OF assms(2-4)] show False
    by (auto simp: trace_step_def go_index_def)
qed

text \<open>The hooks fired by the call that \<open>Execute\<close> makes.\<close>

definition executed_calls :: "'e evm_lib \<Rightarrow> 'e test_runner \<Rightarrow> hook_call list" where
  "executed_calls E t =
     (let runner = DeployContract E CONTRACT_ADDRESS (trProgram t) (Some 1000) (trRunner t);
          callData = (case cfgCallData (trConfig t) of None \<Rightarrow> [] | Some d \<Rightarrow> d);
          value = (case cfgCallValue (trConfig t) of None \<Rightarrow> 0 | Some v \<Rightarrow> v)
      in fst (fst (EvmCall E (to_address 0xabcd) CONTRACT_ADDRESS callData 100000 value
           (EvmSetBalance E (to_address 0xabcd) (value + 1000000) (stEvm runner)))))"

text \<open>
  C40. A contract that reads the block number cannot be transpiled by the harness, and so not by
  \<open>evm-prove\<close>: the simple tracer sets time and chain itself because the transaction hook does not
  fire, but not the block number, and the transpiler dereferences it. Every run whose trace
  contains the opcode fails or panics.
\<close>

theorem number_breaks_the_harness:
  assumes "list_all (\<lambda>e. \<not> starts_tx e) (executed_calls E (NewTestRunnerWithConfig L E program cfg))"
    and "OnOpcode pc vm_NUMBER gas scope \<in> set (executed_calls E (NewTestRunnerWithConfig L E program cfg))"
  shows "Execute L E (NewTestRunnerWithConfig L E program cfg) \<noteq> Inr out"
proof -
  let ?r = "NewTestRunnerWithConfig L E program cfg"
  let ?d = "DeployContract E CONTRACT_ADDRESS (trProgram ?r) (Some 1000) (trRunner ?r)"
  let ?t = "trace_run L (stTracer ?d) (executed_calls E ?r)"
  have "no_block (stTracer ?d)"
    by (simp add: NewTestRunnerWithConfig_def NewSimpleTracer_def DeployContract_def no_block_def
        setJumpTable_def NewStateTracer_def Let_def)
  from no_block_run[OF assms(1) this, of L] have st: "\<And>s. executionState ?t = Some s \<Longrightarrow> BlockNumber s = None"
    by (simp add: no_block_def)
  have "\<exists>m\<in>set (evmInstructions ?t). Opcode m = vm_NUMBER \<and> \<not> IsStackRestore m"
    unfolding trace_records using assms(2) by force
  then obtain m where m: "m \<in> set (evmInstructions ?t)" "Opcode m = vm_NUMBER" "\<not> IsStackRestore m" by blast
  have "ProcessExecution L (evmInstructions ?t) (executionState ?t) tr \<noteq> Inr o'" for tr o'
    by (rule number_in_trace[OF m st])
  then show ?thesis
    unfolding Execute_def ExecuteContract_def executed_calls_def Let_def
    by (auto split: prod.splits option.splits)
qed

text \<open>A sample EVM, without state, on which every contract is \<open>NUMBER; STOP\<close>.\<close>

definition number_scope :: op_context where
  "number_scope =
     \<lparr> scopeStackData = [], scopeCode = [0x43, 0], scopeCallValue = Some 0, scopeCallInput = [],
       scopeAddress = zero_address, scopeCaller = zero_address \<rparr>"

definition number_evm :: "unit evm_lib" where
  "number_evm =
     \<lparr> EvmNew = (), EvmCreateAccount = (\<lambda>a e. e), EvmSetCode = (\<lambda>a c e. e), EvmSetBalance = (\<lambda>a b e. e),
       EvmCall = (\<lambda>from_a to_a input gas v e.
         (([OnOpcode 0 vm_NUMBER gas number_scope, OnOpcode 1 vm_STOP (gas - 2) number_scope], gas - 2, None), e)),
       ErrExecutionReverted = ''execution reverted'' \<rparr>"

theorem number_breaks_the_harness_witness:
  "\<forall>out. Execute sample_lib number_evm
     (NewTestRunnerWithConfig sample_lib number_evm [0x43, 0] \<lparr>cfgCallValue = None, cfgCallData = None\<rparr>) \<noteq> Inr out"
proof -
  let ?r = "NewTestRunnerWithConfig sample_lib number_evm [0x43, 0] \<lparr>cfgCallValue = None, cfgCallData = None\<rparr>"
  have "executed_calls number_evm ?r =
      [OnOpcode 0 vm_NUMBER 100000 number_scope, OnOpcode 1 vm_STOP (100000 - 2) number_scope]"
    by (simp add: executed_calls_def number_evm_def Let_def)
  then show ?thesis
    by (intro allI number_breaks_the_harness[where pc = 0 and gas = 100000 and scope = number_scope]) simp_all
qed

section \<open>Nested calls\<close>

text \<open>
  C38. In a program printed for the tool chain a nested call overwrites the code it returns to. The
  wrapper keeps the return address in \<open>s1\<close>, and the code of a call, where call contexts are
  separated as in the harness, uses \<open>s1\<close> as its context stack: the stack pointer and the stack top
  are stored in the two words before the return address.
\<close>

theorem nested_call_overwrites_the_caller:
  assumes "Opcode op \<in> {vm_CALL, vm_CALLCODE}" and "\<not> IsStackRestore op" and "config tr = config NewTestTranspiler"
    and "AddInstructionWithResult L op st rs tr = Inr tr'"
  shows "\<exists>m'. run_asm env (save_stack @ drop (length (instructions tr)) (instructions tr')) m = Some m' \<and>
    rd32 (mem m') (get_reg m RA - 4) = get_reg m SP + 224 \<and> rd32 (mem m') (get_reg m RA - 8) = get_reg m S3"
proof -
  have code: "drop (length (instructions tr)) (instructions tr') =
      pops 7 @ saveStackContext @ createNewStackFrame @ [EBREAK_instr]"
    using assms
    by (auto simp: AddInstructionWithResult_def halt_cases_def switch_opcode_def arith_cases_def push_cases_def
        stack_cases_def env_cases_def code_cases_def data_cases_def call_cases_def enter_call_def emit_def
        storeDebugInfo_def NewTestTranspiler_def NewTranspilerWithConfig_def word_le_nat_alt)
  have far: "far (get_reg m RA - 8) (get_reg m RA - 4)"
    by (simp add: far_def word_le_nat_alt)
  have seven: "pops 7 = popStack @ popStack @ popStack @ popStack @ popStack @ popStack @ popStack"
    by (simp add: pops_def numeral_eq_Suc)
  show ?thesis
    unfolding code seven
    by (simp add: run_asm_def save_stack_def decode_simps read_reg_ra EBREAK_instr_def decode_all_append
        mach_simps rd32_wr32 rd32_wr32_far[OF far])
qed

theorem nested_call_overwrites_the_caller_witness:
  "\<forall>env m. \<exists>tr' m'. AddInstructionWithResult sample_lib (entry vm_CALL [] []) None None NewTestTranspiler = Inr tr' \<and>
    run_asm env (save_stack @ drop (length (instructions NewTestTranspiler)) (instructions tr')) m = Some m' \<and>
    rd32 (mem m') (get_reg m RA - 4) = get_reg m SP + 224"
proof -
  have "\<exists>tr'. AddInstructionWithResult sample_lib (entry vm_CALL [] []) None None NewTestTranspiler = Inr tr'"
    by (simp add: AddInstructionWithResult_def halt_cases_def switch_opcode_def arith_cases_def push_cases_def
        stack_cases_def env_cases_def code_cases_def data_cases_def call_cases_def word_le_nat_alt)
  with nested_call_overwrites_the_caller[of "entry vm_CALL [] []" NewTestTranspiler sample_lib None None]
  show ?thesis by fastforce
qed

end
