(* ===== verification/UnicornProps.thy ===== *)
theory UnicornProps
  imports Unicorn Image
begin

text \<open>
  The snapshots of the test runner against the stack of a machine.
\<close>

text \<open>
  C37. A snapshot shows the stack: on a machine whose slots from the stack pointer up to the logical
  stack top hold some values, the runner reads exactly those values, in full width and in the order
  the EVM keeps them, the top of the stack last.
\<close>

theorem snapshot_shows_the_slots:
  assumes "bytes_big_endian L"
    and "\<And>i. i < length vs \<Longrightarrow> holds (mem m) (get_reg m SP + word_of_nat (32 * i)) (vs ! i)"
    and "unat (get_reg m S3) = unat (get_reg m SP) + 32 * length vs" and "get_reg m S3 \<noteq> 0"
  shows "printStackState L (view_of m) stackAddr memSize = Inr (rev vs)"
proof -
  let ?sp = "ucast (get_reg m SP) :: u64" and ?top = "ucast (get_reg m S3) :: u64"
  have u: "unat ?sp = unat (get_reg m SP)" "unat ?top = unat (get_reg m S3)"
    by (simp_all add: unat_ucast_up)
  have down: "(ucast ?sp :: u32) = get_reg m SP"
    using unat_u32_less[of "get_reg m SP"] u(1) unfolding word_unat_eq_iff unat_ucast_down by simp
  have nz: "?top \<noteq> 0" using assms(4) u(2) by (metis unsigned_0 unsigned_eq_0_iff)
  have le: "?sp \<le> ?top" using u assms(3) by (simp add: word_le_nat_alt)
  then have "unat (?top - ?sp) = 32 * length vs" using u assms(3) by (simp add: unat_sub)
  then have n: "unat ((?top - ?sp) div 4 div 8) = length vs"
    by (simp add: unat_div_distrib)
  have "holds (mem m) (ucast (?sp + word_of_nat i * 8 * 4)) (vs ! i)" if i: "i < length vs" for i
  proof -
    have "(ucast (word_of_nat i * 8 * 4 :: u64) :: u32) = word_of_nat (32 * i)"
      using ucast_of_nat_down[of "i * 8 * 4"] by (simp add: mult.commute)
    with assms(2)[OF i] show ?thesis by (simp only: ucast_add_u32 down)
  qed
  from read_entries_view[OF assms(1) order_refl this] show ?thesis
    using le nz n by (simp add: printStackState_def view_of_def Let_def not_less)
qed

text \<open>Two slots at the bottom of memory.\<close>

definition slot_machine :: mach where
  "slot_machine = \<lparr>regs = (\<lambda>r. if r = S3 then 64 else 0), mem = data_image [5, 2 ^ 200]\<rparr>"

theorem snapshot_shows_the_slots_witness:
  "printStackState sample_lib (view_of slot_machine) stackAddr memSize = Inr [2 ^ 200, 5]"
proof -
  have "holds (mem slot_machine) (get_reg slot_machine SP + word_of_nat (32 * i)) ([5, 2 ^ 200] ! i)"
    if "i < length [5, 2 ^ 200 :: u256]" for i
    using data_image_holds[OF that] by (simp add: slot_machine_def get_reg_def)
  from snapshot_shows_the_slots[OF sample_lib_bytes this] show ?thesis
    by (simp add: slot_machine_def get_reg_def)
qed

end
