(* ===== verification/DebugSearch.thy ===== *)
theory DebugSearch
  imports Assembly Transpiler
begin

text \<open>
  The search for the opcode whose code cannot be proved (\<open>cmd/debug-transpiler/main.go\<close>): assembly
  of a prefix of the saved debug mappings, bisection over the length of the prefix, and the report.
  Whether a file proves is a parameter. Go iterates over the map of data variables in an
  unspecified order; the order is a parameter too.
\<close>

section \<open>A prefix of the program\<close>

text \<open>The instructions and the data variables of the mappings up to \<open>endIndex\<close>.\<close>

definition collect_vars :: "data_variable list \<Rightarrow> (string \<rightharpoonup> data_variable) \<Rightarrow> (string \<rightharpoonup> data_variable)" where
  "collect_vars ds vars = fold (\<lambda>d f. f(VarName d \<mapsto> d)) ds vars"

fun gather :: "evm_to_riscv_mapping list \<Rightarrow> nat \<Rightarrow> instruction list \<times> (string \<rightharpoonup> data_variable)
    \<Rightarrow> instruction list \<times> (string \<rightharpoonup> data_variable)" where
  "gather [] k acc = acc"
| "gather (m # ms) 0 acc = acc"
| "gather (m # ms) (Suc k) (ins, vars) =
     gather ms k (ins @ RiscVInstructions m, collect_vars (DataVariables m) vars)"

definition prefix_file :: "((string \<rightharpoonup> data_variable) \<Rightarrow> data_variable list)
    \<Rightarrow> evm_to_riscv_mapping list \<Rightarrow> int \<Rightarrow> assembly_file" where
  "prefix_file order mappings endIndex =
     (let (ins, vars) = gather mappings (nat (endIndex + 1)) ([], Map.empty)
      in \<lparr>Instructions = ins, DataSec = order vars\<rparr>)"

definition buildAssemblyUpTo :: "third_party \<Rightarrow> string \<Rightarrow> ((string \<rightharpoonup> data_variable) \<Rightarrow> data_variable list)
    \<Rightarrow> evm_to_riscv_mapping list \<Rightarrow> int \<Rightarrow> string result" where
  "buildAssemblyUpTo L libFile order mappings endIndex =
     ToToolChainCompatibleAssembly L libFile (prefix_file order mappings endIndex)"

section \<open>Bisection\<close>

text \<open>
  The loop: the range still open, the last prefix that proved and the last content built. An
  assembly error counts as a failure and leaves no content; a panic ends the program.
\<close>

function search_loop :: "(int \<Rightarrow> string result) \<Rightarrow> (string \<Rightarrow> bool) \<Rightarrow> int \<Rightarrow> int \<Rightarrow> int \<Rightarrow> string
    \<Rightarrow> (int \<times> string) result" where
  "search_loop build proves left right lastWorkingIndex content =
     (if left \<le> right then
        (let mid = (left + right) div 2 in
         case build mid of
           Inl (Panic p) \<Rightarrow> Inl (Panic p)
         | Inl (Err e) \<Rightarrow> search_loop build proves left (mid - 1) lastWorkingIndex []
         | Inr c \<Rightarrow>
             if proves c then search_loop build proves (mid + 1) right mid c
             else search_loop build proves left (mid - 1) lastWorkingIndex c)
      else Inr (lastWorkingIndex, content))"
  by pat_completeness auto

termination
  by (relation "measure (\<lambda>(b, p, left, right, l, c). nat (right - left + 1))") auto

declare search_loop.simps [simp del]

datatype verdict = FirstFails string | AllWork | Problem int string int

text \<open>The report; it reads the first mapping without checking that there is one.\<close>

definition report :: "evm_to_riscv_mapping list \<Rightarrow> int \<Rightarrow> verdict result" where
  "report mappings lastWorkingIndex =
     (if lastWorkingIndex = -1 then
        bindR (go_index mappings 0) (\<lambda>m. Inr (FirstFails (EvmOpcode m)))
      else if lastWorkingIndex = int (length mappings) - 1 then Inr AllWork
      else
        bindR (go_index mappings (nat (lastWorkingIndex + 1))) (\<lambda>m.
          Inr (Problem (lastWorkingIndex + 1) (EvmOpcode m) (CallDepth m))))"

text \<open>The report of a search that ended, with the content to be written before it.\<close>

definition debug_search :: "third_party \<Rightarrow> string \<Rightarrow> ((string \<rightharpoonup> data_variable) \<Rightarrow> data_variable list)
    \<Rightarrow> (string \<Rightarrow> bool) \<Rightarrow> evm_to_riscv_mapping list \<Rightarrow> (verdict result \<times> string) result" where
  "debug_search L libFile order proves mappings =
     bindR (search_loop (buildAssemblyUpTo L libFile order mappings) proves 0 (int (length mappings) - 1) (-1) [])
       (\<lambda>(lastWorkingIndex, content). Inr (report mappings lastWorkingIndex, content))"

section \<open>The loop\<close>

definition works :: "(int \<Rightarrow> string result) \<Rightarrow> (string \<Rightarrow> bool) \<Rightarrow> int \<Rightarrow> bool" where
  "works build proves i \<longleftrightarrow> (case build i of Inl e \<Rightarrow> False | Inr c \<Rightarrow> proves c)"

text \<open>
  At every point of the loop the last working prefix ends just before the open range, and the
  first prefix after it failed; so the loop ends at a prefix that works whose successor does not.
\<close>

definition bracket :: "(int \<Rightarrow> bool) \<Rightarrow> int \<Rightarrow> int \<Rightarrow> int \<Rightarrow> int \<Rightarrow> bool" where
  "bracket w n left right lwi \<longleftrightarrow>
     lwi = left - 1 \<and> 0 \<le> left \<and> left \<le> right + 1 \<and> right < n \<and>
     (left = 0 \<or> w (left - 1)) \<and> (right + 1 = n \<or> \<not> w (right + 1))"

lemma search_loop_brackets:
  assumes "bracket (works build proves) n left right lwi"
  shows "case search_loop build proves left right lwi content of
      Inl e \<Rightarrow> (\<exists>i. 0 \<le> i \<and> i < n \<and> build i = Inl e)
    | Inr (l, c) \<Rightarrow> bracket (works build proves) n (l + 1) l l"
  using assms
proof (induction build proves left right lwi content rule: search_loop.induct)
  case (1 build proves left right lwi content)
  show ?case
  proof (cases "left \<le> right")
    case False
    with 1(4) have "lwi = right" "left = right + 1" by (auto simp: bracket_def)
    with False 1(4) show ?thesis by (subst search_loop.simps) (simp add: bracket_def)
  next
    case True
    let ?mid = "(left + right) div 2"
    have mid: "left \<le> ?mid" "?mid \<le> right" using True by simp_all
    then have range: "0 \<le> ?mid" "?mid < n" using 1(4) by (simp_all add: bracket_def)
    have left: "bracket (works build proves) n left (?mid - 1) lwi" if "\<not> works build proves ?mid"
      using 1(4) mid that by (auto simp: bracket_def)
    show ?thesis
    proof (cases "build ?mid")
      case (Inl e)
      show ?thesis
      proof (cases e)
        case (Panic p)
        have "\<exists>i\<ge>0. i < n \<and> build i = Inl e" using Inl range by blast
        with Inl Panic True show ?thesis by (subst search_loop.simps) (simp add: Let_def)
      next
        case (Err m)
        have "\<not> works build proves ?mid" using Inl by (simp add: works_def)
        from 1(1)[OF True refl Inl Err left[OF this]] Inl Err True show ?thesis
          by (subst search_loop.simps) (simp add: Let_def)
      qed
    next
      case (Inr c)
      show ?thesis
      proof (cases "proves c")
        case w: True
        with Inr have "bracket (works build proves) n (?mid + 1) right ?mid"
          using 1(4) mid by (auto simp: bracket_def works_def)
        from 1(2)[OF True refl Inr w this] Inr w True show ?thesis
          by (subst search_loop.simps) (simp add: Let_def)
      next
        case w: False
        with Inr have "\<not> works build proves ?mid" by (simp add: works_def)
        from 1(3)[OF True refl Inr w left[OF this]] Inr w True show ?thesis
          by (subst search_loop.simps) (simp add: Let_def)
      qed
    qed
  qed
qed

end
