(* ===== verification/DebugProps.thy ===== *)
theory DebugProps
  imports TranspilerProps DebugSearch
begin

text \<open>
  Properties of the search for an opcode that cannot be proved: what its report means, and what
  program the saved mappings stand for.
\<close>

section \<open>The report\<close>






section \<open>The program of the mappings\<close>

lemma collect_vars_simps [simp]:
  "collect_vars [] vars = vars"
  "collect_vars (xs @ ys) vars = collect_vars ys (collect_vars xs vars)"
  "collect_vars [d] vars = vars(VarName d \<mapsto> d)"
  by (simp_all add: collect_vars_def)

lemma gather_take:
  "gather ms k (ins, vars) =
   (ins @ concat (map RiscVInstructions (take k ms)),
    collect_vars (concat (map DataVariables (take k ms))) vars)"
proof (induction ms arbitrary: k ins vars)
  case (Cons m ms)
  then show ?case by (cases k) simp_all
qed simp

lemma collected_vars:
  assumes "inj_on VarName (set ds)"
  shows "collect_vars ds Map.empty k = Some d \<longleftrightarrow> d \<in> set ds \<and> VarName d = k"
  using assms
proof (induction ds arbitrary: d rule: rev_induct)
  case (snoc x xs)
  then have "inj_on VarName (set xs)" by (auto simp: inj_on_def)
  with snoc have IH: "collect_vars xs Map.empty k = Some d \<longleftrightarrow> d \<in> set xs \<and> VarName d = k" for d
    by blast
  from snoc.prems have "\<And>d. d \<in> set xs \<Longrightarrow> VarName d = VarName x \<Longrightarrow> d = x" by (auto simp: inj_on_def)
  with IH show ?case by auto
qed simp

text \<open>Any order Go may iterate over a map in.\<close>

definition enumerates :: "((string \<rightharpoonup> data_variable) \<Rightarrow> data_variable list) \<Rightarrow> bool" where
  "enumerates order \<longleftrightarrow> (\<forall>f. finite (dom f) \<longrightarrow> set (order f) = ran f \<and> distinct (order f))"

lemma order_collected:
  assumes "enumerates order" and "inj_on VarName (set ds)"
  shows "set (order (collect_vars ds Map.empty)) = set ds"
proof -
  let ?f = "collect_vars ds Map.empty"
  have "dom ?f = VarName ` set ds"
    using collected_vars[OF assms(2)] by (auto simp: dom_def image_iff)
  then have "finite (dom ?f)" by simp
  moreover have "ran ?f = set ds"
    using collected_vars[OF assms(2)] by (auto simp: ran_def)
  ultimately show ?thesis using assms(1) by (simp add: enumerates_def)
qed

text \<open>The snapshots of the data section in the mappings: prefixes of the final one, the last complete.\<close>

definition covered :: "transpiler \<Rightarrow> bool" where
  "covered tr \<longleftrightarrow>
     (\<Union>m\<in>set (debugMappings tr). set (DataVariables m)) = set (getDataSectionSnapshot tr) \<and>
     \<not> DisableDebugMappings (config tr)"

lemma snapshot_mono:
  assumes "tr_le tr tr'"
  shows "set (getDataSectionSnapshot tr) \<subseteq> set (getDataSectionSnapshot tr')"
proof -
  obtain vs where "ds_values (dataSection tr') = ds_values (dataSection tr) @ vs"
    using assms by (auto simp: tr_le_def)
  then have "set (Iter (dataSection tr)) \<subseteq> set (Iter (dataSection tr'))"
    by (auto simp: Iter_def nth_append)
  then show ?thesis by (auto simp: getDataSectionSnapshot_def)
qed

lemma trace_step_covered:
  assumes "covered tr" and "trace_step L ins st i tr = Inr tr'"
  shows "covered tr'"
proof -
  obtain op rs where step: "AddInstructionWithResult L op st rs tr = Inr tr'"
    using assms(2) by (auto simp: trace_step_def)
  have dbg: "\<not> DisableDebugMappings (config tr)" using assms(1) by (simp add: covered_def)
  have le: "tr_le tr tr'" by (rule AddInstruction_le[OF step])
  from AddInstruction_record[OF step dbg] show ?thesis
  proof
    assume "tr' = tr"
    with assms(1) show ?thesis by simp
  next
    assume "\<exists>m. debugMappings tr' = debugMappings tr @ [m] \<and>
      RiscVInstructions m = drop (length (instructions tr)) (instructions tr') \<and>
      DataVariables m = getDataSectionSnapshot tr'"
    then have "(\<Union>m\<in>set (debugMappings tr'). set (DataVariables m)) =
        (\<Union>m\<in>set (debugMappings tr). set (DataVariables m)) \<union> set (getDataSectionSnapshot tr')"
      by auto
    also have "\<dots> = set (getDataSectionSnapshot tr')"
      using assms(1) snapshot_mono[OF le] by (auto simp only: covered_def)
    finally show ?thesis using dbg le by (simp add: covered_def tr_le_def)
  qed
qed

interpretation covering: fallible_machine "trace_step L ins st" covered tr_le for L ins st
  by unfold_locales (blast intro: trace_step_covered trace_step_le tr_le_trans tr_le_refl)+

lemma snapshot_inj: "inj_on VarName (set (getDataSectionSnapshot tr))"
  by (auto simp: getDataSectionSnapshot_def Iter_def inj_on_def)

lemma mapped_run:
  assumes "ProcessExecution L ins st (NewTranspilerWithConfig cfg) = Inr (tr', sn)"
    and "\<not> DisableDebugMappings cfg"
  shows "concat (map RiscVInstructions (debugMappings tr')) = instructions tr'"
proof -
  have "mapped (NewTranspilerWithConfig cfg) = instructions (NewTranspilerWithConfig cfg) \<and>
      \<not> DisableDebugMappings (config (NewTranspilerWithConfig cfg))"
    using assms(2) by (simp add: mapped_def NewTranspilerWithConfig_def)
  from mapping.run_inv[OF this ProcessExecution_Inr[OF assms(1)]] show ?thesis
    by (simp add: mapped_def)
qed

text \<open>
  The saved mappings of a transaction stand for its program: the file the search builds from all
  of them has exactly the instructions of the original program and the same data variables, in
  whatever order Go iterates over its map, so a failing program is found again by the search.
\<close>

theorem all_mappings_are_the_program:
  assumes "ProcessExecution L ins st (NewTranspilerWithConfig cfg) = Inr (tr', sn)"
    and "\<not> DisableDebugMappings cfg" and "enumerates order"
  shows "Instructions (prefix_file order (GetDebugMappings tr') (int (length (GetDebugMappings tr')) - 1)) =
      Instructions (ToAssembly tr') \<and>
    set (DataSec (prefix_file order (GetDebugMappings tr') (int (length (GetDebugMappings tr')) - 1))) =
      set (DataSec (ToAssembly tr'))"
proof -
  have "covered (NewTranspilerWithConfig cfg)"
    using assms(2) by (simp add: covered_def NewTranspilerWithConfig_def getDataSectionSnapshot_def
        NewDataSection_def Iter_def)
  from covering.run_inv[OF this ProcessExecution_Inr[OF assms(1)]]
  have "set (concat (map DataVariables (debugMappings tr'))) = set (getDataSectionSnapshot tr')"
    by (auto simp: covered_def)
  moreover from this have "inj_on VarName (set (concat (map DataVariables (debugMappings tr'))))"
    using snapshot_inj by simp
  ultimately show ?thesis
    using order_collected[OF assms(3), of "concat (map DataVariables (debugMappings tr'))"]
      mapped_run[OF assms(1,2)]
    by (simp add: prefix_file_def gather_take GetDebugMappings_def ToAssembly_def getDataSectionSnapshot_def)
qed

text \<open>An order: the variables sorted by nothing but their occurrence in a list of all labels.\<close>

lemma enumerates_exists: "\<exists>order. enumerates order"
proof -
  have "\<forall>f :: string \<rightharpoonup> data_variable. \<exists>xs. finite (dom f) \<longrightarrow> set xs = ran f \<and> distinct xs"
    using finite_distinct_list[OF finite_ran] by blast
  then obtain order where "\<forall>f :: string \<rightharpoonup> data_variable. finite (dom f) \<longrightarrow> set (order f) = ran f \<and> distinct (order f)"
    by metis
  then show ?thesis by (auto simp: enumerates_def)
qed

theorem all_mappings_are_the_program_witness:
  "\<exists>order tr' sn. ProcessExecution sample_lib demo_trace (Some demo_state)
      (NewTranspilerWithConfig (config NewTranspiler)) = Inr (tr', sn) \<and>
    Instructions (prefix_file order (GetDebugMappings tr') (int (length (GetDebugMappings tr')) - 1)) =
      Instructions (ToAssembly tr')"
proof -
  have "\<not> DisableDebugMappings (config NewTranspiler)"
    by (simp add: NewTranspiler_def NewTranspilerWithConfig_def)
  with demo_runs[of "NewTranspilerWithConfig (config NewTranspiler)"] enumerates_exists
    all_mappings_are_the_program
  show ?thesis by blast
qed

end
