(* ===== verification/Drivers.thy ===== *)
theory Drivers
  imports Commands Unicorn BlockTracing DebugSearch
begin

text \<open>
  The drivers around external programs: \<open>ToBytecode\<close> of compiler.go, which runs gcc on the debug
  file, \<open>CompileSolidity\<close> of solc.go, \<open>loadElfSections\<close> of unicorn_runner.go, and the commands
  \<open>block-prove\<close>, \<open>tx-prove\<close> (from the connection to the node to the exit) and \<open>debug-transpiler\<close>. The
  node and its services are parameters (\<open>node\<close>, \<open>service\<close>), as are gcc and solc (commands of
  Toolchain.thy), the hash function and the parsers; printing and the closing of services at the
  end are left out.
\<close>

section \<open>Temporary files\<close>

record temp_os =
  CreateTemp :: "string \<Rightarrow> world \<Rightarrow> string + string"
  CloseError :: "string \<Rightarrow> string option"
  RemoveError :: "string \<Rightarrow> string option"

definition createTemp :: "temp_os \<Rightarrow> string \<Rightarrow> string io" where
  "createTemp T pattern w =
     (case CreateTemp T pattern w of
        Inl e \<Rightarrow> (Inl (Err e), w)
      | Inr name \<Rightarrow> (Inr name, w\<lparr>files := (files w)(name \<mapsto> [])\<rparr>))"

definition closeFile :: "temp_os \<Rightarrow> string \<Rightarrow> unit io" where
  "closeFile T name = (case CloseError T name of None \<Rightarrow> returnIO () | Some e \<Rightarrow> failIO e)"

text \<open>\<open>os.Remove\<close>, whose error is logged at most.\<close>

definition removeFile :: "temp_os \<Rightarrow> string \<Rightarrow> world \<Rightarrow> world" where
  "removeFile T name w =
     (case RemoveError T name of None \<Rightarrow> w\<lparr>files := (files w)(name := None)\<rparr> | Some _ \<Rightarrow> w)"

text \<open>\<open>defer\<close>: the clean-up runs whatever the rest of the function returns.\<close>

definition deferring :: "(world \<Rightarrow> world) \<Rightarrow> 'a io \<Rightarrow> 'a io" where
  "deferring cleanup m w = (case m w of (r, w') \<Rightarrow> (r, cleanup w'))"

lemma deferring_Inr: "deferring c m w = (Inr x, w') \<longleftrightarrow> (\<exists>w1. m w = (Inr x, w1) \<and> w' = c w1)"
  by (auto simp: deferring_def split: prod.split)

section \<open>The assembler and linker\<close>

definition gcc_command :: "string \<Rightarrow> command" where
  "gcc_command name =
     \<lparr> cwd = [],
       argv = [''riscv64-linux-gnu-gcc'', ''-march=rv32im'', ''-mabi=ilp32'', ''-nostdlib'', ''-nostartfiles'',
         ''-static'', ''-Wl,--entry=execute'', ''-Wl,-Ttext=0x1000'', ''-Wl,-Tdata=0x12000'', ''-o'', name @ ''.o'', name] \<rparr>"

definition run_gcc :: "os_env \<Rightarrow> string \<Rightarrow> unit io" where
  "run_gcc S name w =
     (case Spawn S (gcc_command name) (files w) of
        ((out, err_out, err), fs) \<Rightarrow>
          ((case err of None \<Rightarrow> Inr () | Some e \<Rightarrow> Inl (Err (''failed to compile: '' @ err_out))),
           w\<lparr>files := fs, issued := issued w @ [gcc_command name]\<rparr>))"

definition ToBytecode :: "third_party \<Rightarrow> string \<Rightarrow> os_env \<Rightarrow> temp_os \<Rightarrow> assembly_file \<Rightarrow> bytes io" where
  "ToBytecode L libFile S T f =
     bindIO (liftR (toDebugFile L libFile f)) (\<lambda>assembly.
     bindIO (createTemp T ''*.s'') (\<lambda>name.
       deferring (removeFile T name)
         (bindIO (writeFileOS S name (text_bytes assembly)) (\<lambda>_.
          bindIO (closeFile T name) (\<lambda>_.
          bindIO (run_gcc S name) (\<lambda>_.
            deferring (removeFile T (name @ ''.o'')) (readFileOS (name @ ''.o''))))))))"

text \<open>
  A program that comes back is the object file gcc made from the debug text, and neither temporary
  file is left if they can be removed.
\<close>

lemma bytecode_comes_from_gcc:
  assumes "ToBytecode L libFile S T f w = (Inr code, w')"
  shows "\<exists>assembly name out err_out fs. toDebugFile L libFile f = Inr assembly \<and>
    CreateTemp T ''*.s'' w = Inr name \<and>
    Spawn S (gcc_command name) ((files w)(name \<mapsto> text_bytes assembly)) = ((out, err_out, None), fs) \<and>
    fs (name @ ''.o'') = Some code \<and> issued w' = issued w @ [gcc_command name] \<and>
    (RemoveError T name = None \<longrightarrow> RemoveError T (name @ ''.o'') = None \<longrightarrow>
       files w' = fs(name @ ''.o'' := None, name := None))"
  using assms unfolding ToBytecode_def
  by (auto simp: bindIO_Inr deferring_Inr liftR_Inr createTemp_def closeFile_def writeFileOS_def run_gcc_def
      readFileOS_def removeFile_def returnIO_def failIO_def split: sum.splits option.splits prod.splits if_splits)

section \<open>The Solidity compiler\<close>

text \<open>\<open>strings.Split(s, "\n")\<close>: a last line without a newline, possibly empty, is a line.\<close>

fun split_lines :: "string \<Rightarrow> string list" where
  "split_lines [] = [[]]"
| "split_lines (c # cs) =
     (if c = CHR 0x0A then [] # split_lines cs
      else (case split_lines cs of [] \<Rightarrow> [[c]] | l # ls \<Rightarrow> (c # l) # ls))"

definition solc_command :: "string \<Rightarrow> command" where
  "solc_command name = \<lparr>cwd = [], argv = [''solc'', ''--optimize'', ''--via-ir'', ''--bin-runtime'', name]\<rparr>"

definition run_solc :: "os_env \<Rightarrow> string \<Rightarrow> string io" where
  "run_solc S name w =
     (case Spawn S (solc_command name) (files w) of
        ((out, err_out, err), fs) \<Rightarrow>
          ((case err of None \<Rightarrow> Inr out | Some e \<Rightarrow> Inl (Err e)),
           w\<lparr>files := fs, issued := issued w @ [solc_command name]\<rparr>))"

text \<open>
  The line two below the first one that contains the contract's name; \<open>None\<close> is the nil that is
  returned without an error when there is no such line. The bytes before a bad digit, which come
  back beside the error, are left out.
\<close>

fun contract_code :: "string \<Rightarrow> string list \<Rightarrow> string + bytes option" where
  "contract_code name [] = Inr None"
| "contract_code name (line # rest) =
     (if contains name line \<and> 2 \<le> length rest then map_sum id Some (hex_decode (rest ! 1))
      else contract_code name rest)"

definition CompileSolidity :: "os_env \<Rightarrow> temp_os \<Rightarrow> string \<Rightarrow> string \<Rightarrow> bytes option io" where
  "CompileSolidity S T source contractName =
     bindIO (createTemp T ''*.sol'') (\<lambda>name.
       deferring (removeFile T name)
         (bindIO (attempt (writeFileOS S name (text_bytes source))) (\<lambda>_.
          bindIO (run_solc S name) (\<lambda>out. liftE (contract_code contractName (split_lines out))))))"

definition EncodeCallData :: "(bytes \<Rightarrow> bytes) \<Rightarrow> string \<Rightarrow> bytes result" where
  "EncodeCallData Keccak256 signature = go_slice (Keccak256 (text_bytes signature)) 0 4"

text \<open>The code of a contract is found below its header, if no line before the header has its name.\<close>

lemma contract_code_found:
  assumes "list_all (\<lambda>l. \<not> contains name l) before" and "contains name header"
  shows "contract_code name (before @ header # title # code # rest) = map_sum id Some (hex_decode code)"
  using assms by (induction before) simp_all

text \<open>A name that is part of another contract's name gets that contract's code, when it comes first.\<close>

lemma contract_code_mixed_up:
  assumes "contains name other"
  shows "contract_code name (other # title # code # rest) = map_sum id Some (hex_decode code)"
  using contract_code_found[of name "[]"] assms by simp

lemma EncodeCallData_selector:
  "length (Keccak256 (text_bytes signature)) = 32 \<Longrightarrow>
   EncodeCallData Keccak256 signature = Inr (take 4 (Keccak256 (text_bytes signature)))"
  by (simp add: EncodeCallData_def go_slice_def)

section \<open>Loading an ELF file\<close>

record elf_file =
  Entry :: u64
  Sections :: "elf_section list"

text \<open>
  The entry point and the memory writes, in order. Errors of the writes and of closing the
  temporary file are ignored by the code.
\<close>

definition loadElfSections :: "os_env \<Rightarrow> temp_os \<Rightarrow> (bytes \<Rightarrow> string + elf_file) \<Rightarrow> bytes
    \<Rightarrow> (u64 \<times> (u64 \<times> bytes) list) io" where
  "loadElfSections S T openElf bytecode =
     bindIO (createTemp T ''*.elf'') (\<lambda>name.
       deferring (removeFile T name)
         (bindIO (writeFileOS S name bytecode) (\<lambda>_.
          bindIO (orElse (bindIO (readFileOS name) (\<lambda>content. liftE (openElf content)))
                    (\<lambda>e. ''failed to parse ELF file: '' @ e)) (\<lambda>elfFile.
            returnIO (Entry elfFile, elf_writes (Sections elfFile))))))"

section \<open>The node\<close>

text \<open>
  What the commands use of a connected node: \<open>RemoteServices\<close> gives the error of connecting, \<open>APIList\<close>
  the services with their namespaces, \<open>HexToHash\<close> reads a hash. The Ethereum service answers
  \<open>GetBlockByNumber\<close>, \<open>None\<close> for nil; the value of a field that is not an array of transactions is
  \<open>OtherValue\<close>. The debug service says what \<open>TraceTransaction\<close> returns and writes to the stream, given
  what the tracer returned, if it was asked: a transaction whose \<open>EvmCalls\<close> is an error is not traced.
\<close>

datatype rpc_value = TxArray "hash option list" | OtherValue

datatype service =
    EthAPI "int \<Rightarrow> string + (string \<rightharpoonup> rpc_value) option"
  | DebugAPIImpl "hash \<Rightarrow> bytes result option \<Rightarrow> string option \<times> bytes"
  | OtherService

record node =
  RemoteServices :: "string option"
  APIList :: "(string \<times> service) list"
  HexToHash :: "string \<Rightarrow> hash"
  Erigon :: erigon

fun findEth :: "(string \<times> service) list \<Rightarrow> (int \<Rightarrow> string + (string \<rightharpoonup> rpc_value) option) option" where
  "findEth [] = None"
| "findEth ((namespace, EthAPI api) # apis) = (if namespace = ''eth'' then Some api else findEth apis)"
| "findEth (_ # apis) = findEth apis"

fun findDebug :: "(string \<times> service) list \<Rightarrow> (hash \<Rightarrow> bytes result option \<Rightarrow> string option \<times> bytes) option" where
  "findDebug [] = None"
| "findDebug ((namespace, DebugAPIImpl api) # apis) = (if namespace = ''debug'' then Some api else findDebug apis)"
| "findDebug (_ # apis) = findDebug apis"

lemma findEth_in: "findEth apis = Some api \<Longrightarrow> (''eth'', EthAPI api) \<in> set apis"
  by (induction apis rule: findEth.induct) (auto split: if_splits)

lemma findDebug_in: "findDebug apis = Some api \<Longrightarrow> (''debug'', DebugAPIImpl api) \<in> set apis"
  by (induction apis rule: findDebug.induct) (auto split: if_splits)

text \<open>A call through a nil service.\<close>

definition panicIO :: "string \<Rightarrow> 'a io" where
  "panicIO m w = (Inl (Panic m), w)"

definition nil_pointer :: string where
  "nil_pointer = ''invalid memory address or nil pointer dereference''"

text \<open>The status of a process whose command returned, or called \<open>os.Exit\<close> with a status itself.\<close>

fun exit_status :: "nat result \<Rightarrow> nat" where
  "exit_status (Inr n) = n"
| "exit_status (Inl (Err e)) = 1"
| "exit_status (Inl (Panic e)) = 2"

section \<open>tx-prove\<close>

text \<open>The flags when none is given.\<close>

definition default_tx_flags :: tx_flags where
  "default_tx_flags = \<lparr>debugMode = False, debugAssembly = False, skipProving = False, assemblyFile = ''transpiled.s''\<rparr>"

text \<open>The error, whether the tracer's result was asked for, and what was streamed.\<close>

definition TraceTransaction :: "third_party \<Rightarrow> encoders \<Rightarrow> erigon
    \<Rightarrow> (hash \<Rightarrow> bytes result option \<Rightarrow> string option \<times> bytes)
    \<Rightarrow> (state_tracer \<Rightarrow> results_file io) \<Rightarrow> hash \<Rightarrow> (string option \<times> bool \<times> bytes) io" where
  "TraceTransaction L J E api createResults txHash w =
     (case EvmCalls E txHash of
        Inl e \<Rightarrow> (case api txHash None of (err, buf) \<Rightarrow> (Inr (err, False, buf), w))
      | Inr calls \<Rightarrow>
          (case NewTracerHooks L J createResults calls w of
             (Inl (Panic m), w') \<Rightarrow> (Inl (Panic m), w')
           | (r, w') \<Rightarrow> (case api txHash (Some r) of (err, buf) \<Rightarrow> (Inr (err, True, buf), w'))))"

definition tx_prove :: "third_party \<Rightarrow> os_env \<Rightarrow> encoders \<Rightarrow> string \<Rightarrow> node \<Rightarrow> string \<Rightarrow> string \<Rightarrow> tx_flags \<Rightarrow> nat io" where
  "tx_prove L S J libFile N txHash outputFile fl =
     (if RemoteServices N \<noteq> None then returnIO 0
      else
        (case findDebug (APIList N) of
           None \<Rightarrow> panicIO nil_pointer
         | Some api \<Rightarrow>
             bindIO (TraceTransaction L J (Erigon N) api (tx_results L S J libFile fl) (HexToHash N txHash))
               (\<lambda>(err, ranTracer, results).
                 if err \<noteq> None then returnIO 1
                 else if \<not> ranTracer then returnIO 1
                 else if outputFile \<noteq> [] then bindIO (writeFileOS S outputFile results) (\<lambda>_. returnIO 0)
                 else returnIO 0)))"

section \<open>block-prove\<close>

text \<open>The flags when none is given, other than the block's number, which is parsed later.\<close>

definition default_block_flags :: block_flags where
  "default_block_flags =
     \<lparr>bfBlockNum = 0, bfDebugAssembly = False, bfAssemblyFile = ''transpiled_block.s'', bfDebugMode = False,
      bfSkipProof = False, bfUseStarkProof = False\<rparr>"

text \<open>\<open>strconv.ParseUint\<close> in base ten at 64 bits.\<close>

definition numeral_error :: "string \<Rightarrow> string \<Rightarrow> string" where
  "numeral_error s e = ''strconv.ParseUint: parsing '' @ [CHR 0x22] @ s @ [CHR 0x22] @ '': '' @ e"

definition ParseUint :: "string \<Rightarrow> string + u64" where
  "ParseUint s =
     (let digits = takeWhile (\<lambda>c. c \<in> set ''0123456789'') s in
      case read_nat digits of
        None \<Rightarrow> Inl (numeral_error s ''invalid syntax'')
      | Some n \<Rightarrow>
          if 2 ^ 64 \<le> n then Inl (numeral_error s ''value out of range'')
          else if digits \<noteq> s then Inl (numeral_error s ''invalid syntax'')
          else Inr (word_of_nat n))"

lemma ParseUint_Inr:
  assumes "ParseUint s = Inr n"
  shows "read_nat s = Some (unat n)"
proof -
  define digits where "digits = takeWhile (\<lambda>c. c \<in> set ''0123456789'') s"
  from assms obtain k where "read_nat digits = Some k" "k < 2 ^ 64" "digits = s" "n = word_of_nat k"
    unfolding ParseUint_def Let_def digits_def[symmetric] by (cases "read_nat digits") (simp_all split: if_splits)
  then show ?thesis by (simp add: unat_of_nat take_bit_nat_eq_self)
qed

text \<open>
  Up to the call of \<open>processBlockAsUnit\<close>: the block's number, its transactions and the time it took to
  fetch it; \<open>None\<close> when the command has returned nil. The number is converted to the signed
  \<open>rpc.BlockNumber\<close>.
\<close>

definition block_prove_setup :: "os_env \<Rightarrow> node \<Rightarrow> string \<Rightarrow> (u64 \<times> hash option list \<times> int) option io" where
  "block_prove_setup S N blockArg =
     (if blockArg = [] then failIO ''block-number is required''
      else if RemoteServices N \<noteq> None then returnIO None
      else
        bindIO (orElse (liftE (ParseUint blockArg)) (\<lambda>e. ''invalid block number: '' @ e)) (\<lambda>blockNum.
        bindIO (now S) (\<lambda>blockFetchStart.
          (case findEth (APIList N) of
             None \<Rightarrow> panicIO nil_pointer
           | Some GetBlockByNumber \<Rightarrow>
               bindIO (now S) (\<lambda>blockFetchEnd.
               bindIO (orElse (liftE (GetBlockByNumber (sint blockNum))) (\<lambda>e. ''failed to get block: '' @ e)) (\<lambda>blockData.
                 (case blockData of
                    None \<Rightarrow> failIO ''block not found''
                  | Some blockFields \<Rightarrow>
                      (case blockFields ''transactions'' of
                         None \<Rightarrow> failIO ''block has no transactions field''
                       | Some OtherValue \<Rightarrow> failIO ''transactions field is not an array''
                       | Some (TxArray txs) \<Rightarrow>
                           returnIO (Some (blockNum, txs, blockFetchEnd - blockFetchStart))))))))))"

text \<open>
  \<open>processBlockAsUnit\<close> with the trace results of a finished run of the goroutines.
\<close>

definition processBlockAsUnit :: "third_party \<Rightarrow> erigon \<Rightarrow> os_env \<Rightarrow> encoders \<Rightarrow> string \<Rightarrow> block_flags \<Rightarrow> int
    \<Rightarrow> trace_result list \<Rightarrow> block_result io" where
  "processBlockAsUnit L E S J libFile fl blockFetchTime rs =
     bindIO (now S) (\<lambda>txFetchStart.
     bindIO (now S) (\<lambda>txFetchEnd.
       process_traced_block L E S J libFile fl blockFetchTime (txFetchEnd - txFetchStart) rs))"

text \<open>The whole command: its result, under some schedule of the goroutines, and the world it leaves.\<close>

inductive block_prove :: "third_party \<Rightarrow> os_env \<Rightarrow> encoders \<Rightarrow> string \<Rightarrow> node \<Rightarrow> string \<Rightarrow> int \<Rightarrow> block_flags
    \<Rightarrow> world \<Rightarrow> block_result option result \<Rightarrow> world \<Rightarrow> bool"
  for L S J libFile N blockArg maxTxs fl where
  failed: "block_prove_setup S N blockArg w = (Inl e, w') \<Longrightarrow>
    block_prove L S J libFile N blockArg maxTxs fl w (Inl e) w'"
| not_connected: "block_prove_setup S N blockArg w = (Inr None, w') \<Longrightarrow>
    block_prove L S J libFile N blockArg maxTxs fl w (Inr None) w'"
| no_debug_api: "block_prove_setup S N blockArg w = (Inr (Some (blockNum, txs, fetchTime)), w') \<Longrightarrow>
    findDebug (APIList N) = None \<Longrightarrow> make_jobs maxTxs 0 txs [] \<noteq> [] \<Longrightarrow>
    block_prove L S J libFile N blockArg maxTxs fl w (Inl (Panic nil_pointer)) w'"
| processed: "block_prove_setup S N blockArg w = (Inr (Some (blockNum, txs, fetchTime)), w1) \<Longrightarrow>
    findDebug (APIList N) \<noteq> None \<or> make_jobs maxTxs 0 txs [] = [] \<Longrightarrow>
    reachable L (Erigon N) maxConcurrent (make_jobs maxTxs 0 txs []) s \<Longrightarrow> all_done s \<Longrightarrow>
    processBlockAsUnit L (Erigon N) S J libFile (fl\<lparr>bfBlockNum := blockNum\<rparr>) fetchTime (results s) w1 = (r, w') \<Longrightarrow>
    block_prove L S J libFile N blockArg maxTxs fl w (map_sum id Some r) w'"

inductive_cases block_proveE: "block_prove L S J libFile N blockArg maxTxs fl w r w'"


section \<open>debug-transpiler\<close>

text \<open>
  The arguments with the program's own name first. Whether a file proves is a parameter, and what
  the proofs leave in the world is left out. The assembly of the last attempt is written before the
  report.
\<close>

definition debug_transpiler :: "third_party \<Rightarrow> string \<Rightarrow> os_env \<Rightarrow> (bytes \<Rightarrow> string + evm_to_riscv_mapping list)
    \<Rightarrow> ((string \<rightharpoonup> data_variable) \<Rightarrow> data_variable list) \<Rightarrow> (string \<Rightarrow> bool) \<Rightarrow> string list
    \<Rightarrow> verdict io" where
  "debug_transpiler L libFile S unmarshal order proves args =
     (if length args < 2 then failIO ''usage''
      else
        bindIO (readFileOS (args ! 1)) (\<lambda>content.
        bindIO (liftE (unmarshal content)) (\<lambda>mappings.
        bindIO (liftR (debug_search L libFile order proves mappings)) (\<lambda>(r, assembly).
        bindIO (attempt (writeFileOS S ''debug_transpiler_assembly.s'' (text_bytes assembly))) (\<lambda>_. liftR r)))))"

section \<open>Every command ends\<close>

lemma reachable_done: "\<exists>s. reachable L E maxConcurrent jobs s \<and> all_done s"
proof -
  have "\<exists>s'. reachable L E maxConcurrent jobs s' \<and> all_done s'" if "reachable L E maxConcurrent jobs s" for s
    using that
  proof (induction "work s" arbitrary: s rule: less_induct)
    case less
    have len: "length (phases s) = length jobs" using reachable_length[OF less.prems] .
    show ?case
    proof (cases "all_done s")
      case False
      then obtain s' where m: "moves L E maxConcurrent jobs s s'"
        using some_move[OF len, of maxConcurrent L E] by (auto simp: maxConcurrent_def)
      then have "work s' < work s" using move_work[OF m len] by simp
      moreover have "reachable L E maxConcurrent jobs s'"
        using less.prems m by (simp add: reachable_def)
      ultimately show ?thesis by (rule less.hyps)
    qed (use less.prems in blast)
  qed
  then show ?thesis by (auto simp: reachable_def)
qed

lemma block_prove_ends: "\<exists>r w'. block_prove L S J libFile N blockArg maxTxs fl w r w'"
proof (cases "block_prove_setup S N blockArg w")
  case (Pair r w1)
  consider e where "r = Inl e" | "r = Inr None" | b where "r = Inr (Some b)"
    by (cases r; metis option.exhaust)
  then show ?thesis
  proof cases
    case 3
    obtain n txs t where b: "b = (n, txs, t)" by (cases b)
    obtain s where s: "reachable L (Erigon N) maxConcurrent (make_jobs maxTxs 0 txs []) s" "all_done s"
      using reachable_done by blast
    show ?thesis
    proof (cases "findDebug (APIList N) = None \<and> make_jobs maxTxs 0 txs [] \<noteq> []")
      case True
      with Pair 3 b show ?thesis by (blast intro: no_debug_api)
    next
      case False
      obtain r' w2 where "processBlockAsUnit L (Erigon N) S J libFile (fl\<lparr>bfBlockNum := n\<rparr>) t (results s) w1 = (r', w2)"
        by fastforce
      with False Pair 3 b s show ?thesis by (blast intro: processed)
    qed
  qed (use Pair in \<open>blast intro: failed not_connected\<close>)+
qed

end
