(* ===== verification/DriverProps.thy ===== *)
theory DriverProps
  imports Drivers CommandProps BlockProps
begin

text \<open>
  Properties of the commands that read from a node: what \<open>block-prove\<close> reports of the block it
  fetched, under every schedule of its goroutines, and what a node that cannot be reached leads to.
\<close>

section \<open>Positions in the block\<close>

definition in_block :: "hash option list \<Rightarrow> int \<Rightarrow> nat \<Rightarrow> trace_job list \<Rightarrow> bool" where
  "in_block txs maxTxs i jobs \<longleftrightarrow>
     sorted_wrt (<) (map jTxIndex jobs) \<and>
     (\<forall>j\<in>set jobs. jTxIndex j < i \<and> jTxIndex j < length txs \<and> txs ! jTxIndex j = Some (jTxHash j) \<and>
        (maxTxs > 0 \<longrightarrow> int (jTxIndex j) < maxTxs))"

lemma in_block_snoc:
  "in_block txs maxTxs i jobs \<Longrightarrow> i < length txs \<Longrightarrow> txs ! i = Some h \<Longrightarrow> \<not> (maxTxs > 0 \<and> int i \<ge> maxTxs) \<Longrightarrow>
   in_block txs maxTxs (i + 1) (jobs @ [\<lparr>jIndex = k, jTxIndex = i, jTxHash = h\<rparr>])"
  by (auto simp: in_block_def sorted_wrt_append)

lemma in_block_skip: "in_block txs maxTxs i jobs \<Longrightarrow> in_block txs maxTxs (i + 1) jobs"
  by (auto simp: in_block_def)

lemma make_jobs_in_block:
  assumes "in_block txs maxTxs i jobs" and "rest = drop i txs"
  shows "\<exists>k. in_block txs maxTxs k (make_jobs maxTxs i rest jobs)"
  using assms
proof (induction maxTxs i rest jobs rule: make_jobs.induct)
  case (2 maxTxs i tx rest jobs)
  have len: "i < length txs" using 2(4) by (rule contrapos_pp) simp
  with 2(4) have i: "i < length txs" "txs ! i = tx" "rest = drop (i + 1) txs"
    by (simp_all add: Cons_nth_drop_Suc[symmetric])
  show ?case
  proof (cases "maxTxs > 0 \<and> int i \<ge> maxTxs")
    case True
    with 2(3) show ?thesis by auto
  next
    case False
    show ?thesis
    proof (cases tx)
      case None
      with 2(1)[OF False None in_block_skip[OF 2(3)] i(3)] False show ?thesis by auto
    next
      case (Some h)
      with 2(2)[OF False Some _ i(3)] in_block_snoc[OF 2(3) i(1)] i(2) False show ?thesis by auto
    qed
  qed
qed auto

lemma block_jobs: "\<exists>k. in_block txs maxTxs k (make_jobs maxTxs 0 txs [])"
  by (rule make_jobs_in_block) (simp_all add: in_block_def)

text \<open>The results of a finished run are those of the jobs, slot by slot.\<close>

lemma finished_results:
  assumes "reachable L E maxConcurrent jobs s" and "numbered jobs" and "all_done s"
  shows "map rTxIndex (results s) = map jTxIndex jobs \<and> map rTxHash (results s) = map jTxHash jobs"
proof -
  have inv: "sys_inv L E maxConcurrent jobs s" using reachable_inv[OF assms(2,1)] .
  have "rTxIndex (results s ! i) = jTxIndex (jobs ! i) \<and> rTxHash (results s ! i) = jTxHash (jobs ! i)"
    if i: "i < length jobs" for i
  proof -
    have "phases s ! i = Finished"
      using assms(3) i inv by (simp add: all_done_def list_all_length sys_inv_def)
    moreover have "slot_ok L E jobs (jobs ! i) (phases s ! i) (results s ! i)"
      using inv i by (simp add: sys_inv_def)
    ultimately show ?thesis by (simp add: result_of_def)
  qed
  moreover have "length (results s) = length jobs" using inv by (simp add: sys_inv_def)
  ultimately show ?thesis by (simp add: list_eq_iff_nth_eq)
qed

lemma sorted_wrt_filtered: "sorted_wrt P (map f xs) \<Longrightarrow> sorted_wrt P (map f (filter Q xs))"
  by (simp add: sorted_wrt_map sorted_wrt_filter)

section \<open>block-prove\<close>

lemma setup_Inr:
  assumes "block_prove_setup S N blockArg w = (Inr (Some (n, txs, fetchTime)), w')"
  obtains api blockFields where "read_nat blockArg = Some (unat n)" "findEth (APIList N) = Some api"
    "api (sint n) = Inr (Some blockFields)" "blockFields ''transactions'' = Some (TxArray txs)"
proof -
  from assms obtain api blockFields where "ParseUint blockArg = Inr n" "findEth (APIList N) = Some api"
    "api (sint n) = Inr (Some blockFields)" "blockFields ''transactions'' = Some (TxArray txs)"
    by (auto simp: block_prove_setup_def bindIO_Inr now_Inr returnIO_Inr liftE_def failIO_def panicIO_def
        split: if_splits sum.splits option.splits rpc_value.splits)
  with ParseUint_Inr show thesis by (blast intro: that)
qed

lemma processed_block:
  assumes "processBlockAsUnit L E S J libFile fl fetchTime rs w = (Inr r, w')"
  shows "brBlockNumber r = bfBlockNum fl \<and> brTransactions r = map (proof_result_of E) (successful rs)"
proof -
  from assms obtain t w1 where "process_traced_block L E S J libFile fl fetchTime t rs w1 = (Inr r, w')"
    by (auto simp: processBlockAsUnit_def bindIO_Inr now_Inr)
  then obtain tr prs g d a b c where
    p: "process_results L E (length rs) 0 rs (NewTranspiler, []) = Inr (tr, prs)"
      "r = block_report fl prs g fetchTime t a b d c"
    by (rule process_traced_block_Inr)
  from process_results_listed[OF p(1)] p(2) show ?thesis by (simp add: block_report_def)
qed

text \<open>The transactions listed from the results of a finished run.\<close>

lemma listed_in_block:
  assumes "reachable L E maxConcurrent (make_jobs maxTxs 0 txs []) s" and "all_done s"
  defines "listed \<equiv> map (proof_result_of E) (successful (results s))"
  shows "sorted_wrt (<) (map TransactionIndex listed)"
    and "p \<in> set listed \<Longrightarrow> 1 \<le> TransactionIndex p \<and> TransactionIndex p \<le> length txs \<and>
       (maxTxs > 0 \<longrightarrow> int (TransactionIndex p) \<le> maxTxs) \<and>
       (\<exists>h. txs ! (TransactionIndex p - 1) = Some h \<and> TransactionHash p = HashString E h)"
proof -
  obtain k where k: "in_block txs maxTxs k (make_jobs maxTxs 0 txs [])" using block_jobs by blast
  note f = finished_results[OF assms(1) start_numbered assms(2)]
  have "sorted_wrt (<) (map rTxIndex (successful (results s)))"
    unfolding successful_def using k f by (intro sorted_wrt_filtered) (simp add: in_block_def)
  then show "sorted_wrt (<) (map TransactionIndex listed)"
    by (simp add: listed_def sorted_wrt_map proof_result_of_def)
  assume "p \<in> set listed"
  then obtain x where x: "x \<in> set (results s)" "p = proof_result_of E x"
    by (auto simp: listed_def successful_def)
  have len: "length (results s) = length (make_jobs maxTxs 0 txs [])" using f map_eq_imp_length_eq by blast
  obtain i where i: "i < length (results s)" "results s ! i = x" using x(1) by (auto simp: in_set_conv_nth)
  define j where "j = make_jobs maxTxs 0 txs [] ! i"
  have "j \<in> set (make_jobs maxTxs 0 txs [])" using i len by (simp add: j_def)
  moreover have "rTxIndex x = jTxIndex j" "rTxHash x = jTxHash j"
    using f i len unfolding j_def by (metis nth_map)+
  ultimately obtain j where "j \<in> set (make_jobs maxTxs 0 txs [])" "rTxIndex x = jTxIndex j" "rTxHash x = jTxHash j"
    by blast
  with k x(2) show "1 \<le> TransactionIndex p \<and> TransactionIndex p \<le> length txs \<and>
       (maxTxs > 0 \<longrightarrow> int (TransactionIndex p) \<le> maxTxs) \<and>
       (\<exists>h. txs ! (TransactionIndex p - 1) = Some h \<and> TransactionHash p = HashString E h)"
    by (fastforce simp: in_block_def proof_result_of_def)
qed

text \<open>
  C28. The report of \<open>block-prove\<close> is about the block that was asked for: under every schedule, a run
  of the command that writes one parsed the block number, fetched that block from the node, and lists
  transactions of it only, each at its position and under its hash, in block order without
  repetition and within the limit.
\<close>

theorem report_is_of_the_block:
  assumes "block_prove L S J libFile N blockArg maxTxs fl w (Inr (Some r)) w'"
  shows "\<exists>n api blockFields txs. read_nat blockArg = Some (unat n) \<and> brBlockNumber r = n \<and>
    findEth (APIList N) = Some api \<and> api (sint n) = Inr (Some blockFields) \<and>
    blockFields ''transactions'' = Some (TxArray txs) \<and>
    sorted_wrt (<) (map TransactionIndex (brTransactions r)) \<and>
    (\<forall>p\<in>set (brTransactions r). 1 \<le> TransactionIndex p \<and> TransactionIndex p \<le> length txs \<and>
       (maxTxs > 0 \<longrightarrow> int (TransactionIndex p) \<le> maxTxs) \<and>
       (\<exists>h. txs ! (TransactionIndex p - 1) = Some h \<and> TransactionHash p = HashString (Erigon N) h))"
proof -
  from assms obtain n txs fetchTime w1 s where
    fetched: "block_prove_setup S N blockArg w = (Inr (Some (n, txs, fetchTime)), w1)"
    and run: "reachable L (Erigon N) maxConcurrent (make_jobs maxTxs 0 txs []) s" "all_done s"
    and report: "processBlockAsUnit L (Erigon N) S J libFile (fl\<lparr>bfBlockNum := n\<rparr>) fetchTime (results s) w1 = (Inr r, w')"
    by (auto elim!: block_proveE simp: map_sum_def split: sum.splits)
  from fetched obtain api blockFields where "read_nat blockArg = Some (unat n)" "findEth (APIList N) = Some api"
    "api (sint n) = Inr (Some blockFields)" "blockFields ''transactions'' = Some (TxArray txs)"
    by (rule setup_Inr)
  with processed_block[OF report] listed_in_block[OF run] show ?thesis
    by (intro exI[of _ n] exI[of _ api] exI[of _ blockFields] exI[of _ txs]) simp
qed

text \<open>A sample node whose block holds one transfer after a transaction of an unknown type.\<close>

definition transfer_erigon :: erigon where
  "transfer_erigon = \<lparr>HashString = show_nat o be_nat, EvmCalls = (\<lambda>h. Inr []), PickLookup = last\<rparr>"

definition transfer_node :: node where
  "transfer_node =
     \<lparr> RemoteServices = None,
       APIList = [(''eth'', EthAPI (\<lambda>n. Inr (if n = 9 then Some [''transactions'' \<mapsto> TxArray [None, Some [7]]] else None))),
                  (''debug'', DebugAPIImpl (\<lambda>h r. (None, [])))],
       HexToHash = text_bytes, Erigon = transfer_erigon \<rparr>"

definition skipping_flags :: block_flags where
  "skipping_flags = default_block_flags\<lparr>bfSkipProof := True\<rparr>"

lemma transfer_setup:
  "\<exists>t w'. block_prove_setup demo_os transfer_node ''9'' empty_world = (Inr (Some (9, [None, Some [7]], t)), w')"
  by (simp add: block_prove_setup_def transfer_node_def bindIO_def orElse_def liftE_def now_def returnIO_def
      ParseUint_def read_nat_def digit_val_def Let_def)

lemma transfer_schedule:
  "\<exists>s. schedule sample_lib transfer_erigon maxConcurrent (make_jobs 0 0 [None, Some [7]] []) [0, 0, 0, 0, 0, 0]
     (start_sys (make_jobs 0 0 [None, Some [7]] [])) = Some s \<and> all_done s \<and>
     results s = [\<lparr>rIndex = 0, rTxIndex = 1, rTxHash = [7], rInstructions = [], rState = None, rError = None\<rparr>]"
  by (simp add: start_sys_def fire_defs in_use_def holding_def maxConcurrent_def transfer_erigon_def all_done_def
      written_result_def trace_outcome_def NewStateTracer_def)

lemma transfer_processed:
  assumes "rs = [\<lparr>rIndex = 0, rTxIndex = 1, rTxHash = [7], rInstructions = [], rState = None, rError = None\<rparr>]"
  shows "\<exists>r w'. processBlockAsUnit sample_lib transfer_erigon demo_os demo_encoders [] (skipping_flags\<lparr>bfBlockNum := 9\<rparr>) t rs w =
    (Inr r, w') \<and> brTransactionCount r = 1"
proof -
  have "tr_inv sample_lib NewTranspiler" using tr_inv_new[OF sample_lib_hex] by (simp add: NewTranspiler_def)
  then obtain content where "ToToolChainCompatibleAssembly sample_lib [] (ToAssembly NewTranspiler) = Inr content"
    using prints_valid by blast
  then show ?thesis
    by (simp add: processBlockAsUnit_def process_traced_block_def prove_block_def skipping_flags_def default_block_flags_def
        assms bindIO_def liftR_def now_def returnIO_def attempt_def Let_def wrap_error_def ProcessExecution_def block_report_def)
qed

theorem report_is_of_the_block_witness:
  "\<exists>r w'. block_prove sample_lib demo_os demo_encoders [] transfer_node ''9'' 0 skipping_flags empty_world (Inr (Some r)) w' \<and>
     brTransactionCount r = 1 \<and> brBlockNumber r = 9"
proof -
  obtain t w1 where fetched: "block_prove_setup demo_os transfer_node ''9'' empty_world = (Inr (Some (9, [None, Some [7]], t)), w1)"
    using transfer_setup by blast
  obtain s where s: "schedule sample_lib transfer_erigon maxConcurrent (make_jobs 0 0 [None, Some [7]] []) [0, 0, 0, 0, 0, 0]
      (start_sys (make_jobs 0 0 [None, Some [7]] [])) = Some s" "all_done s"
      "results s = [\<lparr>rIndex = 0, rTxIndex = 1, rTxHash = [7], rInstructions = [], rState = None, rError = None\<rparr>]"
    using transfer_schedule by blast
  have node: "Erigon transfer_node = transfer_erigon" "findDebug (APIList transfer_node) \<noteq> None"
    by (simp_all add: transfer_node_def)
  obtain r w' where r: "processBlockAsUnit sample_lib transfer_erigon demo_os demo_encoders []
      (skipping_flags\<lparr>bfBlockNum := 9\<rparr>) t (results s) w1 = (Inr r, w')" "brTransactionCount r = 1"
    using transfer_processed[OF s(3)] by blast
  have "reachable sample_lib (Erigon transfer_node) maxConcurrent (make_jobs 0 0 [None, Some [7]] []) s"
    unfolding reachable_def node(1) by (rule schedule_moves[OF s(1)])
  from processed[OF fetched _ this s(2), unfolded node(1), OF _ r(1)] node(2)
  have run: "block_prove sample_lib demo_os demo_encoders [] transfer_node ''9'' 0 skipping_flags empty_world (Inr (Some r)) w'"
    by simp
  obtain n where "read_nat ''9'' = Some (unat n)" "brBlockNumber r = n"
    using report_is_of_the_block[OF run] by blast
  moreover have "read_nat ''9'' = Some 9" by (simp add: read_nat_def digit_val_def)
  ultimately have "brBlockNumber r = 9" by (simp add: word_unat_eq_iff)
  with run r(2) show ?thesis by blast
qed

section \<open>A node that cannot be reached\<close>

text \<open>
  C39. When the node cannot be reached, both commands end as if they had succeeded: they return nil, the
  exit status is 0, and nothing was proved, written or run. A script that goes by the status takes the
  block or the transaction for proved.
\<close>

theorem unreachable_node_is_success:
  assumes "RemoteServices N = Some e"
  shows "tx_prove L S J libFile N txHash outputFile tf w = (Inr 0, w) \<and>
    exit_status (fst (tx_prove L S J libFile N txHash outputFile tf w)) = 0 \<and>
    (blockArg \<noteq> [] \<longrightarrow>
       (\<forall>r w'. block_prove L S J libFile N blockArg maxTxs fl w r w' \<longleftrightarrow> r = Inr None \<and> w' = w) \<and>
       exit_status (map_sum id (\<lambda>_. 0) (Inr None :: block_result option result)) = 0)"
proof -
  have "block_prove_setup S N blockArg w = (Inr None, w)" if "blockArg \<noteq> []"
    using that assms by (simp add: block_prove_setup_def returnIO_def)
  then have "block_prove L S J libFile N blockArg maxTxs fl w r w' \<longleftrightarrow> r = Inr None \<and> w' = w" if "blockArg \<noteq> []" for r w'
    using that by (auto elim!: block_proveE intro: not_connected)
  moreover have "tx_prove L S J libFile N txHash outputFile tf w = (Inr 0, w)"
    using assms by (simp add: tx_prove_def returnIO_def)
  ultimately show ?thesis by simp
qed

theorem unreachable_node_is_success_witness:
  "tx_prove sample_lib demo_os demo_encoders [] (transfer_node\<lparr>RemoteServices := Some ''refused''\<rparr>) ''0x01'' ''out.json'' default_tx_flags empty_world =
     (Inr 0, empty_world) \<and>
   block_prove sample_lib demo_os demo_encoders [] (transfer_node\<lparr>RemoteServices := Some ''refused''\<rparr>) ''9'' 0 default_block_flags empty_world (Inr None) empty_world"
  using unreachable_node_is_success[of "transfer_node\<lparr>RemoteServices := Some ''refused''\<rparr>" "''refused''"]
  by simp

end
