(* ===== verification/Copies.thy ===== *)
theory Copies
  imports Transpiler
begin

text \<open>
  The generators for \<open>CODECOPY\<close> and \<open>RETURNDATACOPY\<close> of \<open>transpiler/transpiler.go\<close> (lines 963-1039),
  which no case of the switch calls yet: the requested range of the data, padded with zeros, goes
  through the data section in chunks of 32 bytes, each copied word by word to its place in memory.
  The lemmas compare the range with the EVM's and the chunks with the range.
\<close>

section \<open>The generators\<close>

text \<open>
  \<open>make([]byte, length)\<close> panics above the size of the address space, 2^48 bytes on amd64. The end of
  the range is computed in 64 bits.
\<close>

definition maxAlloc :: nat where
  "maxAlloc = 2 ^ 48"

definition make_bytes :: "u64 \<Rightarrow> bytes result" where
  "make_bytes n =
     (if maxAlloc < unat n then Inl (Panic ''makeslice: len out of range'') else Inr (replicate (unat n) 0))"

definition copied_range :: "u64 \<Rightarrow> u64 \<Rightarrow> bytes \<Rightarrow> bytes result" where
  "copied_range offset n data =
     bindR (make_bytes n) (\<lambda>buf.
       if offset < word_of_nat (length data) then
         (let end0 = offset + n;
              end1 = (if end0 > word_of_nat (length data) then word_of_nat (length data) else end0)
          in bindR (go_slice data (unat offset) (unat end1)) (\<lambda>src. Inr (go_copy buf src)))
       else Inr buf)"

text \<open>The code that copies the value at a label to an address.\<close>

definition copy_value_code :: "u64 \<Rightarrow> string \<Rightarrow> instruction list" where
  "copy_value_code dest varName =
     [instr ''li'' [''t0'', show_nat (unat dest)], instr ''la'' [''t1'', varName]] @
     concat (map (\<lambda>i.
       [instr ''lw'' [''t2'', at_offset (word_of_nat (i * 4)) ''t1''],
        instr ''sw'' [''t2'', at_offset (word_of_nat (i * 4)) ''t0'']]) [0..<8])"

text \<open>The loop over the chunks, from byte \<open>i\<close> of \<open>n\<close>.\<close>

function copy_chunks :: "third_party \<Rightarrow> u64 \<Rightarrow> bytes \<Rightarrow> nat \<Rightarrow> nat \<Rightarrow> data_section \<Rightarrow> instruction list \<times> data_section" where
  "copy_chunks L dest buf n i ds =
     (if i < n then
        (let chunk = (if i < length buf then go_copy (replicate 32 0) (drop i buf) else replicate 32 0);
             (varName, ds1) = Add L (SetBytes L chunk) ds;
             (is, ds2) = copy_chunks L dest buf n (i + 32) ds1
         in (copy_value_code (dest + word_of_nat i) varName @ is, ds2))
      else ([], ds))"
  by pat_completeness auto

termination
  by (relation "measure (\<lambda>(L, dest, buf, n, i, ds). n - i)") auto

declare copy_chunks.simps [simp del]

definition codecopyCall :: "third_party \<Rightarrow> u64 \<Rightarrow> u64 \<Rightarrow> u64 \<Rightarrow> bytes \<Rightarrow> transpiler
    \<Rightarrow> (instruction list \<times> transpiler) result" where
  "codecopyCall L destOffset codeOffset n codeData tr =
     bindR (copied_range codeOffset n codeData) (\<lambda>codeToCopy.
       let (is, ds) = copy_chunks L destOffset codeToCopy (unat n) 0 (dataSection tr)
       in Inr (is, tr\<lparr>dataSection := ds\<rparr>))"

definition returndatacopyCall :: "third_party \<Rightarrow> u64 \<Rightarrow> u64 \<Rightarrow> u64 \<Rightarrow> bytes \<Rightarrow> transpiler
    \<Rightarrow> (instruction list \<times> transpiler) result" where
  "returndatacopyCall L destOffset returnDataOffset n returnData tr =
     bindR (copied_range returnDataOffset n returnData) (\<lambda>returnDataToCopy.
       let (is, ds) = copy_chunks L destOffset returnDataToCopy (unat n) 0 (dataSection tr)
       in Inr (is, tr\<lparr>dataSection := ds\<rparr>))"

section \<open>The range\<close>

text \<open>What the EVM copies: bytes past the end of the data are zero.\<close>

definition evm_range :: "nat \<Rightarrow> nat \<Rightarrow> bytes \<Rightarrow> bytes" where
  "evm_range offset n data = map (\<lambda>k. if offset + k < length data then data ! (offset + k) else 0) [0..<n]"

lemma length_evm_range [simp]: "length (evm_range offset n data) = n"
  by (simp add: evm_range_def)

lemma go_copy_range:
  "go_copy (replicate n 0) (take n (drop offset data)) = evm_range offset n data"
  by (rule nth_equalityI) (auto simp: go_copy_def evm_range_def nth_append min_def)

lemma make_bytes_Inr: "make_bytes n = Inr buf \<longleftrightarrow> unat n \<le> maxAlloc \<and> buf = replicate (unat n) 0"
  by (auto simp: make_bytes_def)

text \<open>Within the limit the bytes are the EVM's, and nothing panics.\<close>

lemma copied_range_evm:
  assumes "unat n \<le> maxAlloc" and "length data < 2 ^ 63"
  shows "copied_range offset n data = Inr (evm_range (unat offset) (unat n) data)"
proof -
  have buf: "make_bytes n = Inr (replicate (unat n) 0)" using assms(1) by (simp add: make_bytes_def)
  have len: "unat (word_of_nat (length data) :: u64) = length data"
    using assms(2) by (intro unat_word_of_nat) simp
  show ?thesis
  proof (cases "offset < word_of_nat (length data)")
    case True
    then have lt: "unat offset < length data" by (simp add: word_less_nat_alt len)
    then have add: "unat (offset + n) = unat offset + unat n"
      using assms by (subst unat_add_lem[THEN iffD1]) (simp_all add: maxAlloc_def)
    define e where "e = (if offset + n > word_of_nat (length data) then word_of_nat (length data) else offset + n)"
    have e: "unat e = min (unat offset + unat n) (length data)"
      by (auto simp: e_def word_less_nat_alt add len)
    then have "go_slice data (unat offset) (unat e) = Inr (take (unat n) (drop (unat offset) data))"
      using lt by (auto simp: go_slice_def min_def)
    then show ?thesis
      using True by (simp add: copied_range_def buf Let_def flip: e_def go_copy_range)
  next
    case False
    then have "length data \<le> unat offset" by (simp add: word_less_nat_alt len not_less)
    then have "evm_range (unat offset) (unat n) data = replicate (unat n) 0"
      by (intro nth_equalityI) (simp_all add: evm_range_def)
    with False buf show ?thesis by (simp add: copied_range_def)
  qed
qed

section \<open>The chunks\<close>

definition chunk_at :: "bytes \<Rightarrow> nat \<Rightarrow> bytes" where
  "chunk_at buf i = go_copy (replicate 32 0) (drop i buf)"

lemma length_chunk [simp]: "length (chunk_at buf i) = 32"
  by (simp add: chunk_at_def)

text \<open>The chunks from byte \<open>i\<close> on, and their concatenation.\<close>

function chunks :: "bytes \<Rightarrow> nat \<Rightarrow> bytes list" where
  "chunks buf i = (if i < length buf then chunk_at buf i # chunks buf (i + 32) else [])"
  by pat_completeness auto

termination
  by (relation "measure (\<lambda>(buf, i). length buf - i)") auto

declare chunks.simps [simp del]

lemma chunks_concat: "take (length buf - i) (concat (chunks buf i)) = drop i buf"
proof (induction buf i rule: chunks.induct)
  case (1 buf i)
  show ?case
  proof (cases "i < length buf")
    case True
    have d: "take 32 (drop i buf) @ drop (i + 32) buf = drop i buf"
      using append_take_drop_id[of 32 "drop i buf"] by (simp add: add.commute)
    have c: "take (length buf - i) (chunk_at buf i) = take 32 (drop i buf)"
      by (cases "length buf - i \<le> 32") (simp_all add: chunk_at_def go_copy_def)
    have "take (length buf - i) (concat (chunks buf i)) =
        take (length buf - i) (chunk_at buf i) @ take (length buf - i - 32) (concat (chunks buf (i + 32)))"
      using True by (subst chunks.simps) simp
    also have "\<dots> = take 32 (drop i buf) @ drop (i + 32) buf"
      using 1[OF True] c by (simp add: diff_diff_left)
    finally show ?thesis unfolding d .
  next
    case False
    then show ?thesis by simp
  qed
qed

text \<open>The code for a list of labels, to successive places.\<close>

fun copy_all :: "u64 \<Rightarrow> string list \<Rightarrow> instruction list" where
  "copy_all dest [] = []"
| "copy_all dest (l # ls) = copy_value_code dest l @ copy_all (dest + 32) ls"

lemma copy_chunks_adds:
  assumes "n = length buf" and "pool.adds L (map (SetBytes L) (chunks buf i)) ds = (labels, ds')"
  shows "copy_chunks L dest buf n i ds = (copy_all (dest + word_of_nat i) labels, ds')"
  using assms
proof (induction L dest buf n i ds arbitrary: labels ds' rule: copy_chunks.induct)
  case (1 L dest buf n i ds)
  show ?case
  proof (cases "i < n")
    case True
    obtain l ds1 where l: "Add L (SetBytes L (chunk_at buf i)) ds = (l, ds1)" by fastforce
    obtain ls ds2 where ls: "pool.adds L (map (SetBytes L) (chunks buf (i + 32))) ds1 = (ls, ds2)" by fastforce
    have chunk: "(if i < length buf then go_copy (replicate 32 0) (drop i buf) else replicate 32 0) = chunk_at buf i"
      using True 1(2) by (simp add: chunk_at_def)
    have "chunks buf i = chunk_at buf i # chunks buf (i + 32)" using True 1(2) by (subst chunks.simps) simp
    then have res: "labels = l # ls" "ds' = ds2" using 1(3) l ls by (simp_all add: Let_def)
    have "copy_chunks L dest buf n (i + 32) ds1 = (copy_all (dest + word_of_nat (i + 32)) ls, ds2)"
      by (rule 1(1)[OF True refl refl _ 1(2) ls]) (simp add: chunk l)
    then show ?thesis
      using True by (subst copy_chunks.simps) (simp add: chunk l res ac_simps)
  next
    case False
    with 1(2) have "chunks buf i = []" by (subst chunks.simps) simp
    with False 1(3) show ?thesis by (subst copy_chunks.simps) simp
  qed
qed

lemma chunks_32: "c \<in> set (chunks buf i) \<Longrightarrow> length c = 32"
  by (induction buf i rule: chunks.induct) (subst (asm) (2) chunks.simps, auto split: if_splits)

lemma be_bytes_be_nat: "be_bytes (length c) (be_nat c) = c"
proof (induction c rule: rev_induct)
  case (snoc b bs)
  have "unat b < 256" using unsigned_less[of b] by simp
  with snoc show ?case by (simp add: be_nat_append)
qed simp

text \<open>
  What the generators leave: code that copies labels whose values, written out, are the EVM's range.
\<close>

lemma codecopy_denotes:
  assumes "unat n \<le> maxAlloc" and "length data < 2 ^ 63" and "pool_ok L (dataSection tr)" and "bytes_big_endian L"
  shows "\<exists>labels vs ds. codecopyCall L dest offset n data tr = Inr (copy_all dest labels, tr\<lparr>dataSection := ds\<rparr>) \<and>
    map (resolve ds) labels = map Some vs \<and>
    take (unat n) (concat (map (\<lambda>v. be_bytes 32 (unat v)) vs)) = evm_range (unat offset) (unat n) data"
proof -
  let ?range = "evm_range (unat offset) (unat n) data"
  let ?vs = "map (SetBytes L) (chunks ?range 0)"
  obtain labels ds where a: "pool.adds L ?vs (dataSection tr) = (labels, ds)" by fastforce
  have "codecopyCall L dest offset n data tr = Inr (copy_all dest labels, tr\<lparr>dataSection := ds\<rparr>)"
    using copied_range_evm[OF assms(1,2)] copy_chunks_adds[OF _ a] by (simp add: codecopyCall_def)
  moreover have "map (resolve ds) labels = map Some ?vs"
    using pool.adds_denote[OF assms(3), of ?vs] a by simp
  moreover have "map (\<lambda>v. be_bytes 32 (unat v)) ?vs = chunks ?range 0"
  proof (rule map_idI[THEN trans[rotated]])
    show "map (\<lambda>v. be_bytes 32 (unat v)) ?vs = map (\<lambda>c. be_bytes 32 (unat (SetBytes L c))) (chunks ?range 0)"
      by simp
    show "be_bytes 32 (unat (SetBytes L c)) = c" if "c \<in> set (chunks ?range 0)" for c
      using chunks_32[OF that] assms(4) be_bytes_be_nat[of c] be_nat_bound[of c]
      by (simp add: bytes_big_endian_def unat_of_nat take_bit_nat_eq_self)
  qed
  ultimately show ?thesis using chunks_concat[of ?range 0] by (metis drop0 length_evm_range minus_nat.diff_0)
qed

lemma returndatacopy_is_codecopy: "returndatacopyCall = codecopyCall"
  by (simp add: fun_eq_iff returndatacopyCall_def codecopyCall_def)

end
