(* ===== verification/Spec2Isabelle.thy ===== *)
theory Spec2Isabelle
  imports ReplayProps CodeProps LibProps StoreProps AssemblyProps BlockProps CommandProps HarnessProps
    UnicornProps DebugProps DriverProps Copies
begin

text \<open>
  A model of a transpiler from EVM execution traces to RISC-V assembly and of the programs around
  it: the tracer that records a transaction, the transpiler, the assembly files, the zkVM tool
  chain that proves them, the proving of whole blocks, the commands, and the test harness with its
  emulator. All source paths below are under src/.

  \<^bold>\<open>The program.\<close> Erigon executes a transaction and calls the hooks of \<open>tracer/tracer.go\<close>; the
  state tracer records one entry per executed opcode (opcode, immediate bytes, stack) and one per
  return from a nested call, and the execution state of the last opcode. \<open>transpiler/transpiler.go\<close>
  turns each entry into RV32IM instructions on a stack of 32-byte slots below \<open>sp\<close>: some opcodes
  are executed (pushes, \<open>DUP\<close>, \<open>SWAP\<close>, pops, and arithmetic through library calls when these are
  enabled), most are replayed, their result being read off the next entry and put into a pool of
  256-bit values, the data section. \<open>prover/compiler.go\<close> prints the file for the zkVM or for
  Unicorn, \<open>prover/prover.go\<close> runs \<open>cargo openvm\<close> on it, \<open>cmd/block-prove\<close> does so for the
  concatenated traces of a block, \<open>cmd/tx-prove\<close> and \<open>cmd/evm-prove\<close> for one trace,
  \<open>cmd/proof-verify\<close> checks a results file, and \<open>cmd/debug-transpiler\<close> searches for the first
  opcode whose code does not prove.

  \<^bold>\<open>Theories and what they model.\<close>
  \<^item> \<open>Prelude\<close>: machine integers, Go errors and panics as values (\<open>fail\<close>, \<open>result\<close>), slices, number
    formatting and reading, big-endian bytes. \<open>External\<close>: opcodes and the third-party functions
    (\<open>third_party\<close>: uint256, Erigon's opcode names), with their documented behaviour as predicates
    and an instance, \<open>sample_lib\<close>, that satisfies them.
  \<^item> \<open>DataSection\<close>: \<open>DataSection\<close> and \<open>StorageSection\<close> of transpiler.go. \<open>Tracer\<close>: \<open>StateTracer\<close>
    and its hooks. \<open>Codegen\<close>: the generators that use no state. \<open>Transpiler\<close>:
    \<open>AddInstructionWithResult\<close> case by case, \<open>ProcessExecution\<close>, transaction boundaries. \<open>Copies\<close>: the
    unused generators for code and return data copies.
  \<^item> \<open>RiscV\<close>, \<open>Machine\<close>, \<open>Image\<close>: the target language, its execution on registers and byte memory,
    sample memories. \<open>Invariants\<close>, \<open>Runs\<close>, \<open>Execution\<close>, \<open>StackCode\<close>, \<open>Replay\<close>, \<open>Outcomes\<close>,
    \<open>Saved\<close>: the invariant of the transpiler state, runs that may fail, what one instruction adds,
    the simulation of stack operations by emitted code, the plan of a trace, which entries
    transpile, which registers the code leaves alone.
  \<^item> \<open>Library\<close>: the sixteen routines of prover/resources/lib.asm, line by line, with branches, calls and
    \<open>ret\<close>. \<open>LibLoops\<close>: the shapes of their loops as locales. \<open>LibWords\<close>: 256-bit values as eight
    words. \<open>LibRoutines\<close>, \<open>LibCompare\<close>, \<open>LibMul\<close>, \<open>LibDiv\<close>, \<open>LibShift\<close>: what each routine leaves
    behind. \<open>HostCode\<close>, \<open>WideCode\<close>: the transpiler with host-optimised opcodes linked with the
    library, and the simulation of its code at full width. \<open>OpenVM\<close>: the program of the OpenVM target,
    in which some calls go to the functions of prover/openvm/bigint/src/lib.rs, over the ruint
    crate and the C calling convention as parameters; code without such calls runs there as it
    does with lib.asm.
  \<^item> \<open>Assembly\<close>: \<open>AssemblyFile\<close> of compiler.go as text. \<open>Toolchain\<close>: prover.go over a \<open>world\<close> of files, clock
    readings and issued commands. \<open>Block\<close>, \<open>BlockTracing\<close>: block-prove, its goroutines as a step
    relation. \<open>Commands\<close>: the other commands. \<open>Drivers\<close>: the commands from their arguments and the
    node to the exit status, gcc and solc (\<open>ToBytecode\<close>, solc.go), loading an ELF file. \<open>MockState\<close>, \<open>Harness\<close>: mock_state_db.go,
    \<open>SimpleTracer\<close> and test_runner.go. \<open>Unicorn\<close>: unicorn_runner.go. \<open>DebugSearch\<close>:
    debug-transpiler.

  \<^bold>\<open>What the lemmas show.\<close>
  \<^item> \<open>TranspilerProps\<close>, \<open>StoreProps\<close>, \<open>CodeProps\<close>: every transpilation keeps the invariant, only
    appends, links (valid instructions, defined labels), fails exactly at an entry, records debug
    mappings that are the code; the data section is a pool without duplicates; the storage keeps
    the first value of a key; results are replayed at full width, literals are not; frames nest.
  \<^item> \<open>ReplayProps\<close>, \<open>BlockReplay\<close>: in the production configuration the assembled program of a
    trace, and of the traces of a block, runs to its end on the machine and leaves the stack the
    plan computes; \<open>plan\<close> is the abstract specification, a list of stack operations per entry.
  \<^item> \<open>LibProps\<close>: on OpenVM the code of subtraction, the bitwise operations and the signed comparison
    gives the EVM's result; multiplication and division do for 32-bit operands, with an exception,
    and the left shift does not; addition, the unsigned comparisons and the right shift, which
    call the guest's Rust functions there, leave one operand too many on the stack; the printed
    program of a trace without calls of those functions computes, slot by slot, the values its plan
    gives, entirely or in their low word.
  \<^item> \<open>AssemblyProps\<close>: code and data texts read back as the program. \<open>ToolchainProps\<close>,
    \<open>CommandProps\<close>: a proof comes from build, keygen and prove on the program, results files
    verify what was proved, the block report describes the block. \<open>BlockProps\<close>: safety and
    termination of the tracing goroutines under every schedule, and what overlap does to them.
    \<open>DriverProps\<close>: the whole \<open>block-prove\<close> under every schedule reports on the block asked for;
    commands that cannot reach their node end as successes.
  \<^item> \<open>HarnessProps\<close>, \<open>UnicornProps\<close>, \<open>DebugProps\<close>, \<open>MockState\<close>: the test harness, the stack
    snapshots, the bisection, the mock state.

  \<^bold>\<open>Interfaces.\<close> The locales \<open>fallible_machine\<close> (steps that may fail, an invariant, a preorder),
  \<open>word_memory\<close> (32-bit accesses), \<open>simulation\<close> (abstract stack operations against emitted code),
  \<open>ordered_loop\<close>, \<open>word_loop\<close>, \<open>word_scan\<close> and \<open>word_move\<close> (the loops of the library), \<open>word_shift\<close>
  (a shift routine), the pool and store contracts of the data section and \<open>keyed_store\<close> of the
  mock state are interpreted on the model's own definitions in the theories that provide them.

  \<^bold>\<open>Bounds.\<close> Stack addresses are 32-bit words; the theorems about running code ask for room, as
  inequalities between the stack pointer, the data section and \<open>2 ^ 32\<close>. No definition uses fuel:
  loops are structural or have a termination proof, and the library code is a
  \<open>partial_function\<close> of which \<open>computes\<close> says that it returns.

  \<^bold>\<open>Not modelled.\<close> Erigon, \<open>cargo openvm\<close>, gcc, solc, Unicorn, the ruint crate and the code the Rust
  compiler makes of the guest, which are parameters; the main function of the guest; lib.asm on
  the 64-bit registers of Unicorn (\<open>Library\<close> and \<open>OpenVM\<close> are the 32-bit target); the parsing of flags, timeouts, logging, printing to the terminal and
  closing the services of the node; the accessors that only return a field.
\<close>

end
